(* ===== verification/Go_Prelude.thy ===== *)
theory Go_Prelude
  imports Main "HOL-Library.Word"
begin

text \<open>
  The part of the Go language that every component of the SDK uses: the machine integer
  types, strings, slices with a length and a capacity, run-time panics, and fallible
  results.

  \<^item> A Go \<open>error\<close> return is a value of a sum type: \<open>Inl\<close> the error, \<open>Inr\<close> the value.
  \<^item> A run-time panic is a value of \<open>outcome\<close>, apart from the errors: no caller in
    the SDK recovers from one.
  \<^item> A slice is the visible elements together with the hidden elements between its length and
    its capacity, since \<open>s[:n]\<close> may re-slice up to the capacity.
  \<^item> A Go string is a sequence of bytes, as \<open>char list\<close> is in HOL.
\<close>

section \<open>Machine types\<close>

type_synonym byte = "8 word"
type_synonym uint16 = "16 word"
type_synonym uint32 = "32 word"
type_synonym int32 = "32 word"
type_synonym int64 = "64 word"
type_synonym float32 = "32 word"
type_synonym go_string = string

text \<open>
  \<open>int16\<close>, \<open>int32\<close> and \<open>int64\<close> are words read with \<open>sint\<close>. A \<open>float32\<close> is its IEEE-754
  bit pattern: the SDK stores, copies and serialises metric values and never computes with
  them.
\<close>

section \<open>Panics and results\<close>

datatype go_panic =
    SliceBoundsOutOfRange
  | IndexOutOfRange
  | NilDereference
  | CloseOfClosedChannel
  | MakeSliceOutOfRange

datatype 'a outcome = Return 'a | Panic go_panic

primrec obind :: "'a outcome \<Rightarrow> ('a \<Rightarrow> 'b outcome) \<Rightarrow> 'b outcome" where
  "obind (Return a) f = f a"
| "obind (Panic p) f = Panic p"

named_theorems go_simps \<open>equations that unfold the Go run-time operations\<close>

lemma obind_eq_Return [go_simps]:
  "obind x f = Return b \<longleftrightarrow> (\<exists>a. x = Return a \<and> f a = Return b)"
  by (cases x) auto

lemma obind_eq_Panic [go_simps]:
  "obind x f = Panic p \<longleftrightarrow> x = Panic p \<or> (\<exists>a. x = Return a \<and> f a = Panic p)"
  by (cases x) auto

lemma obind_cong [fundef_cong]:
  "x = y \<Longrightarrow> (\<And>a. y = Return a \<Longrightarrow> f a = g a) \<Longrightarrow> obind x f = obind y g"
  by (cases y) auto

text \<open>Sequencing of fallible results: the first error is returned, as \<open>if err != nil { return err }\<close> does.\<close>

primrec rbind :: "'e + 'a \<Rightarrow> ('a \<Rightarrow> 'e + 'b) \<Rightarrow> 'e + 'b" where
  "rbind (Inl e) f = Inl e"
| "rbind (Inr a) f = f a"

lemma rbind_eq_Inr [go_simps]:
  "rbind x f = Inr b \<longleftrightarrow> (\<exists>a. x = Inr a \<and> f a = Inr b)"
  by (cases x) auto

lemma rbind_cong [fundef_cong]:
  "x = y \<Longrightarrow> (\<And>a. y = Inr a \<Longrightarrow> f a = g a) \<Longrightarrow> rbind x f = rbind y g"
  by (cases y) auto

lemma rbind_Inr_right [simp]: "rbind x Inr = x"
  by (cases x) auto

section \<open>Slices\<close>

record 'a slice =
  elems :: "'a list"
  spare :: "'a list"

definition nil_slice :: "'a slice" where
  "nil_slice = \<lparr>elems = [], spare = []\<rparr>"

definition of_list :: "'a list \<Rightarrow> 'a slice" where
  "of_list xs = \<lparr>elems = xs, spare = []\<rparr>"

text \<open>\<open>make([]T, 0, n)\<close>: no visible element, \<open>n\<close> hidden zero values.\<close>

definition make_slice :: "'a \<Rightarrow> nat \<Rightarrow> nat \<Rightarrow> 'a slice" where
  "make_slice zero len cap = \<lparr>elems = replicate len zero, spare = replicate (cap - len) zero\<rparr>"

definition slice_len :: "'a slice \<Rightarrow> nat" where
  "slice_len s = length (elems s)"

definition slice_cap :: "'a slice \<Rightarrow> nat" where
  "slice_cap s = length (elems s) + length (spare s)"

text \<open>The slice expression \<open>s[i:j]\<close>: the bounds are checked against the capacity.\<close>

definition slice_range :: "'a slice \<Rightarrow> nat \<Rightarrow> nat \<Rightarrow> 'a slice outcome" where
  "slice_range s i j =
     (if i \<le> j \<and> j \<le> slice_cap s
      then Return \<lparr>elems = take (j - i) (drop i (elems s @ spare s)),
                   spare = drop j (elems s @ spare s)\<rparr>
      else Panic SliceBoundsOutOfRange)"

text \<open>\<open>s[i:]\<close> means \<open>s[i:len(s)]\<close>.\<close>

definition slice_from :: "'a slice \<Rightarrow> nat \<Rightarrow> 'a slice outcome" where
  "slice_from s i = slice_range s i (slice_len s)"

definition slice_get :: "'a slice \<Rightarrow> nat \<Rightarrow> 'a outcome" where
  "slice_get s i = (if i < slice_len s then Return (elems s ! i) else Panic IndexOutOfRange)"

definition slice_set :: "'a slice \<Rightarrow> nat \<Rightarrow> 'a \<Rightarrow> 'a slice outcome" where
  "slice_set s i v =
     (if i < slice_len s then Return (s\<lparr>elems := (elems s)[i := v]\<rparr>) else Panic IndexOutOfRange)"

lemmas slice_defs = slice_len_def slice_cap_def slice_range_def slice_from_def slice_get_def
  slice_set_def

lemma slice_range_prefix:
  "n \<le> slice_len s \<Longrightarrow>
   slice_range s 0 n = Return \<lparr>elems = take n (elems s), spare = drop n (elems s) @ spare s\<rparr>"
  by (simp add: slice_defs)

lemma slice_range_elems:
  "slice_range s i j = Return t \<Longrightarrow> j \<le> slice_len s \<Longrightarrow> elems t = take (j - i) (drop i (elems s))"
  by (auto simp: slice_defs split: if_splits)

lemma slice_range_Return_iff:
  "(\<exists>t. slice_range s i j = Return t) \<longleftrightarrow> i \<le> j \<and> j \<le> slice_cap s"
  by (simp add: slice_range_def)

lemma slice_from_prefix_Return:
  "slice_from s n = Return t \<Longrightarrow> n \<le> slice_len s \<and> elems t = drop n (elems s)"
  by (auto simp: slice_defs split: if_splits)

lemma slice_from_Return:
  "n \<le> slice_len s \<Longrightarrow> slice_from s n = Return \<lparr>elems = drop n (elems s), spare = spare s\<rparr>"
  by (simp add: slice_defs)

section \<open>Strings and bytes\<close>

text \<open>\<open>[]byte(s)\<close> and \<open>string(b)\<close>.\<close>

definition byte_of_char :: "char \<Rightarrow> byte" where
  "byte_of_char c = of_nat (of_char c)"

definition char_of_byte :: "byte \<Rightarrow> char" where
  "char_of_byte b = char_of (unat b)"

definition bytes_of_string :: "go_string \<Rightarrow> byte list" where
  "bytes_of_string s = map byte_of_char s"

definition string_of_bytes :: "byte list \<Rightarrow> go_string" where
  "string_of_bytes bs = map char_of_byte bs"

lemma char_of_byte_of_char [simp]: "char_of_byte (byte_of_char c) = c"
  by (simp add: byte_of_char_def char_of_byte_def unat_of_nat)

lemma byte_of_char_of_byte [simp]: "byte_of_char (char_of_byte b) = b"
proof -
  have "unat b < 256" using unsigned_less [of b] by simp
  then show ?thesis by (simp add: byte_of_char_def char_of_byte_def)
qed

lemma string_of_bytes_of_string [simp]: "string_of_bytes (bytes_of_string s) = s"
  by (simp add: string_of_bytes_def bytes_of_string_def comp_def)

lemma bytes_of_string_of_bytes [simp]: "bytes_of_string (string_of_bytes bs) = bs"
  by (simp add: string_of_bytes_def bytes_of_string_def comp_def)

lemma length_bytes_of_string [simp]: "length (bytes_of_string s) = length s"
  by (simp add: bytes_of_string_def)

lemma bytes_of_string_append [simp]:
  "bytes_of_string (s @ t) = bytes_of_string s @ bytes_of_string t"
  by (simp add: bytes_of_string_def)

lemma bytes_of_string_Nil [simp]: "bytes_of_string [] = []"
  by (simp add: bytes_of_string_def)

lemma byte_of_char_eq_iff [simp]: "byte_of_char c = byte_of_char d \<longleftrightarrow> c = d"
  by (metis char_of_byte_of_char)

text \<open>Conversion to a byte keeps the low eight bits.\<close>

lemma byte_of_nat_mod: "(of_nat (n mod 256) :: byte) = of_nat n"
  by (simp add: word_unat_eq_iff unat_of_nat)

lemma ucast_byte_eq: "(ucast (w :: 'a::len word) :: byte) = of_nat (unat w mod 256)"
  by (simp add: byte_of_nat_mod unsigned_def)

lemma uint16_of_nat_mod: "(of_nat (n mod 65536) :: uint16) = of_nat n"
  by (simp add: word_unat_eq_iff unat_of_nat)

lemma ucast_uint16_eq: "(ucast (w :: 'a::len word) :: uint16) = of_nat (unat w mod 65536)"
  by (simp add: uint16_of_nat_mod unsigned_def)

section \<open>List facts shared by the components\<close>

lemma take_append_exact [simp]: "length xs = n \<Longrightarrow> take n (xs @ ys) = xs"
  by simp

lemma drop_append_exact [simp]: "length xs = n \<Longrightarrow> drop n (xs @ ys) = ys"
  by simp

lemma fold_invariant:
  "(\<And>x s. x \<in> set xs \<Longrightarrow> I s \<Longrightarrow> I (f x s)) \<Longrightarrow> I s \<Longrightarrow> I (fold f xs s)"
  by (induction xs arbitrary: s) auto

end
