(* ===== verification/Go_Strconv.thy ===== *)
theory Go_Strconv
  imports Go_Prelude
begin

text \<open>
  The conversions of the Go package \<open>strconv\<close> and the \<open>%d\<close> verb of \<open>fmt\<close> that the SDK calls:
  \<open>ParseInt(s, 10, 64)\<close> (through \<open>json.Number.Int64\<close>), \<open>ParseBool\<close>, and the decimal form of
  an integer.
\<close>

datatype num_error = ErrSyntax | ErrRange

section \<open>Parsing integers\<close>

definition digit_value :: "char \<Rightarrow> nat option" where
  "digit_value c =
     (let n = of_char c :: nat in if 48 \<le> n \<and> n \<le> 57 then Some (n - 48) else None)"

text \<open>\<open>ParseUint\<close> in base 10: the accumulator is checked after every digit.\<close>

fun parse_digits :: "nat \<Rightarrow> go_string \<Rightarrow> num_error + nat" where
  "parse_digits n [] = Inr n"
| "parse_digits n (c # cs) =
     (case digit_value c of
        None \<Rightarrow> Inl ErrSyntax
      | Some d \<Rightarrow>
          (let n1 = 10 * n + d
           in if 2 ^ 64 \<le> n1 then Inl ErrRange else parse_digits n1 cs))"

definition parse_uint :: "go_string \<Rightarrow> num_error + nat" where
  "parse_uint s = (if s = [] then Inl ErrSyntax else parse_digits 0 s)"

text \<open>
  \<open>ParseInt\<close> returns a value beside the error: 0 on a syntax error, the nearest bound on a
  range error.
\<close>

definition parse_int64 :: "go_string \<Rightarrow> int \<times> num_error option" where
  "parse_int64 s =
     (let neg = (case s of [] \<Rightarrow> False | c # _ \<Rightarrow> c = CHR ''-'');
          body = (case s of [] \<Rightarrow> [] | c # cs \<Rightarrow> if c = CHR ''-'' \<or> c = CHR ''+'' then cs else s)
      in case parse_uint body of
           Inl ErrSyntax \<Rightarrow> (0, Some ErrSyntax)
         | Inl ErrRange \<Rightarrow> (if neg then - (2 ^ 63) else 2 ^ 63 - 1, Some ErrRange)
         | Inr un \<Rightarrow>
             if \<not> neg \<and> 2 ^ 63 \<le> un then (2 ^ 63 - 1, Some ErrRange)
             else if neg \<and> 2 ^ 63 < un then (- (2 ^ 63), Some ErrRange)
             else (if neg then - int un else int un, None))"

section \<open>Printing integers\<close>

definition digit_char :: "nat \<Rightarrow> char" where
  "digit_char d = char_of (48 + d)"

fun nat_dec :: "nat \<Rightarrow> go_string" where
  "nat_dec n = (if n < 10 then [digit_char n] else nat_dec (n div 10) @ [digit_char (n mod 10)])"

declare nat_dec.simps [simp del]

definition int_dec :: "int \<Rightarrow> go_string" where
  "int_dec i = (if i < 0 then CHR ''-'' # nat_dec (nat (- i)) else nat_dec (nat i))"

lemma digit_value_char [simp]: "d < 10 \<Longrightarrow> digit_value (digit_char d) = Some d"
  by (simp add: digit_value_def digit_char_def Let_def)

lemma parse_digits_append:
  "parse_digits n (xs @ ys) = rbind (parse_digits n xs) (\<lambda>m. parse_digits m ys)"
  by (induction xs arbitrary: n) (auto simp: Let_def split: option.splits)

lemma parse_digits_dec: "n < 2 ^ 64 \<Longrightarrow> parse_digits 0 (nat_dec n) = Inr n"
proof (induction n rule: nat_dec.induct)
  case (1 n)
  show ?case
  proof (cases "n < 10")
    case True
    then show ?thesis by (simp add: nat_dec.simps [of n])
  next
    case False
    with 1 have "parse_digits 0 (nat_dec (n div 10)) = Inr (n div 10)" by simp
    with False 1(2) show ?thesis
      by (simp add: nat_dec.simps [of n] parse_digits_append not_le [symmetric])
  qed
qed

lemma nat_dec_first: "\<exists>d cs. nat_dec n = digit_char d # cs \<and> d < 10"
proof (induction n rule: nat_dec.induct)
  case (1 n)
  then show ?case by (cases "n < 10") (auto simp: nat_dec.simps [of n])
qed

lemma digit_char_sign: "d < 10 \<Longrightarrow> digit_char d \<noteq> CHR ''-'' \<and> digit_char d \<noteq> CHR ''+''"
proof -
  assume d: "d < 10"
  then have "of_char (digit_char d) = 48 + d" by (simp add: digit_char_def)
  then show ?thesis using d by auto
qed

lemma nat_dec_nonempty [simp]: "nat_dec n \<noteq> []"
  using nat_dec_first [of n] by auto

text \<open>Round trip: every 64-bit integer is parsed back from its decimal form.\<close>

lemma parse_int64_dec:
  assumes "- (2 ^ 63) \<le> i" and "i < 2 ^ 63"
  shows "parse_int64 (int_dec i) = (i, None)"
proof (cases "i < 0")
  case True
  with assms(1) have "nat (- i) < 2 ^ 64" "\<not> 2 ^ 63 < nat (- i)" by auto
  with True show ?thesis
    by (simp add: parse_int64_def int_dec_def parse_uint_def parse_digits_dec)
next
  case False
  obtain d cs where d: "nat_dec (nat i) = digit_char d # cs" "d < 10"
    using nat_dec_first by blast
  from False assms(2) have n: "nat i < 2 ^ 64" "\<not> 2 ^ 63 \<le> nat i" by auto
  have "parse_uint (nat_dec (nat i)) = Inr (nat i)"
    using n by (simp add: parse_uint_def parse_digits_dec)
  with False n d digit_char_sign [OF d(2)] show ?thesis
    by (simp add: parse_int64_def int_dec_def)
qed

section \<open>Parsing booleans\<close>

definition ParseBool :: "go_string \<Rightarrow> bool \<times> num_error option" where
  "ParseBool s =
     (if s \<in> set [''1'', ''t'', ''T'', ''true'', ''TRUE'', ''True''] then (True, None)
      else if s \<in> set [''0'', ''f'', ''F'', ''false'', ''FALSE'', ''False''] then (False, None)
      else (False, Some ErrSyntax))"

end
