(* ===== verification/Go_Binary.thy ===== *)
theory Go_Binary
  imports Go_Prelude
begin

text \<open>
  The parts of the Go packages \<open>encoding/binary\<close> and \<open>bytes\<close> that the query protocols use:
  big-endian and little-endian integers, \<open>binary.Write\<close> of the value kinds of the wire
  formats, and \<open>binary.Read\<close> from a \<open>bytes.Buffer\<close>. The lemmas are the round trips between
  the put and get functions and the widths of the encodings.
\<close>

unbundle bit_operations_syntax

section \<open>Byte orders\<close>

definition be_put16 :: "uint16 \<Rightarrow> byte list" where
  "be_put16 v = [ucast (drop_bit 8 v), ucast v]"

definition be_put32 :: "uint32 \<Rightarrow> byte list" where
  "be_put32 v = [ucast (drop_bit 24 v), ucast (drop_bit 16 v), ucast (drop_bit 8 v), ucast v]"

definition le_put16 :: "uint16 \<Rightarrow> byte list" where
  "le_put16 v = [ucast v, ucast (drop_bit 8 v)]"

definition le_put32 :: "uint32 \<Rightarrow> byte list" where
  "le_put32 v = [ucast v, ucast (drop_bit 8 v), ucast (drop_bit 16 v), ucast (drop_bit 24 v)]"

definition be_get16 :: "byte \<Rightarrow> byte \<Rightarrow> uint16" where
  "be_get16 b0 b1 = ucast b1 OR push_bit 8 (ucast b0)"

definition be_get32 :: "byte \<Rightarrow> byte \<Rightarrow> byte \<Rightarrow> byte \<Rightarrow> uint32" where
  "be_get32 b0 b1 b2 b3 =
     ucast b3 OR push_bit 8 (ucast b2) OR push_bit 16 (ucast b1) OR push_bit 24 (ucast b0)"

definition le_get16 :: "byte \<Rightarrow> byte \<Rightarrow> uint16" where
  "le_get16 b0 b1 = be_get16 b1 b0"

definition le_get32 :: "byte \<Rightarrow> byte \<Rightarrow> byte \<Rightarrow> byte \<Rightarrow> uint32" where
  "le_get32 b0 b1 b2 b3 = be_get32 b3 b2 b1 b0"

lemma be_get16_put16 [simp]: "be_get16 (ucast (drop_bit 8 v)) (ucast v) = v"
  unfolding be_get16_def by (rule bit_word_eqI) (auto simp: bit_simps)

lemma be_get32_put32 [simp]:
  "be_get32 (ucast (drop_bit 24 v)) (ucast (drop_bit 16 v)) (ucast (drop_bit 8 v)) (ucast v) = v"
proof (rule bit_word_eqI)
  fix n assume "n < LENGTH(32)"
  then consider "n < 8" | "8 \<le> n" "n < 16" | "16 \<le> n" "n < 24" | "24 \<le> n" "n < 32"
    by fastforce
  then show "bit (be_get32 (ucast (drop_bit 24 v)) (ucast (drop_bit 16 v))
      (ucast (drop_bit 8 v)) (ucast v)) n = bit v n"
    by cases (auto simp: be_get32_def bit_simps)
qed

lemma byte_bit_high [simp]: "8 \<le> n \<Longrightarrow> \<not> bit (b :: byte) n"
  by (auto dest: bit_imp_le_length)

lemma be_put16_get16 [simp]: "be_put16 (be_get16 a b) = [a, b]"
  unfolding be_put16_def be_get16_def
  by (auto intro!: bit_word_eqI simp: bit_simps)

lemma be_put32_get32 [simp]: "be_put32 (be_get32 a b c d) = [a, b, c, d]"
  unfolding be_put32_def be_get32_def
  by (auto intro!: bit_word_eqI simp: bit_simps)

lemma le_get32_put32 [simp]:
  "le_get32 (ucast v) (ucast (drop_bit 8 v)) (ucast (drop_bit 16 v)) (ucast (drop_bit 24 v)) = v"
  by (simp add: le_get32_def)

lemma le_put32_get32 [simp]: "le_put32 (le_get32 a b c d) = [a, b, c, d]"
  using be_put32_get32 [of d c b a] by (simp add: le_put32_def le_get32_def be_put32_def)

lemma length_put [simp]:
  "length (be_put16 v) = 2" "length (le_put16 v) = 2"
  "length (be_put32 w) = 4" "length (le_put32 w) = 4"
  by (simp_all add: be_put16_def le_put16_def be_put32_def le_put32_def)

section \<open>Reading from a buffer\<close>

text \<open>
  \<open>binary.Read\<close> fills its target with \<open>io.ReadFull\<close>: no byte at all is \<open>io.EOF\<close>, too few
  are \<open>io.ErrUnexpectedEOF\<close>. The pair is the bytes read and the bytes that remain.
\<close>

datatype read_error = EOF | UnexpectedEOF

definition read_full :: "nat \<Rightarrow> byte list \<Rightarrow> read_error + (byte list \<times> byte list)" where
  "read_full n r =
     (if n \<le> length r then Inr (take n r, drop n r)
      else if r = [] then Inl EOF else Inl UnexpectedEOF)"

definition le_read32 :: "byte list \<Rightarrow> read_error + (uint32 \<times> byte list)" where
  "le_read32 r =
     rbind (read_full 4 r) (\<lambda>(b, r'). Inr (le_get32 (b ! 0) (b ! 1) (b ! 2) (b ! 3), r'))"

lemma le_read32_put32 [simp]: "le_read32 (le_put32 v @ r) = Inr (v, r)"
  by (simp add: le_read32_def read_full_def le_put32_def)

lemma le_read32_short:
  "0 < length r \<Longrightarrow> length r < 4 \<Longrightarrow> le_read32 r = Inl UnexpectedEOF"
  by (auto simp: le_read32_def read_full_def)

lemma le_read32_long: "4 \<le> length r \<Longrightarrow> \<exists>v. le_read32 r = Inr (v, drop 4 r)"
  by (simp add: le_read32_def read_full_def)

section \<open>binary.Write of the wire value kinds\<close>

text \<open>
  The kinds of value that reach \<open>WireEncoder.Write\<close>: every scalar field type of the wire
  structs, byte slices (packet headers) and \<open>float32\<close> slices (metrics).
\<close>

datatype basic =
    U8 byte
  | U16 uint16
  | U32 uint32
  | I16 "16 word"
  | Bytes "byte list"
  | Floats "float32 list"

datatype byte_order = BigEndian | LittleEndian

primrec put16 :: "byte_order \<Rightarrow> 16 word \<Rightarrow> byte list" where
  "put16 BigEndian v = be_put16 v"
| "put16 LittleEndian v = le_put16 v"

primrec put32 :: "byte_order \<Rightarrow> 32 word \<Rightarrow> byte list" where
  "put32 BigEndian v = be_put32 v"
| "put32 LittleEndian v = le_put32 v"

primrec binary_bytes :: "byte_order \<Rightarrow> basic \<Rightarrow> byte list" where
  "binary_bytes ord (U8 b) = [b]"
| "binary_bytes ord (U16 v) = put16 ord v"
| "binary_bytes ord (U32 v) = put32 ord v"
| "binary_bytes ord (I16 v) = put16 ord v"
| "binary_bytes ord (Bytes bs) = bs"
| "binary_bytes ord (Floats fs) = concat (map (put32 ord) fs)"

text \<open>
  \<open>binary.Write\<close> appends to the buffer. Writing one of these kinds to a \<open>bytes.Buffer\<close>
  never fails.
\<close>

definition binary_write :: "byte_order \<Rightarrow> byte list \<Rightarrow> basic \<Rightarrow> byte list" where
  "binary_write ord buf v = buf @ binary_bytes ord v"

lemma length_put_ord [simp]: "length (put16 ord v) = 2" "length (put32 ord w) = 4"
  by (cases ord; simp)+

lemma length_concat_put32 [simp]: "length (concat (map (put32 ord) fs)) = 4 * length fs"
  by (induction fs) auto

text \<open>The size \<open>binary.Size\<close> gives for a value, whatever the byte order.\<close>

primrec binary_size :: "basic \<Rightarrow> nat" where
  "binary_size (U8 b) = 1"
| "binary_size (U16 v) = 2"
| "binary_size (U32 v) = 4"
| "binary_size (I16 v) = 2"
| "binary_size (Bytes bs) = length bs"
| "binary_size (Floats fs) = 4 * length fs"

lemma length_binary_bytes [simp]: "length (binary_bytes ord v) = binary_size v"
  by (cases v) simp_all

section \<open>Reading values back\<close>

text \<open>
  A reader for each kind of value, used to state that what the responders write can be
  decoded by a client: it takes the kind (with the length, for the two slice kinds) and
  returns the value and the bytes that remain.
\<close>

datatype basic_kind = KU8 | KU16 | KU32 | KI16 | KBytes nat | KFloats nat

primrec kind_of :: "basic \<Rightarrow> basic_kind" where
  "kind_of (U8 b) = KU8"
| "kind_of (U16 v) = KU16"
| "kind_of (U32 v) = KU32"
| "kind_of (I16 v) = KI16"
| "kind_of (Bytes bs) = KBytes (length bs)"
| "kind_of (Floats fs) = KFloats (length fs)"

primrec get16 :: "byte_order \<Rightarrow> byte \<Rightarrow> byte \<Rightarrow> 16 word" where
  "get16 BigEndian a b = be_get16 a b"
| "get16 LittleEndian a b = le_get16 a b"

primrec get32 :: "byte_order \<Rightarrow> byte \<Rightarrow> byte \<Rightarrow> byte \<Rightarrow> byte \<Rightarrow> 32 word" where
  "get32 BigEndian a b c d = be_get32 a b c d"
| "get32 LittleEndian a b c d = le_get32 a b c d"

fun read16 :: "byte_order \<Rightarrow> byte list \<Rightarrow> (16 word \<times> byte list) option" where
  "read16 ord (a # b # r) = Some (get16 ord a b, r)"
| "read16 ord r = None"

fun read32 :: "byte_order \<Rightarrow> byte list \<Rightarrow> (32 word \<times> byte list) option" where
  "read32 ord (a # b # c # d # r) = Some (get32 ord a b c d, r)"
| "read32 ord r = None"

primrec read_floats :: "byte_order \<Rightarrow> nat \<Rightarrow> byte list \<Rightarrow> (float32 list \<times> byte list) option" where
  "read_floats ord 0 r = Some ([], r)"
| "read_floats ord (Suc n) r =
     Option.bind (read32 ord r) (\<lambda>(f, r1).
       map_option (\<lambda>(fs, r2). (f # fs, r2)) (read_floats ord n r1))"

fun read_basic :: "byte_order \<Rightarrow> basic_kind \<Rightarrow> byte list \<Rightarrow> (basic \<times> byte list) option" where
  "read_basic ord KU8 r = (case r of [] \<Rightarrow> None | b # r' \<Rightarrow> Some (U8 b, r'))"
| "read_basic ord KU16 r = map_option (\<lambda>(v, r'). (U16 v, r')) (read16 ord r)"
| "read_basic ord KU32 r = map_option (\<lambda>(v, r'). (U32 v, r')) (read32 ord r)"
| "read_basic ord KI16 r = map_option (\<lambda>(v, r'). (I16 v, r')) (read16 ord r)"
| "read_basic ord (KBytes n) r = (if n \<le> length r then Some (Bytes (take n r), drop n r) else None)"
| "read_basic ord (KFloats n) r = map_option (\<lambda>(fs, r'). (Floats fs, r')) (read_floats ord n r)"

lemma read16_put16 [simp]: "read16 ord (put16 ord v @ r) = Some (v, r)"
  by (cases ord) (simp_all add: be_put16_def le_put16_def le_get16_def)

lemma read32_put32 [simp]: "read32 ord (put32 ord v @ r) = Some (v, r)"
  by (cases ord) (simp_all add: be_put32_def le_put32_def)

lemma read_floats_put [simp]:
  "read_floats ord (length fs) (concat (map (put32 ord) fs) @ r) = Some (fs, r)"
  by (induction fs) simp_all

lemma read_basic_bytes: "read_basic ord (kind_of v) (binary_bytes ord v @ r) = Some (v, r)"
  by (cases v) simp_all

end
