(* ===== verification/Proto_Wire.thy ===== *)
theory Proto_Wire
  imports Go_Binary
begin

text \<open>
  The package \<open>game-server-hosting/server/proto\<close>, file \<open>query.go\<close>: the query state, the
  interface \<open>WireEncoder\<close> and the reflective serialiser \<open>WireWrite\<close>.

  A Go struct that \<open>WireWrite\<close> walks by reflection is the list of its field values in
  declaration order. A field is a value or a pointer to one, because the walk dereferences
  one pointer. An interface value \<open>WireEncoder\<close> is the record of its two methods; the
  contract its implementations share is the locale \<open>wire_encoder_laws\<close>.
\<close>

section \<open>Query state\<close>

record query_state =
  CurrentPlayers :: int32
  MaxPlayers :: int32
  ServerName :: go_string
  GameType :: go_string
  MapName :: go_string
  Port :: uint16
  Metrics :: "float32 slice"

definition zero_query_state :: query_state where
  "zero_query_state = \<lparr>CurrentPlayers = 0, MaxPlayers = 0, ServerName = [], GameType = [],
     MapName = [], Port = 0, Metrics = nil_slice\<rparr>"

section \<open>WireWrite\<close>

datatype elem = EBasic basic | EString go_string | EStruct "field list"
  and field = FVal elem | FPtr "elem option"

record 'e wire_encoder =
  WriteString :: "byte list \<Rightarrow> go_string \<Rightarrow> 'e + byte list"
  Write :: "byte list \<Rightarrow> basic \<Rightarrow> 'e + byte list"

fun WireWrite :: "byte list \<Rightarrow> 'e wire_encoder \<Rightarrow> field list \<Rightarrow> 'e + byte list"
  and wire_write_elem :: "byte list \<Rightarrow> 'e wire_encoder \<Rightarrow> elem \<Rightarrow> 'e + byte list"
where
  "WireWrite resp w [] = Inr resp"
| "WireWrite resp w (FPtr None # fs) = WireWrite resp w fs"
| "WireWrite resp w (FPtr (Some e) # fs) =
     rbind (wire_write_elem resp w e) (\<lambda>resp'. WireWrite resp' w fs)"
| "WireWrite resp w (FVal e # fs) =
     rbind (wire_write_elem resp w e) (\<lambda>resp'. WireWrite resp' w fs)"
| "wire_write_elem resp w (EStruct fs) = WireWrite resp w fs"
| "wire_write_elem resp w (EString s) = WriteString w resp s"
| "wire_write_elem resp w (EBasic v) = Write w resp v"

text \<open>
  A reference serialisation, independent of the walk: the concatenation of the encodings of
  the fields that are present.
\<close>

fun wire_bytes :: "(go_string \<Rightarrow> byte list) \<Rightarrow> (basic \<Rightarrow> byte list) \<Rightarrow> field list \<Rightarrow> byte list"
  and elem_bytes :: "(go_string \<Rightarrow> byte list) \<Rightarrow> (basic \<Rightarrow> byte list) \<Rightarrow> elem \<Rightarrow> byte list"
where
  "wire_bytes sb bb [] = []"
| "wire_bytes sb bb (FPtr None # fs) = wire_bytes sb bb fs"
| "wire_bytes sb bb (FPtr (Some e) # fs) = elem_bytes sb bb e @ wire_bytes sb bb fs"
| "wire_bytes sb bb (FVal e # fs) = elem_bytes sb bb e @ wire_bytes sb bb fs"
| "elem_bytes sb bb (EStruct fs) = wire_bytes sb bb fs"
| "elem_bytes sb bb (EString s) = sb s"
| "elem_bytes sb bb (EBasic v) = bb v"

lemma wire_bytes_append [simp]:
  "wire_bytes sb bb (fs @ gs) = wire_bytes sb bb fs @ wire_bytes sb bb gs"
proof (induction fs)
  case (Cons f fs)
  then show ?case by (cases "(sb, bb, f # fs)" rule: wire_bytes.cases) auto
qed simp

text \<open>
  The leaves of a wire struct, in the order they are written, and the size of each.
\<close>

datatype leaf = LBasic basic | LString go_string

fun wire_leaves :: "field list \<Rightarrow> leaf list" and elem_leaves :: "elem \<Rightarrow> leaf list" where
  "wire_leaves [] = []"
| "wire_leaves (FPtr None # fs) = wire_leaves fs"
| "wire_leaves (FPtr (Some e) # fs) = elem_leaves e @ wire_leaves fs"
| "wire_leaves (FVal e # fs) = elem_leaves e @ wire_leaves fs"
| "elem_leaves (EStruct fs) = wire_leaves fs"
| "elem_leaves (EString s) = [LString s]"
| "elem_leaves (EBasic v) = [LBasic v]"

primrec leaf_bytes :: "(go_string \<Rightarrow> byte list) \<Rightarrow> (basic \<Rightarrow> byte list) \<Rightarrow> leaf \<Rightarrow> byte list" where
  "leaf_bytes sb bb (LBasic v) = bb v"
| "leaf_bytes sb bb (LString s) = sb s"

lemma wire_bytes_leaves:
    "wire_bytes sb bb fs = concat (map (leaf_bytes sb bb) (wire_leaves fs))"
  and elem_bytes_leaves: "elem_bytes sb bb e = concat (map (leaf_bytes sb bb) (elem_leaves e))"
  by (induction sb bb fs and sb bb e rule: wire_bytes_elem_bytes.induct) simp_all

text \<open>A reader for a sequence of leaves whose kinds are known.\<close>

datatype leaf_kind = KBasic basic_kind | KString

primrec kind_of_leaf :: "leaf \<Rightarrow> leaf_kind" where
  "kind_of_leaf (LBasic v) = KBasic (kind_of v)"
| "kind_of_leaf (LString s) = KString"

primrec read_leaf ::
  "(byte list \<Rightarrow> (go_string \<times> byte list) option) \<Rightarrow> byte_order \<Rightarrow> leaf_kind \<Rightarrow> byte list \<Rightarrow>
   (leaf \<times> byte list) option" where
  "read_leaf rs ord (KBasic k) r = map_option (\<lambda>(v, r'). (LBasic v, r')) (read_basic ord k r)"
| "read_leaf rs ord KString r = map_option (\<lambda>(s, r'). (LString s, r')) (rs r)"

primrec read_leaves ::
  "(byte list \<Rightarrow> (go_string \<times> byte list) option) \<Rightarrow> byte_order \<Rightarrow> leaf_kind list \<Rightarrow> byte list \<Rightarrow>
   (leaf list \<times> byte list) option" where
  "read_leaves rs ord [] r = Some ([], r)"
| "read_leaves rs ord (k # ks) r =
     Option.bind (read_leaf rs ord k r) (\<lambda>(l, r1).
       map_option (\<lambda>(ls, r2). (l # ls, r2)) (read_leaves rs ord ks r1))"

primrec leaf_ok :: "(go_string \<Rightarrow> bool) \<Rightarrow> leaf \<Rightarrow> bool" where
  "leaf_ok ok (LBasic v) = True"
| "leaf_ok ok (LString s) = ok s"

section \<open>The contract of a wire encoder\<close>

text \<open>
  What the serialiser needs of an encoder: each method appends a string of bytes that
  depends on the value only, and never fails. The client facts: \<open>WireWrite\<close> then never
  fails, and appends the reference serialisation.
\<close>

locale wire_encoder_laws =
  fixes enc :: "'e wire_encoder"
    and string_bytes :: "go_string \<Rightarrow> byte list"
    and basic_bytes :: "basic \<Rightarrow> byte list"
  assumes WriteString_appends: "WriteString enc resp s = Inr (resp @ string_bytes s)"
    and Write_appends: "Write enc resp v = Inr (resp @ basic_bytes v)"
begin

lemma WireWrite_appends_aux:
    "w = enc \<Longrightarrow> WireWrite resp w fs = Inr (resp @ wire_bytes string_bytes basic_bytes fs)"
  and wire_write_elem_appends_aux:
    "w = enc \<Longrightarrow> wire_write_elem resp w e = Inr (resp @ elem_bytes string_bytes basic_bytes e)"
  by (induction resp w fs and resp w e rule: WireWrite_wire_write_elem.induct)
     (simp_all add: WriteString_appends Write_appends)

lemma WireWrite_appends:
  "WireWrite resp enc fs = Inr (resp @ wire_bytes string_bytes basic_bytes fs)"
  by (rule WireWrite_appends_aux) (rule refl)

lemma WireWrite_split:
  "WireWrite resp enc (fs @ gs) = rbind (WireWrite resp enc fs) (\<lambda>r. WireWrite r enc gs)"
  by (simp add: WireWrite_appends)

end

text \<open>Once the contract is there, \<open>WireWrite\<close> is rewritten by it and not by its recursion.\<close>

declare WireWrite.simps [simp del]

text \<open>
  An encoder whose values can be read back: \<open>read_string\<close> is a reader for its strings and
  \<open>string_ok\<close> tells the strings the format can represent. The client fact is the round trip
  of \<open>WireWrite\<close>: the leaves of a struct are read back, whatever follows them.
\<close>

locale wire_codec = wire_encoder_laws enc string_bytes basic_bytes
  for enc :: "'e wire_encoder" and string_bytes and basic_bytes +
  fixes ord :: byte_order
    and read_string :: "byte list \<Rightarrow> (go_string \<times> byte list) option"
    and string_ok :: "go_string \<Rightarrow> bool"
  assumes read_string_bytes:
      "string_ok s \<Longrightarrow> read_string (string_bytes s @ rest) = Some (s, rest)"
    and basic_bytes_eq: "basic_bytes v = binary_bytes ord v"
begin

lemma read_leaves_bytes:
  "list_all (leaf_ok string_ok) ls \<Longrightarrow>
   read_leaves read_string ord (map kind_of_leaf ls)
     (concat (map (leaf_bytes string_bytes basic_bytes) ls) @ rest) = Some (ls, rest)"
proof (induction ls)
  case (Cons l ls)
  then show ?case
    by (cases l) (simp_all add: basic_bytes_eq read_basic_bytes read_string_bytes)
qed simp

lemma WireWrite_roundtrip:
  assumes "WireWrite resp enc fs = Inr out" and "list_all (leaf_ok string_ok) (wire_leaves fs)"
  shows "read_leaves read_string ord (map kind_of_leaf (wire_leaves fs)) (drop (length resp) out @ rest)
         = Some (wire_leaves fs, rest)"
  using assms read_leaves_bytes [OF assms(2)]
  by (auto simp: WireWrite_appends wire_bytes_leaves)

end

end
