(* ===== verification/Challenge_Contract.thy ===== *)
theory Challenge_Contract
  imports Go_Prelude
begin

text \<open>
  The abstract specification of challenge-response in the query protocols, and what the
  responders rely on when they call the challenge store.

  The specification is a ledger: the challenge value each client address can redeem, if
  any. A challenge is issued to an address, redeemed at most once, and may be forgotten at
  any time. The interface of \<open>QueryBase\<close> is the locale \<open>challenge_issuer\<close>: its operations act
  on the redeemable challenges as the ledger does.
\<close>

section \<open>The ledger\<close>

type_synonym ledger = "go_string \<rightharpoonup> uint32"

datatype ledger_op = Issue go_string uint32 | Redeem go_string uint32 | Forget go_string

datatype ledger_event = Issued go_string uint32 | Accepted go_string uint32 | Refused go_string

primrec ledger_step :: "ledger \<Rightarrow> ledger_op \<Rightarrow> ledger \<times> ledger_event list" where
  "ledger_step l (Issue a v) = (l(a \<mapsto> v), [Issued a v])"
| "ledger_step l (Redeem a c) =
     (l(a := None), [if l a = Some c then Accepted a c else Refused a])"
| "ledger_step l (Forget a) = (l(a := None), [])"

fun ledger_run :: "ledger \<Rightarrow> ledger_op list \<Rightarrow> ledger \<times> ledger_event list" where
  "ledger_run l [] = (l, [])"
| "ledger_run l (x # xs) =
     (case ledger_step l x of
        (l1, evs) \<Rightarrow> (case ledger_run l1 xs of (l2, evs') \<Rightarrow> (l2, evs @ evs')))"

text \<open>Reachability in the ledger, with the events it makes visible.\<close>

definition ledger_reach :: "ledger \<Rightarrow> ledger_event list \<Rightarrow> ledger \<Rightarrow> bool" where
  "ledger_reach l evs l' \<longleftrightarrow> (\<exists>ops. ledger_run l ops = (l', evs))"

lemma ledger_run_append:
  "ledger_run l xs = (l1, evs) \<Longrightarrow> ledger_run l1 ys = (l2, evs') \<Longrightarrow>
   ledger_run l (xs @ ys) = (l2, evs @ evs')"
  by (induction xs arbitrary: l evs) (auto split: prod.splits)

lemma ledger_reach_refl [intro]: "ledger_reach l [] l"
proof -
  have "ledger_run l [] = (l, [])" by simp
  then show ?thesis unfolding ledger_reach_def ..
qed

lemma ledger_reach_trans:
  "ledger_reach l evs l1 \<Longrightarrow> ledger_reach l1 evs' l2 \<Longrightarrow> ledger_reach l (evs @ evs') l2"
  unfolding ledger_reach_def by (blast intro: ledger_run_append)

lemma ledger_reach_step: "ledger_step l x = (l', evs) \<Longrightarrow> ledger_reach l evs l'"
proof -
  assume "ledger_step l x = (l', evs)"
  then have "ledger_run l [x] = (l', evs)" by simp
  then show ?thesis unfolding ledger_reach_def ..
qed

lemma ledger_reach_issue: "ledger_reach l [Issued a v] (l(a \<mapsto> v))"
  by (rule ledger_reach_step [where x = "Issue a v"]) simp

lemma ledger_reach_forget: "ledger_reach l [] (l(a := None))"
  by (rule ledger_reach_step [where x = "Forget a"]) simp

lemma ledger_reach_redeem:
  "ledger_reach l [if l a = Some c then Accepted a c else Refused a] (l(a := None))"
  by (rule ledger_reach_step [where x = "Redeem a c"]) simp

section \<open>Accounting\<close>

text \<open>
  Every acceptance uses up one issue: together with what is still redeemable, acceptances of
  a value from an address never outnumber its issues to that address.
\<close>

definition held :: "ledger \<Rightarrow> go_string \<Rightarrow> uint32 \<Rightarrow> nat" where
  "held l a v = (if l a = Some v then 1 else 0)"

lemma ledger_step_account:
  "ledger_step l x = (l', evs) \<Longrightarrow>
   count_list evs (Accepted a v) + held l' a v \<le> count_list evs (Issued a v) + held l a v"
  by (cases x) (auto simp: held_def split: if_splits)

lemma ledger_run_account:
  "ledger_run l xs = (l', evs) \<Longrightarrow>
   count_list evs (Accepted a v) + held l' a v \<le> count_list evs (Issued a v) + held l a v"
proof (induction xs arbitrary: l evs)
  case (Cons x xs)
  obtain l1 e1 where s: "ledger_step l x = (l1, e1)" by fastforce
  obtain l2 e2 where r: "ledger_run l1 xs = (l2, e2)" by fastforce
  from Cons.prems s r have eq: "l' = l2" "evs = e1 @ e2" by auto
  with ledger_step_account [OF s, of a v] Cons.IH [OF r [folded eq(1)]] show ?case by simp
qed simp

lemma ledger_reach_account:
  "ledger_reach l evs l' \<Longrightarrow>
   count_list evs (Accepted a v) + held l' a v \<le> count_list evs (Issued a v) + held l a v"
  unfolding ledger_reach_def using ledger_run_account by blast

lemma accepted_le_issued:
  assumes "ledger_reach Map.empty evs l'"
  shows "count_list evs (Accepted a v) \<le> count_list evs (Issued a v)"
  using ledger_reach_account [OF assms, of a v] by (simp add: held_def)

section \<open>The contract of the challenge store\<close>

locale challenge_issuer =
  fixes pending :: "'q \<Rightarrow> ledger"
    and gen :: "'env \<Rightarrow> go_string \<Rightarrow> 'q \<Rightarrow> 'q \<times> 'g \<times> ('e + uint32)"
    and mat :: "go_string \<Rightarrow> uint32 \<Rightarrow> 'q \<Rightarrow> 'q \<times> 'e option"
    and forget :: "go_string \<Rightarrow> 'q \<Rightarrow> 'q"
  assumes gen_ok: "gen env a q = (q', g, Inr v) \<Longrightarrow> pending q' = (pending q)(a \<mapsto> v)"
    and gen_err: "gen env a q = (q', g, Inl e) \<Longrightarrow> pending q' = pending q"
    and mat_pending: "mat a c q = (q', r) \<Longrightarrow> pending q' = (pending q)(a := None)"
    and mat_ok: "mat a c q = (q', r) \<Longrightarrow> r = None \<longleftrightarrow> pending q a = Some c"
    and forget_pending: "pending (forget a q) = (pending q)(a := None)"
begin

text \<open>Each operation is a step of the ledger.\<close>

lemma gen_reach:
  "gen env a q = (q', g, r) \<Longrightarrow>
   ledger_reach (pending q) (case r of Inl e \<Rightarrow> [] | Inr v \<Rightarrow> [Issued a v]) (pending q')"
  by (cases r) (auto dest!: gen_ok gen_err simp: ledger_reach_issue)

lemma mat_reach:
  "mat a c q = (q', r) \<Longrightarrow>
   ledger_reach (pending q) (case r of None \<Rightarrow> [Accepted a c] | Some e \<Rightarrow> [Refused a]) (pending q')"
  using ledger_reach_redeem [of "pending q" a c] mat_ok [of a c q q' r]
  by (auto dest!: mat_pending split: option.splits if_splits)

lemma forget_reach: "ledger_reach (pending q) [] (pending (forget a q))"
  by (simp add: forget_pending ledger_reach_forget)

text \<open>Redeeming is one-shot: whatever the first attempt's outcome, the second is refused.\<close>

lemma redeem_once:
  "mat a c q = (q1, r1) \<Longrightarrow> mat a d q1 = (q2, r2) \<Longrightarrow> r2 \<noteq> None"
  by (drule mat_pending, drule mat_ok) auto

text \<open>A newer challenge replaces the older one.\<close>

lemma issue_replaces:
  "gen env a q = (q1, g, Inr v) \<Longrightarrow> mat a c q1 = (q2, r) \<Longrightarrow> r = None \<longleftrightarrow> c = v"
  by (drule gen_ok, drule mat_ok) auto

text \<open>Operations on one address leave the others' challenges alone.\<close>

lemma gen_other: "gen env b q = (q', g, r) \<Longrightarrow> b \<noteq> a \<Longrightarrow> pending q' a = pending q a"
  by (cases r) (auto dest!: gen_ok gen_err)

lemma mat_other: "mat b c q = (q', r) \<Longrightarrow> b \<noteq> a \<Longrightarrow> pending q' a = pending q a"
  by (auto dest!: mat_pending)

end

end
