(* ===== verification/Proto_Base.thy ===== *)
theory Proto_Base
  imports Complex_Main "HOL-Library.Signed_Division" Proto_Wire Challenge_Contract
begin

text \<open>
  The package \<open>game-server-hosting/server/proto\<close>, file \<open>base.go\<close>: the challenge store that
  both query responders embed. A challenge is issued to a client address
  (\<open>GenerateChallenge\<close>), redeemed at most once (\<open>ChallengeMatchesForClient\<close>), and stale ones
  are removed by a goroutine (\<open>purgeStaleChallenges\<close>).

  The clock readings and the random bytes of a call are its inputs (\<open>gen_env\<close>). Times and
  durations are nanoseconds. The goroutine that a call starts is part of its result. The
  interleaving of that goroutine with later calls is the step relation \<open>base_step\<close>.
\<close>

section \<open>Errors of the query packages\<close>

datatype query_error =
    ErrChallengeMalformed
  | ErrChallengeMismatch
  | ErrNoChallenge
  | ErrRandom go_string
  | ErrRead read_error
  | ErrNotAnInfoRequest
  | UnsupportedQueryError "byte list"
  | ErrInvalidPacketLength
  | ErrUnsupportedQuery
  | UnsupportedSQPVersionError uint16

definition NewUnsupportedQueryError :: "byte list \<Rightarrow> query_error" where
  [simp]: "NewUnsupportedQueryError header = UnsupportedQueryError header"

definition NewUnsupportedSQPVersionError :: "uint16 \<Rightarrow> query_error" where
  [simp]: "NewUnsupportedSQPVersionError version = UnsupportedSQPVersionError version"

section \<open>Time\<close>

type_synonym time = int
type_synonym duration = int

definition Minute :: duration where
  "Minute = 60 * 10 ^ 9"

text \<open>\<open>t.Sub(u)\<close> saturates at the bounds of \<open>int64\<close>.\<close>

definition time_sub :: "time \<Rightarrow> time \<Rightarrow> duration" where
  "time_sub t u = max (- (2 ^ 63)) (min (2 ^ 63 - 1) (t - u))"

text \<open>\<open>Duration.Minutes()\<close>: whole minutes plus the rest, as a fraction (the float rounding
  keeps the sign, which is all the code looks at).\<close>

definition Minutes :: "duration \<Rightarrow> rat" where
  "Minutes d = of_int (d sdiv Minute) + of_int (d smod Minute) / (60 * 10 ^ 9)"

lemma Minutes_eq: "Minutes d = of_int d / (60 * 10 ^ 9)"
proof -
  have "d = d sdiv Minute * Minute + d smod Minute"
    by (simp add: sdiv_mult_smod_eq)
  then have "(of_int d :: rat) = of_int (d sdiv Minute) * of_int Minute + of_int (d smod Minute)"
    by (metis of_int_add of_int_mult)
  then show ?thesis by (simp add: Minutes_def Minute_def field_simps)
qed

lemma Minutes_positive [simp]: "0 < Minutes d \<longleftrightarrow> 0 < d"
  by (simp add: Minutes_eq zero_less_divide_iff)

section \<open>The challenge store\<close>

record challengeEntry =
  entryValue :: uint32
  expiryUTC :: time

text \<open>A \<open>sync.Map\<close> holds values of any type; the code asserts their type when it reads them.\<close>

datatype map_value = ChallengeEntry challengeEntry | OtherValue

type_synonym sync_map = "go_string \<rightharpoonup> map_value"

record query_base =
  challenges :: sync_map
  challengesLastPurgedUTC :: time

text \<open>The zero value of \<open>QueryBase\<close>: no entry, and the zero time (the year 1).\<close>

definition zero_time :: time where
  "zero_time = - 62135596800 * 10 ^ 9"

definition new_query_base :: query_base where
  "new_query_base = \<lparr>challenges = Map.empty, challengesLastPurgedUTC = zero_time\<rparr>"

record gen_env =
  sinceNow :: time
  purgedNow :: time
  epochNow :: time
  expiryNow :: time
  randRead :: "go_string + (byte \<times> byte \<times> byte \<times> byte)"

text \<open>
  The two halves of \<open>GenerateChallenge\<close>: the check that starts a purge goroutine, and the
  random draw with the store of the new entry.
\<close>

definition generate_purge :: "gen_env \<Rightarrow> query_base \<Rightarrow> query_base \<times> time option" where
  "generate_purge env q =
     (if 0 < Minutes (time_sub (sinceNow env) (challengesLastPurgedUTC q))
      then (q\<lparr>challengesLastPurgedUTC := purgedNow env\<rparr>, Some (epochNow env))
      else (q, None))"

definition generate_store ::
  "gen_env \<Rightarrow> go_string \<Rightarrow> query_base \<Rightarrow> query_base \<times> (query_error + uint32)" where
  "generate_store env clientAddress q =
     (case randRead env of
        Inl e \<Rightarrow> (q, Inl (ErrRandom e))
      | Inr (b0, b1, b2, b3) \<Rightarrow>
          (let v = be_get32 b0 b1 b2 b3;
               entry = \<lparr>entryValue = v, expiryUTC = expiryNow env + 1 * Minute\<rparr>
           in (q\<lparr>challenges := (challenges q)(clientAddress \<mapsto> ChallengeEntry entry)\<rparr>, Inr v)))"

definition GenerateChallenge ::
  "gen_env \<Rightarrow> go_string \<Rightarrow> query_base \<Rightarrow> query_base \<times> time option \<times> (query_error + uint32)" where
  "GenerateChallenge env clientAddress q =
     (case generate_purge env q of
        (q1, goroutine) \<Rightarrow>
          (case generate_store env clientAddress q1 of (q2, r) \<Rightarrow> (q2, goroutine, r)))"

definition ChallengeMatchesForClient ::
  "go_string \<Rightarrow> uint32 \<Rightarrow> query_base \<Rightarrow> query_base \<times> query_error option" where
  "ChallengeMatchesForClient clientAddress challenge q =
     (let q' = q\<lparr>challenges := (challenges q)(clientAddress := None)\<rparr>
      in case challenges q clientAddress of
           None \<Rightarrow> (q', Some ErrNoChallenge)
         | Some OtherValue \<Rightarrow> (q', Some ErrChallengeMalformed)
         | Some (ChallengeEntry e) \<Rightarrow>
             if challenge \<noteq> entryValue e then (q', Some ErrChallengeMismatch) else (q', None))"

text \<open>
  The callback of \<open>Range\<close>, and the whole purge when nothing else touches the map meanwhile:
  \<open>ks\<close> is the order in which \<open>Range\<close> visits the keys.
\<close>

definition stale :: "time \<Rightarrow> map_value option \<Rightarrow> bool" where
  "stale epoch v = (case v of Some (ChallengeEntry e) \<Rightarrow> epoch > expiryUTC e | _ \<Rightarrow> False)"

definition purge_visit :: "time \<Rightarrow> go_string \<Rightarrow> sync_map \<Rightarrow> sync_map" where
  "purge_visit epoch k m = (if stale epoch (m k) then m(k := None) else m)"

definition purgeStaleChallenges :: "time \<Rightarrow> go_string list \<Rightarrow> query_base \<Rightarrow> query_base" where
  "purgeStaleChallenges epoch ks q =
     q\<lparr>challenges := fold (purge_visit epoch) ks (challenges q)\<rparr>"

section \<open>Sequential facts\<close>

text \<open>What a client can redeem: the value stored for an address.\<close>

definition pending :: "query_base \<Rightarrow> go_string \<Rightarrow> uint32 option" where
  "pending q a = (case challenges q a of Some (ChallengeEntry e) \<Rightarrow> Some (entryValue e) | _ \<Rightarrow> None)"

definition well_typed :: "query_base \<Rightarrow> bool" where
  "well_typed q \<longleftrightarrow> OtherValue \<notin> ran (challenges q)"

named_theorems base_simps \<open>unfolding rules for the challenge store\<close>

lemma fold_purge_visit:
  "fold (purge_visit epoch) ks m k = (if k \<in> set ks \<and> stale epoch (m k) then None else m k)"
  by (induction ks arbitrary: m) (auto simp: purge_visit_def stale_def)

lemma purge_lookup:
  "dom (challenges q) \<subseteq> set ks \<Longrightarrow>
   challenges (purgeStaleChallenges epoch ks q) k =
     (if stale epoch (challenges q k) then None else challenges q k)"
  by (auto simp: purgeStaleChallenges_def fold_purge_visit stale_def split: option.splits)

lemmas generate_defs = GenerateChallenge_def generate_purge_def generate_store_def

lemma generate_purge_pending:
  "generate_purge env q = (q', g) \<Longrightarrow> challenges q' = challenges q"
  by (auto simp: generate_purge_def split: if_splits)

lemma generate_store_pending_ok:
  "generate_store env a q = (q', Inr v) \<Longrightarrow> pending q' = (pending q)(a \<mapsto> v)"
  by (auto simp: generate_store_def Let_def pending_def fun_eq_iff split: sum.splits)

lemma generate_store_pending_err: "generate_store env a q = (q', Inl e) \<Longrightarrow> q' = q"
  by (auto simp: generate_store_def Let_def split: sum.splits prod.splits)

lemma generate_pending_ok:
  "GenerateChallenge env a q = (q', g, Inr v) \<Longrightarrow> pending q' = (pending q)(a \<mapsto> v)"
  by (auto simp: generate_defs Let_def pending_def fun_eq_iff
      split: sum.splits prod.splits if_splits)

lemma generate_pending_err:
  "GenerateChallenge env a q = (q', g, Inl e) \<Longrightarrow> pending q' = pending q"
  by (auto simp: generate_defs Let_def pending_def fun_eq_iff
      split: sum.splits prod.splits if_splits)

lemma matches_pending:
  "ChallengeMatchesForClient a c q = (q', r) \<Longrightarrow> pending q' = (pending q)(a := None)"
  by (auto simp: ChallengeMatchesForClient_def Let_def pending_def fun_eq_iff
      split: option.splits map_value.splits if_splits)

lemma matches_ok_iff:
  "ChallengeMatchesForClient a c q = (q', r) \<Longrightarrow> r = None \<longleftrightarrow> pending q a = Some c"
  by (auto simp: ChallengeMatchesForClient_def Let_def pending_def
      split: option.splits map_value.splits if_splits)

text \<open>The delete step of the purge goroutine.\<close>

definition delete_challenge :: "go_string \<Rightarrow> query_base \<Rightarrow> query_base" where
  "delete_challenge k q = q\<lparr>challenges := (challenges q)(k := None)\<rparr>"

lemma delete_pending: "pending (delete_challenge k q) = (pending q)(k := None)"
  by (auto simp: delete_challenge_def pending_def fun_eq_iff)

lemma well_typed_new [base_simps]: "well_typed new_query_base"
  by (simp add: well_typed_def new_query_base_def)

lemma well_typed_generate:
  "well_typed q \<Longrightarrow> GenerateChallenge env a q = (q', g, r) \<Longrightarrow> well_typed q'"
  by (auto simp: well_typed_def generate_defs Let_def ran_def
      split: sum.splits if_splits prod.splits)

lemma well_typed_matches:
  "well_typed q \<Longrightarrow> ChallengeMatchesForClient a c q = (q', r) \<Longrightarrow> well_typed q'"
  by (auto simp: well_typed_def ChallengeMatchesForClient_def Let_def ran_def
      split: option.splits map_value.splits if_splits)

lemma well_typed_delete: "well_typed q \<Longrightarrow> well_typed (delete_challenge k q)"
  by (auto simp: well_typed_def delete_challenge_def ran_def)

lemma matches_not_malformed:
  "well_typed q \<Longrightarrow> snd (ChallengeMatchesForClient a c q) \<noteq> Some ErrChallengeMalformed"
  by (auto simp: well_typed_def ChallengeMatchesForClient_def Let_def ran_def
      split: option.splits map_value.splits)

section \<open>The store keeps the issuer contract\<close>

interpretation qb: challenge_issuer pending GenerateChallenge ChallengeMatchesForClient
    delete_challenge
  by unfold_locales
     (auto dest: generate_pending_ok generate_pending_err matches_pending
       simp: matches_ok_iff delete_pending)

section \<open>Interleaving with the purge goroutines\<close>

text \<open>
  Requests are handled one at a time, by one goroutine: it is idle, or inside
  \<open>GenerateChallenge\<close> between the purge check and the store. A purge goroutine ranges over a
  list of keys. For each key it loads the entry and, when the entry is stale, deletes
  whatever the key then holds: the two accesses are separate atomic operations of
  \<open>sync.Map\<close>, and steps of the request handler may come between them.
\<close>

datatype handler = Idle | Storing gen_env go_string

datatype purge_thread =
    Ranging time "go_string list"
  | Deleting time go_string "go_string list"

record base_sys =
  base :: query_base
  handler :: handler
  purgers :: "purge_thread list"

definition init_base_sys :: base_sys where
  "init_base_sys = \<lparr>base = new_query_base, handler = Idle, purgers = []\<rparr>"

inductive base_step :: "base_sys \<Rightarrow> ledger_event list \<Rightarrow> base_sys \<Rightarrow> bool" where
  enter:
    "handler s = Idle \<Longrightarrow> generate_purge env (base s) = (q', None) \<Longrightarrow>
     base_step s [] (s\<lparr>base := q', handler := Storing env a\<rparr>)"
| enter_spawn:
    "handler s = Idle \<Longrightarrow> generate_purge env (base s) = (q', Some epoch) \<Longrightarrow>
     distinct ks \<Longrightarrow> dom (challenges (base s)) \<subseteq> set ks \<Longrightarrow>
     base_step s []
       \<lparr>base = q', handler = Storing env a, purgers = purgers s @ [Ranging epoch ks]\<rparr>"
| store:
    "handler s = Storing env a \<Longrightarrow> generate_store env a (base s) = (q', r) \<Longrightarrow>
     base_step s (case r of Inl e \<Rightarrow> [] | Inr v \<Rightarrow> [Issued a v]) (s\<lparr>base := q', handler := Idle\<rparr>)"
| redeem:
    "handler s = Idle \<Longrightarrow> ChallengeMatchesForClient a c (base s) = (q', r) \<Longrightarrow>
     base_step s (case r of None \<Rightarrow> [Accepted a c] | Some e \<Rightarrow> [Refused a]) (s\<lparr>base := q'\<rparr>)"
| load_fresh:
    "i < length (purgers s) \<Longrightarrow> purgers s ! i = Ranging epoch (k # ks) \<Longrightarrow>
     \<not> stale epoch (challenges (base s) k) \<Longrightarrow>
     base_step s [] (s\<lparr>purgers := (purgers s)[i := Ranging epoch ks]\<rparr>)"
| load_stale:
    "i < length (purgers s) \<Longrightarrow> purgers s ! i = Ranging epoch (k # ks) \<Longrightarrow>
     stale epoch (challenges (base s) k) \<Longrightarrow>
     base_step s [] (s\<lparr>purgers := (purgers s)[i := Deleting epoch k ks]\<rparr>)"
| delete:
    "i < length (purgers s) \<Longrightarrow> purgers s ! i = Deleting epoch k ks \<Longrightarrow>
     base_step s []
       (s\<lparr>base := delete_challenge k (base s), purgers := (purgers s)[i := Ranging epoch ks]\<rparr>)"

inductive base_trace :: "base_sys \<Rightarrow> ledger_event list \<Rightarrow> base_sys \<Rightarrow> bool" where
  start: "base_trace s [] s"
| step: "base_trace s evs t \<Longrightarrow> base_step t evs' u \<Longrightarrow> base_trace s (evs @ evs') u"

text \<open>Refinement: every concurrent step is a run of the ledger on the redeemable challenges.\<close>

lemma generate_purge_keeps:
  "generate_purge env q = (q', g) \<Longrightarrow> pending q' = pending q"
  "generate_purge env q = (q', g) \<Longrightarrow> well_typed q' = well_typed q"
  by (simp_all add: generate_purge_pending pending_def well_typed_def fun_eq_iff)

lemma base_step_refines:
  "base_step s evs t \<Longrightarrow> ledger_reach (pending (base s)) evs (pending (base t))"
proof (induction rule: base_step.induct)
  case (enter s env q' a)
  then show ?case using generate_purge_keeps(1) [OF enter(2)] by auto
next
  case (enter_spawn s env q' epoch ks a)
  then show ?case using generate_purge_keeps(1) [OF enter_spawn(2)] by auto
next
  case (store s env a q' r)
  then show ?case
    by (cases r) (auto dest!: generate_store_pending_ok generate_store_pending_err
        simp: ledger_reach_issue simp del: fun_upd_apply)
next
  case (redeem s a c q' r)
  then show ?case by (simp add: qb.mat_reach)
next
  case (delete i s epoch k ks)
  then show ?case by (simp add: qb.forget_reach)
qed auto

lemma base_trace_refines:
  "base_trace s evs t \<Longrightarrow> ledger_reach (pending (base s)) evs (pending (base t))"
proof (induction rule: base_trace.induct)
  case (step s evs t evs' u)
  then show ?case using ledger_reach_trans base_step_refines by blast
qed (rule ledger_reach_refl)

lemma pending_new [base_simps]: "pending new_query_base = Map.empty"
  by (simp add: pending_def new_query_base_def fun_eq_iff)

text \<open>Every reachable store holds challenge entries only.\<close>

lemma base_step_well_typed: "base_step s evs t \<Longrightarrow> well_typed (base s) \<Longrightarrow> well_typed (base t)"
proof (induction rule: base_step.induct)
  case (enter s env q' a)
  then show ?case using generate_purge_keeps(2) [OF enter(2)] by simp
next
  case (enter_spawn s env q' epoch ks a)
  then show ?case using generate_purge_keeps(2) [OF enter_spawn(2)] by simp
next
  case (store s env a q' r)
  then show ?case
    by (auto simp: well_typed_def generate_store_def Let_def ran_def split: sum.splits if_splits)
next
  case (redeem s a c q' r)
  then show ?case by (simp add: well_typed_matches)
next
  case (delete i s epoch k ks)
  then show ?case by (simp add: well_typed_delete)
qed auto

lemma base_trace_well_typed: "base_trace s evs t \<Longrightarrow> well_typed (base s) \<Longrightarrow> well_typed (base t)"
  by (induction rule: base_trace.induct) (auto dest: base_step_well_typed)

section \<open>A run that exercises the store\<close>

text \<open>
  A concrete run for the witnesses: a client asks for a challenge at time 0 (which starts a
  purge of the empty map) and asks again two minutes later, when its first challenge is
  stale.
\<close>

definition sample_env :: "time \<Rightarrow> byte \<Rightarrow> gen_env" where
  "sample_env t b = \<lparr>sinceNow = t, purgedNow = t, epochNow = t, expiryNow = t,
     randRead = Inr (0, 0, 0, b)\<rparr>"

definition sample_entry :: "time \<Rightarrow> uint32 \<Rightarrow> map_value" where
  "sample_entry t v = ChallengeEntry \<lparr>entryValue = v, expiryUTC = t + Minute\<rparr>"

lemma sample_purge:
  "0 < time_sub t (challengesLastPurgedUTC q) \<Longrightarrow>
   generate_purge (sample_env t b) q = (q\<lparr>challengesLastPurgedUTC := t\<rparr>, Some t)"
  by (simp add: generate_purge_def sample_env_def)

lemma sample_store:
  "generate_store (sample_env t b) a q =
     (q\<lparr>challenges := (challenges q)(a \<mapsto> sample_entry t (be_get32 0 0 0 b))\<rparr>,
      Inr (be_get32 0 0 0 b))"
  by (simp add: generate_store_def sample_env_def sample_entry_def Let_def)

lemma be_get32_small: "be_get32 0 0 0 1 = 1" "be_get32 0 0 0 2 = 2"
  by (simp_all add: be_get32_def)

definition sample_sys1 :: "go_string \<Rightarrow> base_sys" where
  "sample_sys1 a = \<lparr>base = \<lparr>challenges = [a \<mapsto> sample_entry 0 1], challengesLastPurgedUTC = 0\<rparr>,
     handler = Idle, purgers = [Ranging 0 []]\<rparr>"

lemma sample_trace1: "base_trace init_base_sys [Issued a 1] (sample_sys1 a)"
proof -
  let ?q = "\<lparr>challenges = Map.empty, challengesLastPurgedUTC = 0\<rparr>"
  let ?s = "\<lparr>base = ?q, handler = Storing (sample_env 0 1) a, purgers = [Ranging 0 []]\<rparr>"
  have "generate_purge (sample_env 0 1) (base init_base_sys) = (?q, Some 0)"
    by (subst sample_purge)
       (simp_all add: init_base_sys_def new_query_base_def time_sub_def zero_time_def)
  then have "base_step init_base_sys []
      \<lparr>base = ?q, handler = Storing (sample_env 0 1) a, purgers = purgers init_base_sys @ [Ranging 0 []]\<rparr>"
    by (rule enter_spawn [rotated]) (simp_all add: init_base_sys_def new_query_base_def)
  then have "base_trace init_base_sys ([] @ []) ?s"
    by (intro base_trace.step [OF base_trace.start]) (simp add: init_base_sys_def)
  moreover have "base_step ?s [Issued a 1] (sample_sys1 a)"
    using base_step.store [of ?s "sample_env 0 1" a "base (sample_sys1 a)" "Inr 1"]
    by (simp add: sample_store be_get32_small sample_sys1_def)
  ultimately show ?thesis using base_trace.step by fastforce
qed

definition sample_sys2 :: "go_string \<Rightarrow> base_sys" where
  "sample_sys2 a = \<lparr>base = \<lparr>challenges = [a \<mapsto> sample_entry (2 * Minute) 2],
       challengesLastPurgedUTC = 2 * Minute\<rparr>,
     handler = Idle, purgers = [Ranging 0 [], Deleting (2 * Minute) a []]\<rparr>"

lemma sample_stale: "stale (2 * Minute) (Some (sample_entry 0 v))"
  by (simp add: stale_def sample_entry_def Minute_def)

text \<open>The second request: its own purge sees the stale entry before the new one is stored.\<close>

lemma sample_trace2: "base_trace (sample_sys1 a) [Issued a 2] (sample_sys2 a)"
proof -
  let ?e = "sample_env (2 * Minute) 2"
  let ?q = "\<lparr>challenges = [a \<mapsto> sample_entry 0 1], challengesLastPurgedUTC = 2 * Minute\<rparr>"
  let ?s = "\<lambda>p. \<lparr>base = ?q, handler = Storing ?e a, purgers = [Ranging 0 [], p]\<rparr>"
  have "generate_purge ?e (base (sample_sys1 a)) = (?q, Some (2 * Minute))"
    by (subst sample_purge) (simp_all add: sample_sys1_def time_sub_def Minute_def)
  from enter_spawn [OF _ this, of "[a]" a]
  have 1: "base_step (sample_sys1 a) [] (?s (Ranging (2 * Minute) [a]))"
    by (simp add: sample_sys1_def)
  have 2: "base_step (?s (Ranging (2 * Minute) [a])) [] (?s (Deleting (2 * Minute) a []))"
    using base_step.load_stale [of 1 "?s (Ranging (2 * Minute) [a])" "2 * Minute" a "[]"]
    by (simp add: sample_stale)
  have 3: "base_step (?s (Deleting (2 * Minute) a [])) [Issued a 2] (sample_sys2 a)"
    using base_step.store [of "?s (Deleting (2 * Minute) a [])" ?e a "base (sample_sys2 a)" "Inr 2"]
    by (simp add: sample_store be_get32_small sample_sys2_def)
  show ?thesis
    using base_trace.step [OF base_trace.step [OF base_trace.step [OF base_trace.start 1] 2] 3]
    by simp
qed

lemma sample_delete:
  "base_step (sample_sys2 a) []
     ((sample_sys2 a)\<lparr>base := delete_challenge a (base (sample_sys2 a)),
        purgers := [Ranging 0 [], Ranging (2 * Minute) []]\<rparr>)"
  using base_step.delete [of 1 "sample_sys2 a" "2 * Minute" a "[]"]
  by (simp add: sample_sys2_def)

lemma base_trace_append:
  "base_trace t evs' u \<Longrightarrow> base_trace s evs t \<Longrightarrow> base_trace s (evs @ evs') u"
proof (induction rule: base_trace.induct)
  case (step t evs1 u evs2 w)
  then show ?case using base_trace.step [of s "evs @ evs1" u evs2 w] by simp
qed simp

section \<open>Properties of the challenge store\<close>

text \<open>
  C1. In every interleaving of the request handler with any number of purge goroutines, a
  challenge value is accepted from a client address at most as often as it was issued to
  that address: no replay, no transfer between clients.
\<close>

theorem challenge_accepts_at_most_issued:
  assumes "base_trace init_base_sys evs t"
  shows "count_list evs (Accepted a v) \<le> count_list evs (Issued a v)"
proof (rule accepted_le_issued)
  show "ledger_reach Map.empty evs (pending (base t))"
    using base_trace_refines [OF assms] by (simp add: init_base_sys_def pending_new)
qed

theorem challenge_accepts_at_most_issued_witness:
  "\<exists>t. base_trace init_base_sys [Issued ''c'' 1, Accepted ''c'' 1] t \<and>
     count_list [Issued ''c'' 1, Accepted ''c'' 1] (Accepted ''c'' 1) \<le>
     count_list [Issued ''c'' 1, Accepted ''c'' 1] (Issued ''c'' 1)"
proof -
  let ?s = "sample_sys1 ''c''"
  let ?t = "?s\<lparr>base := fst (ChallengeMatchesForClient ''c'' 1 (base ?s))\<rparr>"
  have "base_step ?s [Accepted ''c'' 1] ?t"
    using base_step.redeem [of ?s "''c''" 1]
    by (simp add: sample_sys1_def ChallengeMatchesForClient_def Let_def sample_entry_def)
  then have "base_trace init_base_sys ([Issued ''c'' 1] @ [Accepted ''c'' 1]) ?t"
    by (rule base_trace.step [OF sample_trace1])
  then have "base_trace init_base_sys [Issued ''c'' 1, Accepted ''c'' 1] ?t" by simp
  from this challenge_accepts_at_most_issued [OF this] show ?thesis by blast
qed

text \<open>
  C35. The outcome of \<open>ChallengeMatchesForClient\<close> in every state the store can reach: the
  call succeeds exactly when the last challenge issued to the address is presented, whether
  or not it has expired; the error says whether there was none or another one; and in every
  case the address has no challenge afterwards and the other addresses keep theirs.
\<close>

theorem challenge_redeem_outcome:
  assumes "base_trace init_base_sys evs t"
  shows "snd (ChallengeMatchesForClient a c (base t)) =
           (case pending (base t) a of
              None \<Rightarrow> Some ErrNoChallenge
            | Some v \<Rightarrow> if c = v then None else Some ErrChallengeMismatch) \<and>
         pending (fst (ChallengeMatchesForClient a c (base t))) = (pending (base t))(a := None)"
proof
  have "well_typed (base init_base_sys)"
    by (simp add: init_base_sys_def well_typed_new)
  with assms have wt: "well_typed (base t)" by (rule base_trace_well_typed)
  then show "snd (ChallengeMatchesForClient a c (base t)) =
      (case pending (base t) a of None \<Rightarrow> Some ErrNoChallenge
       | Some v \<Rightarrow> if c = v then None else Some ErrChallengeMismatch)"
    using ranI [of "challenges (base t)" a OtherValue]
    by (auto simp: ChallengeMatchesForClient_def Let_def pending_def well_typed_def
        split: option.splits map_value.splits)
qed (rule matches_pending [OF prod.collapse [symmetric]])

theorem challenge_redeem_outcome_witness:
  "snd (ChallengeMatchesForClient ''c'' 7 (base (sample_sys1 ''c''))) = Some ErrChallengeMismatch"
proof -
  have "pending (base (sample_sys1 ''c'')) ''c'' = Some 1"
    by (simp add: pending_def sample_sys1_def sample_entry_def)
  then show ?thesis using challenge_redeem_outcome [OF sample_trace1] by simp
qed

text \<open>
  A purge that runs undisturbed removes exactly the entries whose expiry lies before the
  purge epoch, in whatever order (and however often) \<open>Range\<close> presents the keys.
\<close>

theorem purge_removes_exactly_stale:
  assumes "dom (challenges q) \<subseteq> set ks"
  shows "challenges (purgeStaleChallenges epoch ks q) =
    (\<lambda>k. case challenges q k of
           Some (ChallengeEntry e) \<Rightarrow>
             if expiryUTC e < epoch then None else Some (ChallengeEntry e)
         | v \<Rightarrow> v)"
  using assms
  by (auto simp: fun_eq_iff purge_lookup stale_def split: option.splits map_value.splits)

theorem purge_removes_exactly_stale_witness:
  "challenges (purgeStaleChallenges (2 * Minute) [''b'', ''a'']
     \<lparr>challenges = [''a'' \<mapsto> sample_entry 0 1, ''b'' \<mapsto> sample_entry (2 * Minute) 2],
      challengesLastPurgedUTC = 0\<rparr>) = [''b'' \<mapsto> sample_entry (2 * Minute) 2]"
  by (subst purge_removes_exactly_stale)
     (auto simp: fun_eq_iff sample_entry_def Minute_def)

text \<open>
  The purge goroutine can discard a live challenge. A client whose first challenge has
  expired asks for another: there is a reachable state in which the new challenge is stored,
  its expiry lies after the epoch of every purge in flight, and one step of a purge goroutine
  later the client is told that it has no challenge.
\<close>

theorem purge_can_discard_fresh_challenge:
  "\<exists>s t e. base_trace init_base_sys [Issued a 1, Issued a 2] s \<and>
     challenges (base s) a = Some (ChallengeEntry e) \<and> entryValue e = 2 \<and>
     purgers s = [Ranging 0 [], Deleting (2 * Minute) a []] \<and> expiryUTC e = 3 * Minute \<and>
     base_step s [] t \<and>
     snd (ChallengeMatchesForClient a 2 (base t)) = Some ErrNoChallenge"
proof -
  have "base_trace init_base_sys ([Issued a 1] @ [Issued a 2]) (sample_sys2 a)"
    by (rule base_trace_append [OF sample_trace2 sample_trace1])
  with sample_delete [of a] show ?thesis
    by (intro exI conjI)
       (auto simp: sample_sys2_def sample_entry_def delete_challenge_def
         ChallengeMatchesForClient_def Let_def)
qed

text \<open>
  A purge is started by every challenge request that reads a clock later than the last
  purge, however little later: the expression \<open>Minutes() > 0\<close> is not a whole-minute delay.
\<close>

theorem purge_started_iff_clock_advanced:
  "fst (snd (GenerateChallenge env a q)) =
     (if challengesLastPurgedUTC q < sinceNow env then Some (epochNow env) else None)"
  by (auto simp: generate_defs time_sub_def split: prod.splits)

end
