(* ===== verification/Go_Json.thy ===== *)
theory Go_Json
  imports Go_Strconv Proto_Base
begin

text \<open>
  The rules of \<open>encoding/json\<close> that the SDK depends on, apart from the scanning of JSON text:
  which number literals are valid, how a member name selects a struct field, and how a value is
  stored in a field of each Go type that occurs (\<open>int64\<close>, \<open>bool\<close>, \<open>string\<close>, \<open>*string\<close>,
  \<open>time.Time\<close>, \<open>map[string]float64\<close>). An object keeps its members in document order,
  duplicates included.
\<close>

section \<open>JSON values\<close>

datatype json =
    JNull
  | JBool bool
  | JNumber go_string
  | JString go_string
  | JArray "json list"
  | JObject "(go_string \<times> json) list"

text \<open>The literals that \<open>json.Number\<close> accepts from a quoted string (\<open>isValidNumber\<close>).\<close>

definition is_digit :: "char \<Rightarrow> bool" where
  "is_digit c \<longleftrightarrow> digit_value c \<noteq> None"

definition skip_digits :: "go_string \<Rightarrow> go_string" where
  "skip_digits s = dropWhile is_digit s"

definition valid_exponent :: "go_string \<Rightarrow> bool" where
  "valid_exponent s =
     (case s of
        [] \<Rightarrow> True
      | e # r \<Rightarrow>
          (e = CHR ''e'' \<or> e = CHR ''E'') \<and>
          (let r1 = (case r of [] \<Rightarrow> [] | c # cs \<Rightarrow> if c = CHR ''+'' \<or> c = CHR ''-'' then cs else r)
           in r1 \<noteq> [] \<and> skip_digits r1 = []))"

definition valid_fraction :: "go_string \<Rightarrow> bool" where
  "valid_fraction s =
     (case s of
        c # d # r \<Rightarrow> if c = CHR ''.'' \<and> is_digit d then valid_exponent (skip_digits r)
                      else valid_exponent s
      | _ \<Rightarrow> valid_exponent s)"

definition is_valid_number :: "go_string \<Rightarrow> bool" where
  "is_valid_number s =
     (let s1 = (case s of [] \<Rightarrow> [] | c # cs \<Rightarrow> if c = CHR ''-'' then cs else s)
      in case s1 of
           [] \<Rightarrow> False
         | c # cs \<Rightarrow>
             if c = CHR ''0'' then valid_fraction cs
             else if is_digit c then valid_fraction (skip_digits cs)
             else False)"

section \<open>Selecting a field\<close>

text \<open>
  Names are compared up to the case of ASCII letters, with the two non-ASCII folds of \<open>k\<close> and
  \<open>s\<close>: the Kelvin sign and the long s.
\<close>

definition ascii_lower :: "char \<Rightarrow> char" where
  "ascii_lower c =
     (let n = of_char c :: nat in if 65 \<le> n \<and> n \<le> 90 then char_of (n + 32) else c)"

fun fold_equal :: "go_string \<Rightarrow> go_string \<Rightarrow> bool" where
  "fold_equal [] key = (key = [])"
| "fold_equal (n # ns) key =
     (case key of
        [] \<Rightarrow> False
      | k # ks \<Rightarrow>
          if ascii_lower k = ascii_lower n then fold_equal ns ks
          else if ascii_lower n = CHR ''s'' \<and> take 2 key = [CHR 0xC5, CHR 0xBF]
          then fold_equal ns (drop 2 key)
          else if ascii_lower n = CHR ''k'' \<and> take 3 key = [CHR 0xE2, CHR 0x84, CHR 0xAA]
          then fold_equal ns (drop 3 key)
          else False)"

section \<open>Decoding an object into a struct\<close>

text \<open>
  The parsing of an RFC 3339 time and the range check of a \<open>float64\<close> literal are parameters:
  \<open>parse_time\<close> and \<open>float_ok\<close>. A float is kept as its literal.
\<close>

record json_lib =
  parse_time :: "go_string \<Rightarrow> time option"
  float_ok :: "go_string \<Rightarrow> bool"

text \<open>A library for sample runs: no time parses, every float literal is in range.\<close>

definition sample_json_lib :: json_lib where
  "sample_json_lib = \<lparr>parse_time = (\<lambda>s. None), float_ok = (\<lambda>s. True)\<rparr>"

datatype json_kind = JK_int64 | JK_bool | JK_string | JK_string_ptr | JK_time | JK_float_map

datatype json_val =
    JV_int int
  | JV_bool bool
  | JV_string go_string
  | JV_string_ptr "go_string option"
  | JV_time time
  | JV_float_map "(go_string \<times> go_string) list"

text \<open>The content of a field of a known type.\<close>

fun jv_int :: "json_val \<Rightarrow> int" where
  "jv_int (JV_int i) = i" | "jv_int _ = 0"

fun jv_bool :: "json_val \<Rightarrow> bool" where
  "jv_bool (JV_bool b) = b" | "jv_bool _ = False"

fun jv_string :: "json_val \<Rightarrow> go_string" where
  "jv_string (JV_string s) = s" | "jv_string _ = []"

fun jv_string_ptr :: "json_val \<Rightarrow> go_string option" where
  "jv_string_ptr (JV_string_ptr p) = p" | "jv_string_ptr _ = None"

fun jv_time :: "json_val \<Rightarrow> time" where
  "jv_time (JV_time t) = t" | "jv_time _ = zero_time"

fun jv_float_map :: "json_val \<Rightarrow> (go_string \<times> go_string) list" where
  "jv_float_map (JV_float_map m) = m" | "jv_float_map _ = []"

text \<open>
  Storing a value: the new content, and an error. A type error is remembered and decoding goes
  on; the error of an \<open>UnmarshalJSON\<close> method (a malformed time) stops it. An object stored in a
  map adds its members to those the map has, the last one of a name counts; \<open>null\<close> empties the map.
\<close>

datatype json_error = JsonType go_string | JsonTime go_string | JsonSyntax go_string

fun store_floats :: "json_lib \<Rightarrow> (go_string \<times> json) list \<Rightarrow> json_error option \<times> (go_string \<times> go_string) list" where
  "store_floats lib [] = (None, [])"
| "store_floats lib ((k, v) # ms) =
     (case v of
        JNumber n \<Rightarrow>
          if float_ok lib n then map_prod id (Cons (k, n)) (store_floats lib ms)
          else (Some (JsonType k), [])
      | JNull \<Rightarrow> map_prod id (Cons (k, ''0'')) (store_floats lib ms)
      | _ \<Rightarrow> (Some (JsonType k), []))"

definition store_json :: "json_lib \<Rightarrow> json_kind \<Rightarrow> json \<Rightarrow> json_val \<Rightarrow> json_error option \<times> json_val" where
  "store_json lib kind v old =
     (case kind of
        JK_int64 \<Rightarrow>
          (case v of
             JNull \<Rightarrow> (None, old)
           | JNumber n \<Rightarrow>
               (case parse_int64 n of
                  (i, None) \<Rightarrow> (None, JV_int i)
                | (i, Some e) \<Rightarrow> (Some (JsonType n), old))
           | _ \<Rightarrow> (Some (JsonType ''int64''), old))
      | JK_bool \<Rightarrow>
          (case v of
             JNull \<Rightarrow> (None, old)
           | JBool b \<Rightarrow> (None, JV_bool b)
           | _ \<Rightarrow> (Some (JsonType ''bool''), old))
      | JK_string \<Rightarrow>
          (case v of
             JNull \<Rightarrow> (None, old)
           | JString s \<Rightarrow> (None, JV_string s)
           | _ \<Rightarrow> (Some (JsonType ''string''), old))
      | JK_string_ptr \<Rightarrow>
          (case v of
             JNull \<Rightarrow> (None, JV_string_ptr None)
           | JString s \<Rightarrow> (None, JV_string_ptr (Some s))
           | _ \<Rightarrow> (Some (JsonType ''string''), old))
      | JK_time \<Rightarrow>
          (case v of
             JNull \<Rightarrow> (None, old)
           | JString s \<Rightarrow>
               (case parse_time lib s of
                  None \<Rightarrow> (Some (JsonTime s), old)
                | Some t \<Rightarrow> (None, JV_time t))
           | _ \<Rightarrow> (Some (JsonTime ''input is not a JSON string''), old))
      | JK_float_map \<Rightarrow>
          (case v of
             JNull \<Rightarrow> (None, JV_float_map [])
           | JObject ms \<Rightarrow>
               (case store_floats lib ms of
                  (None, fs) \<Rightarrow> (None, JV_float_map (jv_float_map old @ fs))
                | (Some e, fs) \<Rightarrow> (Some e, old))
           | _ \<Rightarrow> (Some (JsonType ''map''), old)))"

type_synonym json_struct = "(go_string \<times> json_kind) list"

text \<open>The position of the field a member name selects.\<close>

fun find_index :: "('a \<Rightarrow> bool) \<Rightarrow> 'a list \<Rightarrow> nat option" where
  "find_index P [] = None"
| "find_index P (x # xs) = (if P x then Some 0 else map_option Suc (find_index P xs))"

definition select_field :: "json_struct \<Rightarrow> go_string \<Rightarrow> nat option" where
  "select_field spec key =
     (case find_index (\<lambda>f. fst f = key) spec of
        Some i \<Rightarrow> Some i
      | None \<Rightarrow> find_index (\<lambda>f. fold_equal (fst f) key) spec)"

fun decode_fields ::
  "json_lib \<Rightarrow> json_struct \<Rightarrow> (go_string \<times> json) list \<Rightarrow> json_error option \<Rightarrow> json_val list \<Rightarrow>
   json_error + json_val list" where
  "decode_fields lib spec [] err vals = (case err of None \<Rightarrow> Inr vals | Some e \<Rightarrow> Inl e)"
| "decode_fields lib spec ((k, v) # ms) err vals =
     (case select_field spec k of
        None \<Rightarrow> decode_fields lib spec ms err vals
      | Some i \<Rightarrow>
          (case store_json lib (snd (spec ! i)) v (vals ! i) of
             (None, val) \<Rightarrow> decode_fields lib spec ms err (vals[i := val])
           | (Some (JsonTime e), _) \<Rightarrow> Inl (JsonTime e)
           | (Some e, _) \<Rightarrow>
               decode_fields lib spec ms (case err of None \<Rightarrow> Some e | Some e' \<Rightarrow> Some e') vals))"

primrec zero_json :: "json_kind \<Rightarrow> json_val" where
  "zero_json JK_int64 = JV_int 0"
| "zero_json JK_bool = JV_bool False"
| "zero_json JK_string = JV_string []"
| "zero_json JK_string_ptr = JV_string_ptr None"
| "zero_json JK_time = JV_time zero_time"
| "zero_json JK_float_map = JV_float_map []"

text \<open>
  \<open>Decode(&p)\<close> and \<open>Unmarshal(data, &p)\<close> for a nil pointer \<open>p\<close> to a struct: \<open>null\<close> leaves it nil.
\<close>

definition decode_struct :: "json_lib \<Rightarrow> json_struct \<Rightarrow> json \<Rightarrow> json_error + json_val list option" where
  "decode_struct lib spec v =
     (case v of
        JNull \<Rightarrow> Inr None
      | JObject ms \<Rightarrow>
          rbind (decode_fields lib spec ms None (map (zero_json \<circ> snd) spec)) (\<lambda>vals. Inr (Some vals))
      | _ \<Rightarrow> Inl (JsonType ''struct''))"

end
