(* ===== verification/Gsh_Errors.thy ===== *)
theory Gsh_Errors
  imports Go_Json
begin

text \<open>
  The errors that flow through the server's error channel and out of its methods. A wrapped
  error, \<open>fmt.Errorf("...: %w", err)\<close>, is a constructor that holds the error it wraps.
\<close>

text \<open>Loading the configuration file (\<open>config.go\<close>).\<close>

datatype config_error =
    OpenFile go_string
  | SeekError go_string
  | DecodeEOF
  | DecodeUnexpectedEOF
  | DecodeSyntax go_string
  | DecodeType go_string
  | DecodeNumber go_string

text \<open>The UDP endpoint (\<open>bind.go\<close>).\<close>

datatype net_error =
    BindingClosed
  | NetTimeout
  | NetError go_string
  | SetReadDeadline go_string
  | SetWriteDeadline go_string
  | ResolveAddress go_string
  | Listen go_string
  | SetReadBuffer go_string
  | SetWriteBuffer go_string

text \<open>The local proxy client (\<open>internal/localproxy\<close>).\<close>

datatype proxy_error =
    CreatingRequest go_string
  | MakingRequest go_string
  | UnexpectedResponseError go_string int go_string
  | DecodingResponse json_error

text \<open>The backfill loop (\<open>matchmaker/server\<close>).\<close>

datatype backfill_error =
    ErrTokenFetch
  | ErrRetry
  | ErrBackfillApprove
  | ErrBackfillNotAllocated
  | HttpError go_string
  | ErrMakingRequest go_string
  | ReadBody go_string
  | TokenJson json_error
  | DecodingTicket json_error

datatype gsh_error =
    HomeDir go_string
  | ErrOperationNotApplicable
  | ErrNilContext
  | ErrNilArgs
  | ErrMetricsUnsupported
  | ErrMetricOutOfBounds
  | ErrNotAllocated
  | ErrUnsupportedQueryType
  | ConfigError config_error
  | CreateLogDir go_string
  | BindError net_error
  | QueryReadError net_error
  | QueryRespondError query_error
  | QueryWriteError net_error
  | ParseConfigError config_error
  | WatchError go_string
  | ParseServerID num_error
  | ProxySetup go_string
  | EventWatcherError gsh_error
  | UnmarshalEvent json_error
  | SubscribeError go_string
  | ProxyError proxy_error
  | ApprovingBackfill backfill_error

end
