(* ===== verification/Gsh_Config.thy ===== *)
theory Gsh_Config
  imports Gsh_Errors
begin

text \<open>
  The file \<open>game-server-hosting/server/config.go\<close>: the configuration record and its loading
  from \<open>server.json\<close>, with the rules of \<open>encoding/json\<close> that the loading depends on: how an
  object is decoded into the tagged struct \<open>Config\<close> and into \<open>map[string]string\<close>.

  The model starts from the outcome of opening the file and scanning its first JSON value
  (\<open>file_content\<close>): an open error, an empty file (\<open>io.EOF\<close>), a truncated or malformed text, or
  the value as a tree, in a file that can be read again from its beginning or one that cannot. An object keeps its members in document order, duplicates included.
\<close>

section \<open>The configuration record\<close>

type_synonym QueryProtocol = go_string

definition QueryProtocolA2S :: QueryProtocol where "QueryProtocolA2S = ''a2s''"
definition QueryProtocolSQP :: QueryProtocol where "QueryProtocolSQP = ''sqp''"

text \<open>The third constant of the block repeats the expression of the second.\<close>

definition QueryProtocolRecommended :: QueryProtocol where "QueryProtocolRecommended = ''sqp''"

record config =
  AllocatedUUID :: go_string
  FleetID :: go_string
  IP :: go_string
  IPv6 :: go_string
  LocalProxyURL :: go_string
  MachineID :: go_string
  GamePort :: go_string
  QueryPort :: go_string
  QueryType :: QueryProtocol
  RegionID :: go_string
  RegionName :: go_string
  ServerID :: go_string
  ServerLogDir :: go_string
  Extra :: "go_string \<rightharpoonup> go_string"

definition zero_config :: config where
  "zero_config = \<lparr>AllocatedUUID = [], FleetID = [], IP = [], IPv6 = [], LocalProxyURL = [],
     MachineID = [], GamePort = [], QueryPort = [], QueryType = [], RegionID = [],
     RegionName = [], ServerID = [], ServerLogDir = [], Extra = Map.empty\<rparr>"

text \<open>
  The tagged fields in declaration order. The type of a field decides what it accepts: a
  string, or a \<open>json.Number\<close>.
\<close>

datatype config_field =
    F_allocatedUUID | F_fleetID | F_ip | F_ipv6 | F_localProxyUrl | F_machineID | F_port
  | F_queryPort | F_queryType | F_regionID | F_regionName | F_serverID | F_serverLogDir

definition config_fields :: "config_field list" where
  "config_fields = [F_allocatedUUID, F_fleetID, F_ip, F_ipv6, F_localProxyUrl, F_machineID, F_port,
     F_queryPort, F_queryType, F_regionID, F_regionName, F_serverID, F_serverLogDir]"

fun field_tag :: "config_field \<Rightarrow> go_string" where
  "field_tag F_allocatedUUID = ''allocatedUUID''"
| "field_tag F_fleetID = ''fleetID''"
| "field_tag F_ip = ''ip''"
| "field_tag F_ipv6 = ''ipv6''"
| "field_tag F_localProxyUrl = ''localProxyUrl''"
| "field_tag F_machineID = ''machineID''"
| "field_tag F_port = ''port''"
| "field_tag F_queryPort = ''queryPort''"
| "field_tag F_queryType = ''queryType''"
| "field_tag F_regionID = ''regionID''"
| "field_tag F_regionName = ''regionName''"
| "field_tag F_serverID = ''serverID''"
| "field_tag F_serverLogDir = ''serverLogDir''"

definition is_number_field :: "config_field \<Rightarrow> bool" where
  "is_number_field f \<longleftrightarrow> f \<in> {F_machineID, F_port, F_queryPort, F_serverID}"

fun set_field :: "config_field \<Rightarrow> go_string \<Rightarrow> config \<Rightarrow> config" where
  "set_field F_allocatedUUID v c = c\<lparr>AllocatedUUID := v\<rparr>"
| "set_field F_fleetID v c = c\<lparr>FleetID := v\<rparr>"
| "set_field F_ip v c = c\<lparr>IP := v\<rparr>"
| "set_field F_ipv6 v c = c\<lparr>IPv6 := v\<rparr>"
| "set_field F_localProxyUrl v c = c\<lparr>LocalProxyURL := v\<rparr>"
| "set_field F_machineID v c = c\<lparr>MachineID := v\<rparr>"
| "set_field F_port v c = c\<lparr>GamePort := v\<rparr>"
| "set_field F_queryPort v c = c\<lparr>QueryPort := v\<rparr>"
| "set_field F_queryType v c = c\<lparr>QueryType := v\<rparr>"
| "set_field F_regionID v c = c\<lparr>RegionID := v\<rparr>"
| "set_field F_regionName v c = c\<lparr>RegionName := v\<rparr>"
| "set_field F_serverID v c = c\<lparr>ServerID := v\<rparr>"
| "set_field F_serverLogDir v c = c\<lparr>ServerLogDir := v\<rparr>"

section \<open>Decoding into the struct\<close>

text \<open>
  A member name selects the field with exactly that tag, or else the first one that is equal
  to it up to case.
\<close>

definition field_for :: "go_string \<Rightarrow> config_field option" where
  "field_for key =
     (case find (\<lambda>f. field_tag f = key) config_fields of
        Some f \<Rightarrow> Some f
      | None \<Rightarrow> find (\<lambda>f. fold_equal (field_tag f) key) config_fields)"

text \<open>
  Storing a literal. \<open>null\<close> leaves the field as it is. A value of the wrong type is
  remembered (the first one is the result of \<open>Decode\<close>) and decoding goes on; an invalid
  quoted number stops it.
\<close>

definition store_literal ::
  "config_field \<Rightarrow> json \<Rightarrow> config \<Rightarrow> config_error + (config \<times> config_error option)" where
  "store_literal f v c =
     (case v of
        JNull \<Rightarrow> Inr (c, None)
      | JString s \<Rightarrow>
          if is_number_field f \<and> \<not> is_valid_number s then Inl (DecodeNumber s)
          else Inr (set_field f s c, None)
      | JNumber n \<Rightarrow>
          if is_number_field f then Inr (set_field f n c, None)
          else Inr (c, Some (DecodeType (field_tag f)))
      | _ \<Rightarrow> Inr (c, Some (DecodeType (field_tag f))))"

definition first_error :: "config_error option \<Rightarrow> config_error option \<Rightarrow> config_error option" where
  "first_error e1 e2 = (case e1 of None \<Rightarrow> e2 | Some e \<Rightarrow> Some e)"

fun decode_members ::
  "(go_string \<times> json) list \<Rightarrow> config \<Rightarrow> config_error option \<Rightarrow>
   config_error + (config \<times> config_error option)" where
  "decode_members [] c err = Inr (c, err)"
| "decode_members ((k, v) # ms) c err =
     (case field_for k of
        None \<Rightarrow> decode_members ms c err
      | Some f \<Rightarrow>
          (case store_literal f v c of
             Inl e \<Rightarrow> Inl e
           | Inr (c', e) \<Rightarrow> decode_members ms c' (first_error err e)))"

text \<open>
  \<open>Decode(&cfg)\<close> for \<open>var cfg *Config\<close>: \<open>null\<close> leaves the pointer nil, an object allocates the
  struct, anything else is a type error.
\<close>

definition decode_config :: "json \<Rightarrow> config_error + config option" where
  "decode_config v =
     (case v of
        JNull \<Rightarrow> Inr None
      | JObject ms \<Rightarrow>
          rbind (decode_members ms zero_config None) (\<lambda>(c, err).
            case err of None \<Rightarrow> Inr (Some c) | Some e \<Rightarrow> Inl e)
      | _ \<Rightarrow> Inl (DecodeType ''config''))"

section \<open>Decoding into map[string]string\<close>

fun decode_extra_members ::
  "(go_string \<times> json) list \<Rightarrow> (go_string \<rightharpoonup> go_string) \<Rightarrow> config_error option \<Rightarrow>
   (go_string \<rightharpoonup> go_string) \<times> config_error option" where
  "decode_extra_members [] m err = (m, err)"
| "decode_extra_members ((k, v) # ms) m err =
     (case v of
        JString s \<Rightarrow> decode_extra_members ms (m(k \<mapsto> s)) err
      | JNull \<Rightarrow> decode_extra_members ms (m(k \<mapsto> [])) err
      | _ \<Rightarrow> decode_extra_members ms (m(k \<mapsto> [])) (first_error err (Some (DecodeType k))))"

definition decode_extra :: "json \<Rightarrow> config_error + (go_string \<rightharpoonup> go_string)" where
  "decode_extra v =
     (case v of
        JNull \<Rightarrow> Inr Map.empty
      | JObject ms \<Rightarrow>
          (case decode_extra_members ms Map.empty None of
             (m, None) \<Rightarrow> Inr m
           | (m, Some e) \<Rightarrow> Inl e)
      | _ \<Rightarrow> Inl (DecodeType ''extra''))"

section \<open>newConfigFromFile\<close>

datatype file_content =
    CannotOpen go_string
  | EmptyFile
  | TruncatedFile
  | MalformedFile go_string
  | FileValue json
  | UnseekableFile go_string json

definition scan_file :: "file_content \<Rightarrow> config_error + json" where
  "scan_file f =
     (case f of
        CannotOpen e \<Rightarrow> Inl (OpenFile e)
      | EmptyFile \<Rightarrow> Inl DecodeEOF
      | TruncatedFile \<Rightarrow> Inl DecodeUnexpectedEOF
      | MalformedFile e \<Rightarrow> Inl (DecodeSyntax e)
      | FileValue v \<Rightarrow> Inr v
      | UnseekableFile e v \<Rightarrow> Inr v)"

text \<open>\<open>f.Seek(0, 0)\<close>\<close>

definition seek_file :: "file_content \<Rightarrow> config_error option" where
  "seek_file f = (case f of UnseekableFile e v \<Rightarrow> Some (SeekError e) | _ \<Rightarrow> None)"

text \<open>
  The tags of all fields of \<open>Config\<close>, the last one being the tag \<open>-\<close> of \<open>Extra\<close> itself: the
  loop over the fields deletes each of them from \<open>Extra\<close>.
\<close>

definition all_tags :: "go_string list" where
  "all_tags = map field_tag config_fields @ [''-'']"

definition remove_decoded :: "(go_string \<rightharpoonup> go_string) \<Rightarrow> (go_string \<rightharpoonup> go_string)" where
  "remove_decoded m = fold (\<lambda>t m. m(t := None)) all_tags m"

definition newConfigFromFile :: "file_content \<Rightarrow> (config_error + config) outcome" where
  "newConfigFromFile f =
     (case rbind (scan_file f) decode_config of
        Inl e \<Rightarrow> Return (Inl e)
      | Inr decoded \<Rightarrow>
          (case (seek_file f, decoded) of
             (Some e, _) \<Rightarrow> Return (Inl e)
           | (None, None) \<Rightarrow> Panic NilDereference
           | (None, Some cfg) \<Rightarrow>
               Return (rbind (rbind (scan_file f) decode_extra) (\<lambda>extra.
                 let cfg = cfg\<lparr>Extra := remove_decoded extra\<rparr>;
                     cfg = (if QueryType cfg = [] then cfg\<lparr>QueryType := QueryProtocolRecommended\<rparr> else cfg);
                     cfg = (if LocalProxyURL cfg = [] then cfg\<lparr>LocalProxyURL := ''http://localhost:8086''\<rparr>
                            else cfg)
                 in Inr cfg))))"


section \<open>What a configuration file means\<close>

primrec get_field :: "config_field \<Rightarrow> config \<Rightarrow> go_string" where
  "get_field F_allocatedUUID c = AllocatedUUID c"
| "get_field F_fleetID c = FleetID c"
| "get_field F_ip c = IP c"
| "get_field F_ipv6 c = IPv6 c"
| "get_field F_localProxyUrl c = LocalProxyURL c"
| "get_field F_machineID c = MachineID c"
| "get_field F_port c = GamePort c"
| "get_field F_queryPort c = QueryPort c"
| "get_field F_queryType c = QueryType c"
| "get_field F_regionID c = RegionID c"
| "get_field F_regionName c = RegionName c"
| "get_field F_serverID c = ServerID c"
| "get_field F_serverLogDir c = ServerLogDir c"

lemma get_set_field [simp]: "get_field f (set_field g v c) = (if f = g then v else get_field f c)"
  by (cases g; cases f) simp_all

lemma set_field_Extra [simp]: "Extra (set_field f v c) = Extra c"
  by (cases f) simp_all

lemma get_zero_field [simp]: "get_field f zero_config = []"
  by (cases f) (simp_all add: zero_config_def)

text \<open>
  A member can be loaded when it is \<open>null\<close> or a string, and a valid number literal if its name
  selects a number field.
\<close>

definition member_ok :: "go_string \<times> json \<Rightarrow> bool" where
  "member_ok m =
     (case snd m of
        JNull \<Rightarrow> True
      | JString s \<Rightarrow>
          (case field_for (fst m) of
             None \<Rightarrow> True
           | Some f \<Rightarrow> is_number_field f \<longrightarrow> is_valid_number s)
      | _ \<Rightarrow> False)"

definition member_field :: "config_field \<Rightarrow> go_string \<times> json \<Rightarrow> go_string option" where
  "member_field f m =
     (case snd m of JString s \<Rightarrow> if field_for (fst m) = Some f then Some s else None | _ \<Rightarrow> None)"

text \<open>The last string given for a field, and what an unset one stands for.\<close>

definition field_value :: "config_field \<Rightarrow> (go_string \<times> json) list \<Rightarrow> go_string" where
  "field_value f ms = fold (\<lambda>m v. case member_field f m of None \<Rightarrow> v | Some s \<Rightarrow> s) ms []"

definition field_default :: "config_field \<Rightarrow> go_string" where
  "field_default f =
     (if f = F_queryType then ''sqp'' else if f = F_localProxyUrl then ''http://localhost:8086'' else [])"

definition member_string :: "json \<Rightarrow> go_string" where
  "member_string v = (case v of JString s \<Rightarrow> s | _ \<Rightarrow> [])"

definition extra_value :: "(go_string \<times> json) list \<Rightarrow> go_string \<rightharpoonup> go_string" where
  "extra_value ms k =
     (if k \<in> set all_tags then None else map_of (rev (map (map_prod id member_string) ms)) k)"

lemma decode_members_err: "decode_members ms c (Some e) = Inr (c', err) \<Longrightarrow> err = Some e"
  by (induction ms c "Some e" rule: decode_members.induct)
     (auto simp: first_error_def split: option.splits sum.splits prod.splits)

lemma store_literal_ok:
  "field_for k = Some f \<Longrightarrow> member_ok (k, v) \<Longrightarrow>
   store_literal f v c = Inr (case v of JString s \<Rightarrow> set_field f s c | _ \<Rightarrow> c, None)"
  by (cases v) (auto simp: store_literal_def member_ok_def)

lemma decode_members_ok:
  assumes "list_all member_ok ms"
  obtains c' where "decode_members ms c None = Inr (c', None)" "Extra c' = Extra c"
    "\<And>f. get_field f c' = fold (\<lambda>m v. case member_field f m of None \<Rightarrow> v | Some s \<Rightarrow> s) ms (get_field f c)"
proof -
  have "\<exists>c'. decode_members ms c None = Inr (c', None) \<and> Extra c' = Extra c \<and>
    (\<forall>f. get_field f c' = fold (\<lambda>m v. case member_field f m of None \<Rightarrow> v | Some s \<Rightarrow> s) ms (get_field f c))"
    using assms
  proof (induction ms arbitrary: c)
    case (Cons m ms)
    obtain k v where m: "m = (k, v)" by (cases m)
    have IH: "list_all member_ok ms" and ok: "member_ok (k, v)" using Cons.prems m by auto
    show ?case
    proof (cases "field_for k")
      case None
      then have "member_field f m = None" for f by (auto simp: m member_field_def split: json.splits)
      with None Cons.IH [OF IH, of c] show ?thesis by (simp add: m)
    next
      case (Some g)
      let ?c = "case v of JString s \<Rightarrow> set_field g s c | _ \<Rightarrow> c"
      have "(case member_field f m of None \<Rightarrow> get_field f c | Some s \<Rightarrow> s) = get_field f ?c" for f
        by (auto simp: m Some member_field_def split: json.splits)
      moreover have "Extra ?c = Extra c" by (simp split: json.splits)
      ultimately show ?thesis
        using Cons.IH [OF IH, of ?c] by (simp add: m Some store_literal_ok [OF Some ok] first_error_def)
    qed
  qed simp
  then show ?thesis using that by blast
qed

definition extra_error :: "go_string \<times> json \<Rightarrow> config_error option" where
  "extra_error m =
     (case snd m of JString _ \<Rightarrow> None | JNull \<Rightarrow> None | _ \<Rightarrow> Some (DecodeType (fst m)))"

lemma first_error_simps [simp]:
  "first_error err None = err" "first_error e1 e2 = None \<longleftrightarrow> e1 = None \<and> e2 = None"
  by (simp_all add: first_error_def split: option.splits)

lemma decode_extra_members_eq:
  "decode_extra_members ms m err =
     (m ++ map_of (rev (map (map_prod id member_string) ms)),
      fold (\<lambda>x e. first_error e (extra_error x)) ms err)"
proof (induction ms arbitrary: m err)
  case (Cons x ms)
  obtain k v where "x = (k, v)" by (cases x)
  then show ?case
    by (cases v) (auto simp: Cons.IH member_string_def extra_error_def map_add_def
        fun_eq_iff split: option.splits)
qed simp

lemma extra_errors_None:
  "fold (\<lambda>x e. first_error e (extra_error x)) ms err = None \<longleftrightarrow>
     err = None \<and> list_all (\<lambda>x. extra_error x = None) ms"
  by (induction ms arbitrary: err) auto

lemma remove_decoded_eq: "remove_decoded m k = (if k \<in> set all_tags then None else m k)"
proof -
  have "fold (\<lambda>t m. m(t := None)) ts m k = (if k \<in> set ts then None else m k)" for ts
    by (induction ts arbitrary: m) auto
  then show ?thesis by (simp add: remove_decoded_def)
qed


text \<open>The two decodes together accept exactly the loadable members.\<close>

lemma decode_members_sound:
  "decode_members ms c err = Inr (c', None) \<Longrightarrow> list_all (\<lambda>x. extra_error x = None) ms \<Longrightarrow>
   err = None \<and> list_all member_ok ms"
proof (induction ms c err rule: decode_members.induct)
  case (2 k v ms c err)
  show ?case
  proof (cases "field_for k")
    case None
    with 2 show ?thesis by (auto simp: member_ok_def extra_error_def split: json.splits)
  next
    case (Some f)
    with 2(3) obtain c1 e where st: "store_literal f v c = Inr (c1, e)"
      by (auto split: sum.splits)
    with 2(3) Some have "decode_members ms c1 (first_error err e) = Inr (c', None)" by simp
    with 2(2) [OF Some st refl] 2(4) have rest: "err = None" "e = None" "list_all member_ok ms"
      by auto
    have "member_ok (k, v)"
      using st 2(4) Some
      by (auto simp: member_ok_def store_literal_def extra_error_def split: json.splits if_splits)
    with rest show ?thesis by simp
  qed
qed simp

lemma member_ok_extra: "member_ok m \<Longrightarrow> extra_error m = None"
  by (auto simp: member_ok_def extra_error_def split: json.splits)

lemma member_ok_extras: "list_all member_ok ms \<Longrightarrow> list_all (\<lambda>x. extra_error x = None) ms"
  by (auto simp: list_all_iff intro: member_ok_extra)

lemma decode_extra_ok_iff:
  "(\<exists>m. decode_extra (JObject ms) = Inr m) \<longleftrightarrow> list_all (\<lambda>x. extra_error x = None) ms"
  using extra_errors_None [of ms None]
  by (cases "fold (\<lambda>x e. first_error e (extra_error x)) ms None")
     (simp_all add: decode_extra_def decode_extra_members_eq)

lemma newConfigFromFile_object:
  assumes "list_all member_ok ms"
  obtains cfg where "newConfigFromFile (FileValue (JObject ms)) = Return (Inr cfg)"
    "Extra cfg = extra_value ms"
    "\<And>f. get_field f cfg = (if field_value f ms = [] then field_default f else field_value f ms)"
proof -
  obtain c where c: "decode_members ms zero_config None = Inr (c, None)"
      "\<And>f. get_field f c = field_value f ms"
    using decode_members_ok [OF assms, of zero_config] unfolding field_value_def by auto
  have x: "decode_extra (JObject ms) = Inr (map_of (rev (map (map_prod id member_string) ms)))"
    using extra_errors_None [of ms None] member_ok_extras [OF assms]
    by (simp add: decode_extra_def decode_extra_members_eq)
  let ?c1 = "c\<lparr>Extra := extra_value ms\<rparr>"
  let ?c2 = "if QueryType ?c1 = [] then ?c1\<lparr>QueryType := ''sqp''\<rparr> else ?c1"
  let ?c3 = "if LocalProxyURL ?c2 = [] then ?c2\<lparr>LocalProxyURL := ''http://localhost:8086''\<rparr> else ?c2"
  have ex: "remove_decoded (map_of (rev (map (map_prod id member_string) ms))) = extra_value ms"
    by (rule ext) (simp add: remove_decoded_eq extra_value_def)
  have "newConfigFromFile (FileValue (JObject ms)) = Return (Inr ?c3)"
    by (simp add: newConfigFromFile_def scan_file_def seek_file_def decode_config_def c(1) x ex Let_def
        QueryProtocolRecommended_def)
  moreover have "Extra ?c3 = extra_value ms" by simp
  moreover have "get_field f ?c3 =
      (if field_value f ms = [] then field_default f else field_value f ms)" for f
    using c(2) [of f] by (cases f) (auto simp: field_default_def)
  ultimately show ?thesis using that by blast
qed

lemma newConfigFromFile_fails:
  assumes "\<not> list_all member_ok ms"
  shows "\<exists>e. newConfigFromFile (FileValue (JObject ms)) = Return (Inl e)"
proof (cases "decode_config (JObject ms)")
  case (Inr oc)
  then obtain c c' where oc: "oc = Some c" "decode_members ms zero_config None = Inr (c', None)"
    by (auto simp: decode_config_def rbind_eq_Inr split: option.splits prod.splits)
  with decode_members_sound assms have "\<not> list_all (\<lambda>x. extra_error x = None) ms" by blast
  with decode_extra_ok_iff obtain e where "decode_extra (JObject ms) = Inl e"
    by (metis sum.exhaust)
  with Inr oc(1) show ?thesis by (simp add: newConfigFromFile_def scan_file_def seek_file_def)
qed (simp add: newConfigFromFile_def scan_file_def)

lemma config_load_panics: "(\<exists>p. newConfigFromFile f = Panic p) \<longleftrightarrow> f = FileValue JNull"
proof (cases f)
  case (FileValue v)
  show ?thesis
  proof (cases v)
    case (JObject ms)
    then show ?thesis
      using newConfigFromFile_object [of ms] newConfigFromFile_fails [of ms]
      by (cases "list_all member_ok ms") (fastforce simp: FileValue)+
  qed (auto simp: FileValue newConfigFromFile_def scan_file_def seek_file_def decode_config_def)
next
  case (UnseekableFile e v)
  then show ?thesis by (cases "decode_config v") (simp_all add: newConfigFromFile_def scan_file_def seek_file_def)
qed (auto simp: newConfigFromFile_def scan_file_def)

section \<open>Properties of the loading\<close>

text \<open>
  C13. When a configuration file loads, and when it panics, for every file content: it loads
  exactly when it can be read twice and its value is an object whose members are all strings or \<open>null\<close>, with a valid
  number in each number field; it panics exactly on the document \<open>null\<close>. In particular a
  number, a boolean or a nested value under any name, even an unknown one, fails the load,
  because the second decode reads the whole document as \<open>map[string]string\<close>.
\<close>

theorem config_load_outcome:
  "((\<exists>cfg. newConfigFromFile f = Return (Inr cfg)) \<longleftrightarrow>
     (\<exists>ms. f = FileValue (JObject ms) \<and> list_all member_ok ms)) \<and>
   ((\<exists>p. newConfigFromFile f = Panic p) \<longleftrightarrow> f = FileValue JNull)"
proof
  show "(\<exists>p. newConfigFromFile f = Panic p) \<longleftrightarrow> f = FileValue JNull" by (rule config_load_panics)
  show "(\<exists>cfg. newConfigFromFile f = Return (Inr cfg)) \<longleftrightarrow>
      (\<exists>ms. f = FileValue (JObject ms) \<and> list_all member_ok ms)"
  proof (cases "\<exists>ms. f = FileValue (JObject ms)")
    case True
    then obtain ms where "f = FileValue (JObject ms)" by blast
    then show ?thesis
      using newConfigFromFile_object [of ms] newConfigFromFile_fails [of ms]
      by (cases "list_all member_ok ms") fastforce+
  next
    case False
    then show ?thesis
      by (cases f; simp add: newConfigFromFile_def scan_file_def seek_file_def)
         (auto simp: decode_config_def seek_file_def split: json.splits sum.splits)
  qed
qed

text \<open>
  C12. What a loadable file means. Every field has the last string given for it, under its
  tag or a case variant of it, or its default; \<open>Extra\<close> has every other member, the last one of
  each name, with the empty string for \<open>null\<close>, except one named \<open>-\<close>, which is lost.
\<close>

theorem config_load_meaning:
  assumes "list_all member_ok ms"
  shows "\<exists>cfg. newConfigFromFile (FileValue (JObject ms)) = Return (Inr cfg) \<and>
    Extra cfg = extra_value ms \<and>
    (\<lambda>f. get_field f cfg) =
      (\<lambda>f. if field_value f ms = [] then field_default f else field_value f ms)"
  using newConfigFromFile_object [OF assms] by (metis (no_types, lifting))

theorem config_load_meaning_witness:
  "\<exists>cfg. newConfigFromFile (FileValue (JObject
      [(''port'', JString ''9000''), (''serverid'', JString ''7''), (''-'', JString ''x''),
       (''enableBackfill'', JString ''true'')])) = Return (Inr cfg) \<and>
    GamePort cfg = ''9000'' \<and> ServerID cfg = ''7'' \<and> QueryType cfg = ''sqp'' \<and>
    Extra cfg ''serverid'' = Some ''7'' \<and> Extra cfg ''-'' = None \<and>
    Extra cfg ''enableBackfill'' = Some ''true''"
proof -
  let ?ms = "[(''port'', JString ''9000''), (''serverid'', JString ''7''), (''-'', JString ''x''),
       (''enableBackfill'', JString ''true'')]"
  have "list_all member_ok ?ms" by code_simp
  from config_load_meaning [OF this] obtain cfg where cfg:
      "newConfigFromFile (FileValue (JObject ?ms)) = Return (Inr cfg)" "Extra cfg = extra_value ?ms"
      "\<And>f. get_field f cfg =
        (if field_value f ?ms = [] then field_default f else field_value f ?ms)"
    by (auto simp: fun_eq_iff)
  have v: "field_value F_port ?ms = ''9000''" "field_value F_serverID ?ms = ''7''"
      "field_value F_queryType ?ms = []"
    by code_simp+
  have e: "extra_value ?ms ''serverid'' = Some ''7''" "extra_value ?ms ''-'' = None"
      "extra_value ?ms ''enableBackfill'' = Some ''true''"
    by code_simp+
  have "GamePort cfg = ''9000''" using cfg(3) [of F_port] unfolding v by simp
  moreover have "ServerID cfg = ''7''" using cfg(3) [of F_serverID] unfolding v by simp
  moreover have "QueryType cfg = ''sqp''"
    using cfg(3) [of F_queryType] unfolding v by (simp add: field_default_def)
  ultimately show ?thesis using cfg(1) e unfolding cfg(2) [symmetric] by blast
qed

end
