(* ===== verification/Go_Chan.thy ===== *)
theory Go_Chan
  imports Go_Prelude
begin

text \<open>
  Buffered Go channels. A channel is its capacity, the values waiting in it, oldest first, and
  whether it is closed. Three uses occur in the SDK: a blocking send, a send that gives up
  when the channel is full (\<open>select\<close> with a \<open>default\<close>), and a receive.

  The contract of the non-blocking send is the locale \<open>mailbox\<close>: it is what the code relies on
  wherever it reports something "if anybody listens" (errors, configuration changes).
\<close>

record 'a chan =
  chanCap :: nat
  waitingVals :: "'a list"
  isClosed :: bool

definition make_chan :: "nat \<Rightarrow> 'a chan" where
  "make_chan n = \<lparr>chanCap = n, waitingVals = [], isClosed = False\<rparr>"

definition chan_ok :: "'a chan \<Rightarrow> bool" where
  "chan_ok c \<longleftrightarrow> length (waitingVals c) \<le> chanCap c"

text \<open>
  \<open>c <- x\<close> with no receiver ready: \<open>None\<close> when the sender has to wait. (A send on a closed
  channel would panic; the SDK closes only channels that it no longer sends on.)
\<close>

definition chan_send :: "'a \<Rightarrow> 'a chan \<Rightarrow> 'a chan option" where
  "chan_send x c =
     (if length (waitingVals c) < chanCap c then Some (c\<lparr>waitingVals := waitingVals c @ [x]\<rparr>)
      else None)"

text \<open>\<open>select { case c <- x: default: }\<close>\<close>

definition chan_try_send :: "'a \<Rightarrow> 'a chan \<Rightarrow> 'a chan" where
  "chan_try_send x c = (case chan_send x c of None \<Rightarrow> c | Some c' \<Rightarrow> c')"

text \<open>\<open>x := <-c\<close>: \<open>None\<close> when the receiver has to wait.\<close>

definition chan_recv :: "'a chan \<Rightarrow> ('a \<times> 'a chan) option" where
  "chan_recv c =
     (case waitingVals c of [] \<Rightarrow> None | x # xs \<Rightarrow> Some (x, c\<lparr>waitingVals := xs\<rparr>))"

definition chan_close :: "'a chan \<Rightarrow> 'a chan outcome" where
  "chan_close c = (if isClosed c then Panic CloseOfClosedChannel else Return (c\<lparr>isClosed := True\<rparr>))"

lemmas chan_defs = chan_send_def chan_try_send_def chan_recv_def chan_close_def chan_ok_def

lemma chan_ok_make [simp]: "chan_ok (make_chan n)"
  by (simp add: chan_ok_def make_chan_def)

lemma chan_try_send_ok [simp]: "chan_ok c \<Longrightarrow> chan_ok (chan_try_send x c)"
  by (simp add: chan_defs)

lemma chan_send_ok: "chan_ok c \<Longrightarrow> chan_send x c = Some c' \<Longrightarrow> chan_ok c'"
  by (auto simp: chan_defs split: if_splits)

lemma chan_cap_simps [simp]:
  "chanCap (chan_try_send x c) = chanCap c" "isClosed (chan_try_send x c) = isClosed c"
  by (simp_all add: chan_defs)

lemma chan_send_None_iff: "chan_send x c = None \<longleftrightarrow> chanCap c \<le> length (waitingVals c)"
  by (auto simp: chan_send_def)

section \<open>The contract of a lossy send\<close>

locale mailbox =
  fixes content :: "'c \<Rightarrow> 'a list"
    and capacity :: "'c \<Rightarrow> nat"
    and offer :: "'a \<Rightarrow> 'c \<Rightarrow> 'c"
  assumes offer_content:
      "content (offer x c) = (if length (content c) < capacity c then content c @ [x] else content c)"
    and offer_capacity: "capacity (offer x c) = capacity c"
begin

text \<open>
  A burst of offers that nobody consumes: the values already there stay in front, the first
  ones offered fill the room, the rest are lost.
\<close>

lemma offer_many:
  "content (fold offer xs c) = content c @ take (capacity c - length (content c)) xs"
proof (induction xs arbitrary: c)
  case (Cons x xs)
  show ?case
  proof (cases "length (content c) < capacity c")
    case True
    then have "capacity c - length (content c) = Suc (capacity c - Suc (length (content c)))"
      by simp
    with True show ?thesis by (simp add: Cons.IH offer_content offer_capacity)
  next
    case False
    then show ?thesis by (simp add: Cons.IH offer_content offer_capacity)
  qed
qed simp

lemma offer_bounded: "length (content c) \<le> capacity c \<Longrightarrow> length (content (offer x c)) \<le> capacity c"
  by (simp add: offer_content)

lemma offer_keeps_first: "content c = y # ys \<Longrightarrow> \<exists>zs. content (offer x c) = y # zs"
  by (simp add: offer_content)

end

interpretation lossy: mailbox waitingVals chanCap chan_try_send
  by unfold_locales (simp_all add: chan_defs)

section \<open>Signals\<close>

text \<open>
  \<open>signal.Notify(c, wanted...)\<close>: the signals of the wanted kinds that the process receives are
  offered to the channel without blocking, and have no other effect any more.
\<close>

datatype os_signal = SigInterrupt | SigTerm | OtherSignal

definition signal_notify :: "os_signal list \<Rightarrow> os_signal list \<Rightarrow> os_signal chan \<Rightarrow> os_signal chan" where
  "signal_notify wanted sigs c = fold chan_try_send (filter (\<lambda>s. s \<in> set wanted) sigs) c"

lemma signal_notify_vals:
  "waitingVals (signal_notify wanted sigs (make_chan n)) = take n (filter (\<lambda>s. s \<in> set wanted) sigs)"
  by (simp add: signal_notify_def lossy.offer_many) (simp add: make_chan_def)

end
