(* ===== verification/Udp_Binding.thy ===== *)
theory Udp_Binding
  imports Go_Chan Gsh_Errors
begin

text \<open>
  The file \<open>game-server-hosting/server/bind.go\<close>: the managed UDP socket of the query endpoint.

  The operating system is a parameter: each system call of the file takes its result from a
  record of the environment, and the sockets of the process that are open are an explicit set
  of descriptors. Inside one method nothing else runs in the first part of the theory; the
  last part interleaves \<open>Read\<close> with a \<open>Close\<close> from another goroutine, step by step.
\<close>

type_synonym fd = nat
type_synonym addr = go_string

record udp_binding =
  conn :: "fd option"
  bindDone :: "unit chan"
  readDeadlineDuration :: duration
  writeDeadlineDuration :: duration

section \<open>newUDPBinding\<close>

text \<open>The four system calls, in the order of the calls, as functions of their arguments.\<close>

record listen_env =
  resolveAddr :: "go_string \<Rightarrow> net_error + addr"
  listenUDP :: "addr \<Rightarrow> net_error + fd"
  setReadBuffer :: "int \<Rightarrow> go_string option"
  setWriteBuffer :: "int \<Rightarrow> go_string option"

definition newUDPBinding ::
  "listen_env \<Rightarrow> go_string \<Rightarrow> int \<Rightarrow> int \<Rightarrow> duration \<Rightarrow> duration \<Rightarrow> fd set \<Rightarrow>
   fd set \<times> (net_error + udp_binding)" where
  "newUDPBinding env bindAddress readBytes writeBytes readDeadline writeDeadline open_fds =
     (case resolveAddr env bindAddress of
        Inl e \<Rightarrow> (open_fds, Inl e)
      | Inr address \<Rightarrow>
          (case listenUDP env address of
             Inl e \<Rightarrow> (open_fds, Inl e)
           | Inr c \<Rightarrow>
               (case setReadBuffer env readBytes of
                  Some e \<Rightarrow> (insert c open_fds, Inl (SetReadBuffer e))
                | None \<Rightarrow>
                    (case setWriteBuffer env writeBytes of
                       Some e \<Rightarrow> (insert c open_fds, Inl (SetWriteBuffer e))
                     | None \<Rightarrow>
                         (insert c open_fds,
                          Inr \<lparr>conn = Some c, bindDone = make_chan 0,
                               readDeadlineDuration = readDeadline,
                               writeDeadlineDuration = writeDeadline\<rparr>)))))"

text \<open>An operating system on which everything works, for sample runs.\<close>

definition sample_listen :: "fd \<Rightarrow> listen_env" where
  "sample_listen c = \<lparr>resolveAddr = Inr, listenUDP = (\<lambda>a. Inr c), setReadBuffer = (\<lambda>n. None),
     setWriteBuffer = (\<lambda>n. None)\<rparr>"

section \<open>The methods\<close>

text \<open>Nothing is ever sent on \<open>done\<close>, so the \<open>select\<close> receives exactly when it is closed.\<close>

definition IsDone :: "udp_binding \<Rightarrow> bool" where
  "IsDone b = isClosed (bindDone b)"

definition udp_Close :: "udp_binding \<Rightarrow> fd set \<Rightarrow> (udp_binding \<times> fd set) outcome" where
  "udp_Close b open_fds =
     (if IsDone b then Return (b, open_fds)
      else obind (chan_close (bindDone b)) (\<lambda>d.
        case conn b of
          None \<Rightarrow> Panic NilDereference
        | Some c \<Rightarrow> Return (b\<lparr>bindDone := d, conn := None\<rparr>, open_fds - {c})))"

text \<open>
  \<open>ReadFromUDP\<close> copies the datagram into the buffer (the part of a longer datagram that does
  not fit is dropped) and gives its sender.
\<close>

record read_env =
  setReadDeadline :: "go_string option"
  readFromUDP :: "net_error + (byte list \<times> addr)"

definition fill_buffer :: "byte list \<Rightarrow> byte list \<Rightarrow> byte list" where
  "fill_buffer buf d = take (length buf) d @ drop (length d) buf"

definition udp_Read ::
  "read_env \<Rightarrow> udp_binding \<Rightarrow> byte list \<Rightarrow> (net_error + (nat \<times> addr \<times> byte list)) outcome" where
  "udp_Read env b buf =
     (if IsDone b then Return (Inl BindingClosed)
      else case conn b of
        None \<Rightarrow> Panic NilDereference
      | Some c \<Rightarrow>
          (case setReadDeadline env of
             Some e \<Rightarrow> Return (Inl (SetReadDeadline e))
           | None \<Rightarrow>
               (case readFromUDP env of
                  Inl e \<Rightarrow> Return (Inl e)
                | Inr (d, from_addr) \<Rightarrow>
                    Return (Inr (min (length d) (length buf), from_addr, fill_buffer buf d)))))"

record write_env =
  setWriteDeadline :: "go_string option"
  writeTo :: "net_error option"

text \<open>\<open>Some e\<close>: the error; \<open>None\<close>: the packet has left.\<close>

definition udp_Write :: "write_env \<Rightarrow> udp_binding \<Rightarrow> (net_error option) outcome" where
  "udp_Write env b =
     (if IsDone b then Return (Some BindingClosed)
      else case conn b of
        None \<Rightarrow> Panic NilDereference
      | Some c \<Rightarrow>
          (case setWriteDeadline env of
             Some e \<Rightarrow> Return (Some (SetWriteDeadline e))
           | None \<Rightarrow> Return (writeTo env)))"

section \<open>The life of a binding\<close>

text \<open>A binding owns a socket as long as it is not done, and only then; the socket is open.\<close>

definition binding_ok :: "fd set \<Rightarrow> udp_binding \<Rightarrow> bool" where
  "binding_ok open_fds b \<longleftrightarrow>
     (case conn b of None \<Rightarrow> IsDone b | Some c \<Rightarrow> \<not> IsDone b \<and> c \<in> open_fds)"

lemma length_fill_buffer [simp]: "length (fill_buffer buf d) = length buf"
  by (simp add: fill_buffer_def)

lemma newUDPBinding_ok:
  "newUDPBinding env a rb wb r w open_fds = (fds, Inr b) \<Longrightarrow> binding_ok fds b \<and> \<not> IsDone b"
  by (auto simp: newUDPBinding_def binding_ok_def IsDone_def make_chan_def
      split: option.splits sum.splits)

lemma udp_Close_ok:
  assumes "binding_ok open_fds b"
  shows "\<exists>b'. udp_Close b open_fds = Return (b', open_fds - set_option (conn b)) \<and> IsDone b' \<and>
    binding_ok (open_fds - set_option (conn b)) b'"
  using assms
  by (cases "conn b") (auto simp: udp_Close_def binding_ok_def IsDone_def chan_close_def)

lemma udp_Read_ok:
  assumes "binding_ok open_fds b"
  shows "\<exists>r. udp_Read env b buf = Return r \<and> (IsDone b \<longrightarrow> r = Inl BindingClosed)"
  using assms
  by (cases "conn b"; cases "setReadDeadline env"; cases "readFromUDP env")
     (auto simp: udp_Read_def binding_ok_def)

lemma udp_Read_data:
  "udp_Read env b buf = Return (Inr (n, a, buf')) \<Longrightarrow>
   \<not> IsDone b \<and> (\<exists>d. readFromUDP env = Inr (d, a) \<and> buf' = fill_buffer buf d)"
  by (auto simp: udp_Read_def split: if_splits option.splits sum.splits)

lemma udp_Write_ok:
  assumes "binding_ok open_fds b"
  shows "\<exists>r. udp_Write env b = Return r \<and> (IsDone b \<longrightarrow> r = Some BindingClosed)"
  using assms
  by (cases "conn b"; cases "setWriteDeadline env") (auto simp: udp_Write_def binding_ok_def)

section \<open>Read and Close in two goroutines\<close>

text \<open>
  The query loop reads while \<open>Stop\<close> closes. \<open>Read\<close> looks at \<open>done\<close>, then uses \<open>b.conn\<close> twice
  (for the deadline and for the read itself); \<open>Close\<close> closes \<open>done\<close>, then the socket, then sets
  \<open>b.conn\<close> to nil. No lock orders the two. A system call on a closed socket is an error. After
  an error the loop ends if the binding is done and reads again otherwise.
\<close>

datatype reader =
    ReadStart
  | ReadChecked
  | ReadArmed
  | InRead fd
  | ReadFailed
  | ReadGot
  | LoopEnded
  | ReadPanicked go_panic

datatype closer = NotClosing | DoneClosed | SocketClosed | Closed

record bind_sys =
  binding :: udp_binding
  openFds :: "fd set"
  reader :: reader
  closer :: closer

inductive bind_step :: "bind_sys \<Rightarrow> bind_sys \<Rightarrow> bool" where
  check:
    "reader s = ReadStart \<Longrightarrow>
     bind_step s (s\<lparr>reader := (if IsDone (binding s) then ReadFailed else ReadChecked)\<rparr>)"
| arm_nil:
    "reader s = ReadChecked \<Longrightarrow> conn (binding s) = None \<Longrightarrow>
     bind_step s (s\<lparr>reader := ReadPanicked NilDereference\<rparr>)"
| arm:
    "reader s = ReadChecked \<Longrightarrow> conn (binding s) = Some c \<Longrightarrow>
     bind_step s (s\<lparr>reader := (if c \<in> openFds s then ReadArmed else ReadFailed)\<rparr>)"
| enter_nil:
    "reader s = ReadArmed \<Longrightarrow> conn (binding s) = None \<Longrightarrow>
     bind_step s (s\<lparr>reader := ReadPanicked NilDereference\<rparr>)"
| enter:
    "reader s = ReadArmed \<Longrightarrow> conn (binding s) = Some c \<Longrightarrow> bind_step s (s\<lparr>reader := InRead c\<rparr>)"
| got:
    "reader s = InRead c \<Longrightarrow> c \<in> openFds s \<Longrightarrow> bind_step s (s\<lparr>reader := ReadGot\<rparr>)"
| failed:
    "reader s = InRead c \<Longrightarrow> bind_step s (s\<lparr>reader := ReadFailed\<rparr>)"
| again:
    "reader s = ReadGot \<Longrightarrow> bind_step s (s\<lparr>reader := ReadStart\<rparr>)"
| loop:
    "reader s = ReadFailed \<Longrightarrow>
     bind_step s (s\<lparr>reader := (if IsDone (binding s) then LoopEnded else ReadStart)\<rparr>)"
| close_done:
    "closer s = NotClosing \<Longrightarrow> chan_close (bindDone (binding s)) = Return d \<Longrightarrow>
     bind_step s (s\<lparr>binding := (binding s)\<lparr>bindDone := d\<rparr>, closer := DoneClosed\<rparr>)"
| close_socket:
    "closer s = DoneClosed \<Longrightarrow> conn (binding s) = Some c \<Longrightarrow>
     bind_step s (s\<lparr>openFds := openFds s - {c}, closer := SocketClosed\<rparr>)"
| close_conn:
    "closer s = SocketClosed \<Longrightarrow>
     bind_step s (s\<lparr>binding := (binding s)\<lparr>conn := None\<rparr>, closer := Closed\<rparr>)"

code_pred bind_step .

inductive bind_reach :: "bind_sys \<Rightarrow> bind_sys \<Rightarrow> bool" where
  begin_reach: "bind_reach s s"
| next_reach: "bind_reach s t \<Longrightarrow> bind_step t u \<Longrightarrow> bind_reach s u"

definition start_sys :: "udp_binding \<Rightarrow> fd set \<Rightarrow> bind_sys" where
  "start_sys b fds = \<lparr>binding = b, openFds = fds, reader = ReadStart, closer = NotClosing\<rparr>"

text \<open>
  What holds in every interleaving. A read that panics has been overtaken by a complete
  \<open>Close\<close>; a loop ends only when the binding is done.
\<close>

definition bind_inv :: "bind_sys \<Rightarrow> bool" where
  "bind_inv s \<longleftrightarrow>
     (IsDone (binding s) \<longleftrightarrow> closer s \<noteq> NotClosing) \<and>
     (conn (binding s) = None \<longleftrightarrow> closer s = Closed) \<and>
     (conn (binding s) \<noteq> None \<and> closer s \<noteq> SocketClosed \<longrightarrow>
        the (conn (binding s)) \<in> openFds s) \<and>
     (\<forall>p. reader s = ReadPanicked p \<longrightarrow> p = NilDereference \<and> closer s = Closed) \<and>
     (reader s = LoopEnded \<longrightarrow> closer s \<noteq> NotClosing)"

lemma bind_inv_start: "binding_ok fds b \<Longrightarrow> \<not> IsDone b \<Longrightarrow> bind_inv (start_sys b fds)"
  by (auto simp: bind_inv_def start_sys_def binding_ok_def split: option.splits)

lemma bind_inv_step: "bind_step s t \<Longrightarrow> bind_inv s \<Longrightarrow> bind_inv t"
  by (induction rule: bind_step.induct)
     (auto simp: bind_inv_def IsDone_def chan_close_def split: if_splits)

lemma bind_inv_reach: "bind_reach s t \<Longrightarrow> bind_inv s \<Longrightarrow> bind_inv t"
  by (induction rule: bind_reach.induct) (auto intro: bind_inv_step)

text \<open>The overtaken read.\<close>

lemma bind_race:
  assumes "binding_ok fds b" and "\<not> IsDone b"
  shows "\<exists>s. bind_reach (start_sys b fds) s \<and> reader s = ReadPanicked NilDereference"
proof -
  from assms obtain c where c: "conn b = Some c" by (auto simp: binding_ok_def split: option.splits)
  have d: "chan_close (bindDone b) = Return (bindDone b\<lparr>isClosed := True\<rparr>)"
    using assms(2) by (simp add: chan_close_def IsDone_def)
  let ?s0 = "start_sys b fds"
  let ?s1 = "?s0\<lparr>reader := ReadChecked\<rparr>"
  let ?s2 = "?s1\<lparr>binding := b\<lparr>bindDone := bindDone b\<lparr>isClosed := True\<rparr>\<rparr>, closer := DoneClosed\<rparr>"
  let ?s3 = "?s2\<lparr>openFds := fds - {c}, closer := SocketClosed\<rparr>"
  let ?s4 = "?s3\<lparr>binding := (binding ?s3)\<lparr>conn := None\<rparr>, closer := Closed\<rparr>"
  have 1: "bind_step ?s0 ?s1" using bind_step.check [of ?s0] assms(2) by (simp add: start_sys_def)
  have 2: "bind_step ?s1 ?s2"
    using bind_step.close_done [of ?s1] d by (simp add: start_sys_def)
  have 3: "bind_step ?s2 ?s3"
    using bind_step.close_socket [of ?s2 c] c by (simp add: start_sys_def)
  have 4: "bind_step ?s3 ?s4"
    using bind_step.close_conn [of ?s3] by (simp add: start_sys_def)
  have 5: "bind_step ?s4 (?s4\<lparr>reader := ReadPanicked NilDereference\<rparr>)"
    using bind_step.arm_nil [of ?s4] by (simp add: start_sys_def)
  note r = bind_reach.next_reach
  have "bind_reach ?s0 (?s4\<lparr>reader := ReadPanicked NilDereference\<rparr>)"
    by (rule r [OF r [OF r [OF r [OF r [OF bind_reach.begin_reach 1] 2] 3] 4] 5])
  then show ?thesis by (intro exI conjI) (assumption, simp)
qed

text \<open>A failed setup after the socket was opened returns an error and leaves the socket open.\<close>

lemma newUDPBinding_leaks:
  "resolveAddr env a = Inr a' \<Longrightarrow> listenUDP env a' = Inr c \<Longrightarrow>
   (\<exists>e. newUDPBinding env a rb wb r w open_fds = (insert c open_fds, Inl e)) \<longleftrightarrow>
     setReadBuffer env rb \<noteq> None \<or> setWriteBuffer env wb \<noteq> None"
  by (cases "setReadBuffer env rb"; cases "setWriteBuffer env wb") (simp_all add: newUDPBinding_def)

section \<open>Properties of the binding\<close>

text \<open>
  C36. The life of a binding. A binding that has been made owns an open socket; after one
  \<open>Close\<close> the socket is closed, and every later \<open>Read\<close>, \<open>Write\<close> and \<open>Close\<close> finds out without
  touching the socket.
\<close>

theorem udp_binding_lifecycle:
  assumes "newUDPBinding env a rb wb r w open_fds = (fds, Inr b)" and "udp_Close b fds = Return (b', fds')"
  shows "fds = open_fds \<union> set_option (conn b) \<and> conn b \<noteq> None \<and>
    fds' = fds - set_option (conn b) \<and>
    udp_Read renv b' buf = Return (Inl BindingClosed) \<and>
    udp_Write wenv b' = Return (Some BindingClosed) \<and>
    udp_Close b' fds' = Return (b', fds')"
  using assms
  by (auto simp: newUDPBinding_def udp_Close_def udp_Read_def udp_Write_def IsDone_def make_chan_def
      chan_close_def split: option.splits sum.splits)

theorem udp_binding_lifecycle_witness:
  "\<exists>b b'. newUDPBinding (sample_listen 5) '':9100'' 1024 1024 3 1 {1} = ({1, 5}, Inr b) \<and>
     udp_Close b {1, 5} = Return (b', {1}) \<and> udp_Close b' {1} = Return (b', {1})"
proof -
  let ?b = "\<lparr>conn = Some 5, bindDone = make_chan 0, readDeadlineDuration = 3,
     writeDeadlineDuration = 1\<rparr>"
  let ?b' = "?b\<lparr>bindDone := (make_chan 0)\<lparr>isClosed := True\<rparr>, conn := None\<rparr>"
  have n: "newUDPBinding (sample_listen 5) '':9100'' 1024 1024 3 1 {1} = ({1, 5}, Inr ?b)"
    by (auto simp: newUDPBinding_def sample_listen_def)
  have c: "udp_Close ?b {1, 5} = Return (?b', {1})"
    by (auto simp: udp_Close_def IsDone_def make_chan_def chan_close_def)
  from udp_binding_lifecycle [OF n c] n c show ?thesis by blast
qed

text \<open>
  \<open>Read\<close> and \<open>Close\<close> race. In every interleaving a read panics only when a complete
  \<open>Close\<close> has overtaken it, and the loop ends only after a \<open>Close\<close> has begun; and such an
  interleaving exists: \<open>Close\<close> runs between the check of \<open>done\<close> and the use of \<open>b.conn\<close>.
\<close>

theorem udp_close_race:
  assumes "newUDPBinding env a rb wb r w open_fds = (fds, Inr b)"
  shows "(\<forall>s. bind_reach (start_sys b fds) s \<longrightarrow>
      (\<forall>p. reader s = ReadPanicked p \<longrightarrow> p = NilDereference \<and> closer s = Closed) \<and>
      (reader s = LoopEnded \<longrightarrow> IsDone (binding s))) \<and>
    (\<exists>s. bind_reach (start_sys b fds) s \<and> reader s = ReadPanicked NilDereference)"
proof -
  from newUDPBinding_ok [OF assms] have ok: "binding_ok fds b" "\<not> IsDone b" by simp_all
  then show ?thesis
    using bind_race [OF ok] bind_inv_reach [OF _ bind_inv_start [OF ok]] by (auto simp: bind_inv_def)
qed

theorem udp_close_race_witness:
  "\<exists>b s. newUDPBinding (sample_listen 5) '':9100'' 1024 1024 3 1 {} = ({5}, Inr b) \<and>
     bind_reach (start_sys b {5}) s \<and> reader s = ReadPanicked NilDereference"
proof -
  let ?b = "\<lparr>conn = Some 5, bindDone = make_chan 0, readDeadlineDuration = 3,
     writeDeadlineDuration = 1\<rparr>"
  have "newUDPBinding (sample_listen 5) '':9100'' 1024 1024 3 1 {} = ({5}, Inr ?b)"
    by (auto simp: newUDPBinding_def sample_listen_def)
  with udp_close_race [OF this] show ?thesis by blast
qed

end
