(* ===== verification/Proxy_Event.thy ===== *)
theory Proxy_Event
  imports Go_Json
begin

text \<open>
  The file \<open>internal/localproxy/event.go\<close>: the events of the local proxy and their decoding.
  The message data is the outcome of scanning its JSON text, a syntax error or a value.
\<close>

type_synonym event_type = go_string

definition AllocateEventType :: event_type where "AllocateEventType = ''AllocateEventType''"
definition DeallocateEventType :: event_type where "DeallocateEventType = ''DeallocateEventType''"

record base_event =
  Typ :: event_type
  EventID :: go_string
  EventServerID :: int

datatype event =
    AllocateEvent base_event go_string
  | DeallocateEvent base_event go_string
  | BaseEvent base_event

text \<open>The embedded \<open>*BaseEvent\<close> promotes the method of the base.\<close>

primrec event_Type :: "event \<Rightarrow> event_type" where
  "event_Type (AllocateEvent b i) = Typ b"
| "event_Type (DeallocateEvent b i) = Typ b"
| "event_Type (BaseEvent b) = Typ b"

text \<open>The fields of the structs as \<open>encoding/json\<close> sees them: the promoted ones come first.\<close>

definition base_spec :: json_struct where
  "base_spec = [(''EventType'', JK_string), (''EventID'', JK_string), (''ServerID'', JK_int64)]"

definition allocation_spec :: json_struct where
  "allocation_spec = base_spec @ [(''AllocationID'', JK_string)]"

fun to_base_event :: "json_val list \<Rightarrow> base_event" where
  "to_base_event (JV_string t # JV_string i # JV_int s # r) = \<lparr>Typ = t, EventID = i, EventServerID = s\<rparr>"
| "to_base_event _ = \<lparr>Typ = [], EventID = [], EventServerID = 0\<rparr>"

fun to_allocation_id :: "json_val list \<Rightarrow> go_string" where
  "to_allocation_id [t, i, s, JV_string a] = a"
| "to_allocation_id _ = []"

text \<open>
  \<open>event.Type()\<close> on the nil pointer that \<open>null\<close> leaves dereferences it. (The second decode
  reads the same data, so it cannot leave its pointer nil.)
\<close>

definition unmarshalEvent :: "json_lib \<Rightarrow> go_string + json \<Rightarrow> (json_error + event) outcome" where
  "unmarshalEvent lib data =
     (case data of
        Inl e \<Rightarrow> Return (Inl (JsonSyntax e))
      | Inr v \<Rightarrow>
          (case decode_struct lib base_spec v of
             Inl e \<Rightarrow> Return (Inl e)
           | Inr None \<Rightarrow> Panic NilDereference
           | Inr (Some vals) \<Rightarrow>
               (let ev = to_base_event vals in
                if Typ ev = AllocateEventType then
                  (case decode_struct lib allocation_spec v of
                     Inl e \<Rightarrow> Return (Inl e)
                   | Inr None \<Rightarrow> Panic NilDereference
                   | Inr (Some vals) \<Rightarrow>
                       Return (Inr (AllocateEvent (to_base_event vals) (to_allocation_id vals))))
                else if Typ ev = DeallocateEventType then
                  (case decode_struct lib allocation_spec v of
                     Inl e \<Rightarrow> Return (Inl e)
                   | Inr None \<Rightarrow> Panic NilDereference
                   | Inr (Some vals) \<Rightarrow>
                       Return (Inr (DeallocateEvent (to_base_event vals) (to_allocation_id vals))))
                else Return (Inr (BaseEvent ev)))))"

section \<open>Facts about the decoding\<close>

text \<open>The second decode gives the base fields the same values as the first.\<close>

lemma find_index_append:
  "find_index P (xs @ ys) =
     (case find_index P xs of
        Some i \<Rightarrow> Some i
      | None \<Rightarrow> map_option (\<lambda>i. length xs + i) (find_index P ys))"
  by (induction xs; cases "find_index P ys") (auto split: option.splits)

lemma select_allocation:
  "select_field allocation_spec k =
     (case select_field base_spec k of
        Some i \<Rightarrow> Some i
      | None \<Rightarrow> if fold_equal ''AllocationID'' k then Some 3 else None)"
proof (cases "k = ''AllocationID''")
  case True
  show ?thesis unfolding True by code_simp
next
  case False
  then show ?thesis
    by (auto simp: select_field_def allocation_spec_def find_index_append base_spec_def
        split: option.splits)
qed

lemma find_index_bound: "find_index P xs = Some i \<Longrightarrow> i < length xs"
  by (induction xs arbitrary: i) (auto split: if_splits)

lemma select_bound: "select_field spec k = Some i \<Longrightarrow> i < length spec"
  by (auto simp: select_field_def dest: find_index_bound split: option.splits)

lemma length_base_spec: "length base_spec = 3"
  by (simp add: base_spec_def)

lemma select_base_bound: "select_field base_spec k = Some i \<Longrightarrow> i < 3"
  using select_bound [of base_spec k i] by (simp add: base_spec_def)

lemma decode_fields_err: "decode_fields lib spec ms (Some e) vals \<noteq> Inr vals'"
  by (induction lib spec ms "Some e" vals rule: decode_fields.induct)
     (auto split: option.splits prod.splits json_error.splits)

lemma decode_allocation_base:
  "decode_fields lib allocation_spec ms err vals = Inr vals' \<Longrightarrow> length vals = 4 \<Longrightarrow>
   decode_fields lib base_spec ms err (take 3 vals) = Inr (take 3 vals') \<and> length vals' = 4"
proof (induction lib allocation_spec ms err vals rule: decode_fields.induct)
  case (2 lib k v ms err vals)
  have none: "err = None" using 2(5) decode_fields_err by (cases err) blast+
  show ?case
  proof (cases "select_field allocation_spec k")
    case None
    moreover from this have "select_field base_spec k = None"
      by (simp add: select_allocation split: option.splits)
    ultimately show ?thesis using 2 by simp
  next
    case (Some i)
    obtain e val where st: "store_json lib (snd (allocation_spec ! i)) v (vals ! i) = (e, val)"
      by (cases "store_json lib (snd (allocation_spec ! i)) v (vals ! i)")
    have e: "e = None"
      using 2(5) none Some st decode_fields_err
      by (auto split: option.splits json_error.splits)
    then have rest: "decode_fields lib allocation_spec ms err (vals[i := val]) = Inr vals'"
      using 2(5) Some st by simp
    have IH: "decode_fields lib base_spec ms err (take 3 (vals[i := val])) = Inr (take 3 vals')"
        "length vals' = 4"
      using 2(2) [OF Some st [symmetric] e rest] 2(6) by simp_all
    show ?thesis
    proof (cases "select_field base_spec k")
      case None
      with Some have "i = 3" by (simp add: select_allocation split: if_splits)
      with None IH show ?thesis by (simp add: take_update_swap list_update_beyond)
    next
      case (Some j)
      with \<open>select_field allocation_spec k = Some i\<close> have j: "j = i" "i < 3"
        by (auto simp: select_allocation dest: select_base_bound)
      then have "allocation_spec ! i = base_spec ! i"
        using length_base_spec by (simp add: allocation_spec_def nth_append)
      with Some st e j IH 2(6) show ?thesis by (simp add: take_update_swap)
    qed
  qed
qed (auto split: option.splits)


lemma decode_base_vals:
  assumes "decode_fields lib base_spec ms err vals = Inr vals'"
    and "vals = [JV_string t, JV_string i, JV_int s]"
  obtains t' i' s' where "vals' = [JV_string t', JV_string i', JV_int s']"
proof -
  have "\<exists>t' i' s'. vals' = [JV_string t', JV_string i', JV_int s']"
    using assms
  proof (induction lib base_spec ms err vals arbitrary: t i s rule: decode_fields.induct)
    case (2 lib k v ms err vals)
    have none: "err = None" using 2(5) decode_fields_err by (cases err) blast+
    show ?case
    proof (cases "select_field base_spec k")
      case None
      with 2 show ?thesis by simp
    next
      case (Some j)
      obtain e val where st: "store_json lib (snd (base_spec ! j)) v (vals ! j) = (e, val)"
        by (cases "store_json lib (snd (base_spec ! j)) v (vals ! j)")
      have e: "e = None"
        using 2(5) none Some st decode_fields_err by (auto split: option.splits json_error.splits)
      then have rest: "decode_fields lib base_spec ms err (vals[j := val]) = Inr vals'"
        using 2(5) Some st by simp
      have "j = 0 \<or> j = 1 \<or> j = 2" using select_base_bound [OF Some] by auto
      then have "\<exists>t i s. vals[j := val] = [JV_string t, JV_string i, JV_int s]"
        using st e 2(6)
        by (auto simp: base_spec_def store_json_def split: json.splits prod.splits option.splits)
      with 2(2) [OF Some st [symmetric] e rest] show ?thesis by blast
    qed
  qed (auto split: option.splits)
  then show ?thesis using that by blast
qed

lemma zero_specs:
  "map (zero_json \<circ> snd) base_spec = [JV_string [], JV_string [], JV_int 0]"
  "map (zero_json \<circ> snd) allocation_spec = [JV_string [], JV_string [], JV_int 0, JV_string []]"
  by (simp_all add: base_spec_def allocation_spec_def)

lemma unmarshal_allocation_base:
  assumes "decode_struct lib base_spec v = Inr (Some vals)"
    and "decode_struct lib allocation_spec v = Inr (Some vals')"
  shows "to_base_event vals' = to_base_event vals"
proof -
  obtain ms where v: "v = JObject ms" using assms(1) by (auto simp: decode_struct_def split: json.splits)
  let ?z = "map (zero_json \<circ> snd)"
  have b: "decode_fields lib base_spec ms None (?z base_spec) = Inr vals"
    and a: "decode_fields lib allocation_spec ms None (?z allocation_spec) = Inr vals'"
    using assms v by (simp_all add: decode_struct_def rbind_eq_Inr)
  have "length (?z allocation_spec) = 4" "take 3 (?z allocation_spec) = ?z base_spec"
    by (simp_all add: allocation_spec_def base_spec_def)
  with decode_allocation_base [OF a] b have eq: "vals = take 3 vals'" "length vals' = 4" by auto
  obtain t i s where "vals = [JV_string t, JV_string i, JV_int s]"
    using decode_base_vals [OF b zero_specs(1)] by blast
  with eq show ?thesis
    by (cases vals'; cases "tl vals'"; cases "tl (tl vals')") auto
qed

section \<open>Encoding\<close>

text \<open>What the daemon publishes for an event.\<close>

fun event_json :: "event \<Rightarrow> json" where
  "event_json (BaseEvent b) = JObject
     [(''EventType'', JString (Typ b)), (''EventID'', JString (EventID b)),
      (''ServerID'', JNumber (int_dec (EventServerID b)))]"
| "event_json (AllocateEvent b i) = JObject
     [(''EventType'', JString (Typ b)), (''EventID'', JString (EventID b)),
      (''ServerID'', JNumber (int_dec (EventServerID b))), (''AllocationID'', JString i)]"
| "event_json (DeallocateEvent b i) = JObject
     [(''EventType'', JString (Typ b)), (''EventID'', JString (EventID b)),
      (''ServerID'', JNumber (int_dec (EventServerID b))), (''AllocationID'', JString i)]"

fun event_base :: "event \<Rightarrow> base_event" where
  "event_base (AllocateEvent b i) = b"
| "event_base (DeallocateEvent b i) = b"
| "event_base (BaseEvent b) = b"

text \<open>The constructor agrees with the type tag.\<close>

definition event_typed :: "event \<Rightarrow> bool" where
  "event_typed e =
     (case e of
        AllocateEvent b i \<Rightarrow> Typ b = AllocateEventType
      | DeallocateEvent b i \<Rightarrow> Typ b = DeallocateEventType
      | BaseEvent b \<Rightarrow> Typ b \<noteq> AllocateEventType \<and> Typ b \<noteq> DeallocateEventType)"

definition int64_range :: "int \<Rightarrow> bool" where
  "int64_range i \<longleftrightarrow> - (2 ^ 63) \<le> i \<and> i < 2 ^ 63"

lemma event_types_differ [simp]: "DeallocateEventType \<noteq> AllocateEventType"
  by (simp add: AllocateEventType_def DeallocateEventType_def)

lemma unmarshal_typed:
  assumes "unmarshalEvent lib data = Return (Inr e)"
  shows "event_typed e"
proof -
  obtain v vals where v: "data = Inr v" "decode_struct lib base_spec v = Inr (Some vals)"
    using assms by (auto simp: unmarshalEvent_def split: sum.splits option.splits)
  consider (base) "e = BaseEvent (to_base_event vals)" "event_typed e"
    | (alloc) vals' where "decode_struct lib allocation_spec v = Inr (Some vals')"
        "e = AllocateEvent (to_base_event vals') (to_allocation_id vals')"
        "Typ (to_base_event vals) = AllocateEventType"
    | (dealloc) vals' where "decode_struct lib allocation_spec v = Inr (Some vals')"
        "e = DeallocateEvent (to_base_event vals') (to_allocation_id vals')"
        "Typ (to_base_event vals) = DeallocateEventType"
    using assms
    by (auto simp: unmarshalEvent_def v Let_def event_typed_def
        split: sum.splits option.splits if_splits)
  then show ?thesis
  proof cases
    case alloc
    with unmarshal_allocation_base [OF v(2) alloc(1)] show ?thesis by (simp add: event_typed_def)
  next
    case dealloc
    with unmarshal_allocation_base [OF v(2) dealloc(1)] show ?thesis by (simp add: event_typed_def)
  qed
qed

lemma select_names:
  "select_field base_spec ''EventType'' = Some 0" "select_field base_spec ''EventID'' = Some 1"
  "select_field base_spec ''ServerID'' = Some 2" "select_field base_spec ''AllocationID'' = None"
  "select_field allocation_spec ''EventType'' = Some 0"
  "select_field allocation_spec ''EventID'' = Some 1"
  "select_field allocation_spec ''ServerID'' = Some 2"
  "select_field allocation_spec ''AllocationID'' = Some 3"
  by code_simp+

lemma spec_kinds:
  "snd (base_spec ! 0) = JK_string" "snd (base_spec ! Suc 0) = JK_string"
  "snd (base_spec ! 2) = JK_int64"
  "snd (allocation_spec ! 0) = JK_string" "snd (allocation_spec ! Suc 0) = JK_string"
  "snd (allocation_spec ! 2) = JK_int64" "snd (allocation_spec ! 3) = JK_string"
  by (simp_all add: base_spec_def allocation_spec_def)

lemma unmarshal_encoded:
  assumes "event_typed e" and "int64_range (EventServerID (event_base e))"
  shows "unmarshalEvent lib (Inr (event_json e)) = Return (Inr e)"
proof -
  have n: "parse_int64 (int_dec (EventServerID (event_base e))) = (EventServerID (event_base e), None)"
    using assms(2) by (simp add: int64_range_def parse_int64_dec)
  show ?thesis
    using assms(1) n
    by (cases e) (simp_all add: unmarshalEvent_def decode_struct_def select_names store_json_def
        event_typed_def Let_def spec_kinds zero_specs)
qed


section \<open>Properties of the decoding\<close>


text \<open>
  Round trip: the message published for an event decodes to that event, for every server
  id of 64 bits.
\<close>

theorem unmarshal_event_roundtrip:
  assumes "event_typed e" and "int64_range (EventServerID (event_base e))"
  shows "unmarshalEvent lib (Inr (event_json e)) = Return (Inr e)"
  using assms by (rule unmarshal_encoded)

theorem unmarshal_event_roundtrip_witness:
  "unmarshalEvent sample_json_lib (Inr (JObject
     [(''EventType'', JString ''AllocateEventType''), (''EventID'', JString ''e''),
      (''ServerID'', JNumber ''42''), (''AllocationID'', JString ''a'')])) =
   Return (Inr (AllocateEvent \<lparr>Typ = ''AllocateEventType'', EventID = ''e'', EventServerID = 42\<rparr> ''a''))"
proof -
  have d: "int_dec 42 = ''42''" by code_simp
  show ?thesis
    using unmarshal_event_roundtrip [of "AllocateEvent
        \<lparr>Typ = ''AllocateEventType'', EventID = ''e'', EventServerID = 42\<rparr> ''a''" sample_json_lib]
    by (simp add: event_typed_def AllocateEventType_def int64_range_def d)
qed

end
