(* ===== verification/Proxy_Client.thy ===== *)
theory Proxy_Client
  imports Proxy_Event Go_Chan Gsh_Errors
begin

text \<open>
  The file \<open>internal/localproxy/client.go\<close>: the client of the local proxy. The centrifuge
  library (connection, subscriptions, the goroutine that runs the handlers) is not part of the
  repository: the results of its calls are parameters, and the handlers are operations that it
  may call at any time after \<open>Start\<close>. A callback is a parameter too, an identifier that the
  server resolves.
\<close>

section \<open>The client\<close>

record 'cb client =
  wsURL :: go_string
  clientHost :: go_string
  clientServerID :: int
  callbacks :: "event_type \<rightharpoonup> 'cb"
  clientDone :: "unit chan"
  chanSubscribed :: "unit chan"

text \<open>\<open>strings.ReplaceAll(host, "http://", "")\<close>\<close>

function remove_http :: "go_string \<Rightarrow> go_string" where
  "remove_http s =
     (if take 7 s = ''http://'' then remove_http (drop 7 s)
      else case s of [] \<Rightarrow> [] | c # cs \<Rightarrow> c # remove_http cs)"
  by auto
termination
proof (relation "measure length")
  show "(drop 7 s, s) \<in> measure length" if "take 7 s = ''http://''" for s :: go_string
    using that by (cases s) auto
qed auto

declare remove_http.simps [simp del]

definition New_client :: "go_string \<Rightarrow> int \<Rightarrow> 'cb client" where
  "New_client host serverID =
     \<lparr>wsURL = ''ws://'' @ remove_http host @ ''/v1/connection/websocket'',
      clientHost = host, clientServerID = serverID, callbacks = Map.empty,
      clientDone = make_chan 0, chanSubscribed = make_chan 0\<rparr>"

definition RegisterCallback :: "event_type \<Rightarrow> 'cb \<Rightarrow> 'cb client \<Rightarrow> 'cb client" where
  "RegisterCallback ev cb c = c\<lparr>callbacks := (callbacks c)(ev \<mapsto> cb)\<rparr>"

text \<open>\<open>subscribe\<close>: the channel it subscribes to, and the error of one of the two calls.\<close>

record centrifuge_env =
  newSubscription :: "go_string option"
  subscribeCall :: "go_string option"

definition subscription_name :: "'cb client \<Rightarrow> go_string" where
  "subscription_name c = ''server#'' @ int_dec (clientServerID c)"

definition subscribe :: "centrifuge_env \<Rightarrow> 'cb client \<Rightarrow> go_string list \<times> go_string option" where
  "subscribe env c =
     (case newSubscription env of
        Some e \<Rightarrow> ([], Some e)
      | None \<Rightarrow> ([subscription_name c], subscribeCall env))"

text \<open>
  \<open>Start\<close> up to its wait: \<open>Inl\<close> an error, \<open>Inr\<close> the subscriptions made; the caller then waits
  on \<open>chanSubscribed\<close>.
\<close>

definition client_Start ::
  "centrifuge_env \<Rightarrow> go_string option \<Rightarrow> 'cb client \<Rightarrow> go_string + go_string list" where
  "client_Start env connect c =
     (case subscribe env c of
        (subs, Some e) \<Rightarrow> Inl e
      | (subs, None) \<Rightarrow> (case connect of Some e \<Rightarrow> Inl e | None \<Rightarrow> Inr subs))"

text \<open>\<open>Stop\<close>: the error of closing the connection is returned after \<open>done\<close> has been closed.\<close>

definition client_Stop ::
  "go_string option \<Rightarrow> 'cb client \<Rightarrow> ('cb client \<times> go_string option) outcome" where
  "client_Stop close_err c =
     obind (chan_close (clientDone c)) (\<lambda>d. Return (c\<lparr>clientDone := d\<rparr>, close_err))"

section \<open>The handlers\<close>

text \<open>
  \<open>OnPublish\<close>: a message that does not decode is reported if there is room, and otherwise the
  callback registered for the type of the event is to be run on it.
\<close>

definition OnPublish ::
  "json_lib \<Rightarrow> go_string + json \<Rightarrow> 'cb client \<Rightarrow> gsh_error chan \<Rightarrow>
   (gsh_error chan \<times> ('cb \<times> event) option) outcome" where
  "OnPublish lib data c errs =
     obind (unmarshalEvent lib data) (\<lambda>r.
       case r of
         Inl e \<Rightarrow> Return (chan_try_send (UnmarshalEvent e) errs, None)
       | Inr ev \<Rightarrow>
           Return (errs, map_option (\<lambda>cb. (cb, ev)) (callbacks c (event_Type ev))))"

definition OnSubscribeError ::
  "centrifuge_env \<Rightarrow> 'cb client \<Rightarrow> gsh_error chan \<Rightarrow> go_string list \<times> gsh_error chan" where
  "OnSubscribeError env c errs =
     (if isClosed (clientDone c) then ([], errs)
      else case subscribe env c of
        (subs, Some e) \<Rightarrow> (subs, chan_try_send (SubscribeError e) errs)
      | (subs, None) \<Rightarrow> (subs, errs))"

section \<open>Waiting for the subscription\<close>

text \<open>
  \<open>chanSubscribed\<close> is unbuffered: a send in \<open>OnSubscribeSuccess\<close> and the one receive in \<open>Start\<close>
  meet, or wait for each other. The broker may report success any number of times: after each
  reconnection, and after each retry of \<open>OnSubscribeError\<close>.
\<close>

datatype starter = BeforeWait | Waiting | Started

record sub_sys =
  starter :: starter
  sending :: nat
  delivered :: nat

inductive sub_step :: "sub_sys \<Rightarrow> bool \<Rightarrow> sub_sys \<Rightarrow> bool" where
  wait: "starter s = BeforeWait \<Longrightarrow> sub_step s False (s\<lparr>starter := Waiting\<rparr>)"
| success: "sub_step s True (s\<lparr>sending := Suc (sending s)\<rparr>)"
| meet:
    "starter s = Waiting \<Longrightarrow> sending s = Suc n \<Longrightarrow>
     sub_step s False (s\<lparr>starter := Started, sending := n, delivered := Suc (delivered s)\<rparr>)"

code_pred sub_step .

inductive sub_trace :: "sub_sys \<Rightarrow> nat \<Rightarrow> sub_sys \<Rightarrow> bool" where
  begin_trace: "sub_trace s 0 s"
| next_step: "sub_trace s k t \<Longrightarrow> sub_step t b u \<Longrightarrow> sub_trace s (if b then Suc k else k) u"

definition init_sub :: sub_sys where
  "init_sub = \<lparr>starter = BeforeWait, sending = 0, delivered = 0\<rparr>"

definition started_count :: "starter \<Rightarrow> nat" where
  "started_count p = (if p = Started then 1 else 0)"

lemma sub_trace_account:
  "sub_trace s k t \<Longrightarrow> s = init_sub \<Longrightarrow>
   sending t + delivered t = k \<and> delivered t = started_count (starter t)"
proof (induction rule: sub_trace.induct)
  case (next_step s k t b u)
  from next_step.hyps(2) next_step.IH next_step.prems show ?case
    by (cases rule: sub_step.cases) (auto simp: started_count_def)
qed (simp add: init_sub_def started_count_def)

lemma sub_trace_started:
  "sub_trace s k t \<Longrightarrow> starter s = Started \<Longrightarrow> sending t = sending s + k \<and> starter t = Started"
proof (induction rule: sub_trace.induct)
  case (next_step s k t b u)
  from next_step.hyps(2) next_step.IH next_step.prems show ?case by (cases rule: sub_step.cases) auto
qed simp

lemma sub_trace_successes: "\<exists>t. sub_trace init_sub k t \<and> starter t = BeforeWait"
proof (induction k)
  case (Suc k)
  then obtain t where t: "sub_trace init_sub k t" "starter t = BeforeWait" by blast
  from sub_trace.next_step [OF t(1) sub_step.success]
  have "sub_trace init_sub (Suc k) (t\<lparr>sending := Suc (sending t)\<rparr>)" by simp
  with t(2) show ?case by fastforce
qed (auto intro: sub_trace.begin_trace simp: init_sub_def)

section \<open>Facts about the client\<close>

lemma remove_http_plain:
  "remove_http (''http://'' @ h) = remove_http h"
  by (subst remove_http.simps) simp

lemma OnPublish_typed:
  "OnPublish lib data c errs = Return (errs', Some (cb, ev)) \<Longrightarrow>
   event_typed ev \<and> callbacks c (event_Type ev) = Some cb \<and> errs' = errs"
  by (cases "unmarshalEvent lib data")
     (auto simp: OnPublish_def dest: unmarshal_typed split: sum.splits)

lemma client_Stop_twice:
  "client_Stop e c = Return (c', r) \<Longrightarrow> client_Stop e' c' = Panic CloseOfClosedChannel"
  by (auto simp: client_Stop_def chan_close_def split: if_splits)

section \<open>Properties of the client\<close>

text \<open>
  C38. Every subscription success but one is never delivered. In every interleaving, the
  handlers of \<open>OnSubscribeSuccess\<close> that are still blocked in their send are all that have been
  started, minus one if \<open>Start\<close> has returned: once it has, each further success (a
  reconnection) blocks a handler for good.
\<close>

theorem subscribe_success_blocks:
  assumes "sub_trace init_sub k t"
  shows "sending t = (if starter t = Started then k - 1 else k) \<and>
    (starter t = Started \<longrightarrow> 0 < k \<and> (\<forall>u k'. sub_trace t k' u \<longrightarrow> sending u = sending t + k'))"
proof -
  from sub_trace_account [OF assms refl]
  have "sending t + delivered t = k" "delivered t = started_count (starter t)" by simp_all
  then show ?thesis by (auto simp: started_count_def dest: sub_trace_started)
qed

theorem subscribe_success_blocks_witness:
  "\<exists>t. sub_trace init_sub 2 t \<and> starter t = Started \<and> sending t = 1"
proof -
  obtain s where s: "sub_trace init_sub 2 s" "starter s = BeforeWait"
    using sub_trace_successes by blast
  let ?w = "s\<lparr>starter := Waiting\<rparr>"
  have w: "sub_trace init_sub 2 ?w" using sub_trace.next_step [OF s(1) sub_step.wait [OF s(2)]] by simp
  from sub_trace_account [OF s(1) refl] s(2) have "sending ?w = Suc 1"
    by (simp add: started_count_def)
  from sub_trace.next_step [OF w sub_step.meet [OF _ this]]
  have "sub_trace init_sub 2 (?w\<lparr>starter := Started, sending := 1, delivered := Suc (delivered ?w)\<rparr>)"
    by simp
  from subscribe_success_blocks [OF this] this show ?thesis by fastforce
qed

text \<open>
  What a published message makes the client do. A callback is run only on an event whose
  constructor is the one of the type it was registered under; a message that does not decode
  is reported without blocking, whether or not there is room for the report; \<open>null\<close> panics.
\<close>

theorem publish_outcome:
  "OnPublish lib data c errs =
     (case unmarshalEvent lib data of
        Panic p \<Rightarrow> Panic p
      | Return (Inl e) \<Rightarrow>
          Return (if length (waitingVals errs) < chanCap errs
                  then errs\<lparr>waitingVals := waitingVals errs @ [UnmarshalEvent e]\<rparr> else errs, None)
      | Return (Inr (AllocateEvent b i)) \<Rightarrow>
          Return (errs, map_option (\<lambda>cb. (cb, AllocateEvent b i)) (callbacks c AllocateEventType))
      | Return (Inr (DeallocateEvent b i)) \<Rightarrow>
          Return (errs, map_option (\<lambda>cb. (cb, DeallocateEvent b i)) (callbacks c DeallocateEventType))
      | Return (Inr (BaseEvent b)) \<Rightarrow>
          Return (errs, map_option (\<lambda>cb. (cb, BaseEvent b)) (callbacks c (Typ b))))"
proof (cases "unmarshalEvent lib data")
  case (Return r)
  show ?thesis
  proof (cases r)
    case (Inr e)
    from unmarshal_typed [OF Return [unfolded Inr]] Return Inr show ?thesis
      by (cases e) (simp_all add: OnPublish_def event_typed_def)
  qed (simp add: Return OnPublish_def chan_defs)
qed (simp add: OnPublish_def)

end
