(* ===== verification/Proxy_Http.thy ===== *)
theory Proxy_Http
  imports Proxy_Client
begin

text \<open>
  The HTTP operations of the local proxy client (\<open>reserve.go\<close>, \<open>unreserve.go\<close>, \<open>hold.go\<close>,
  \<open>release.go\<close>, \<open>allocation.go\<close>, \<open>error.go\<close> of \<open>internal/localproxy\<close>) and the models they exchange
  (\<open>server/model\<close>).

  The network is a parameter: what \<open>NewRequest\<close> and the UUID generator return, and what
  \<open>httpClient.Do\<close> returns for the request it is given. A response carries the outcome of reading its body to the end and of scanning it as
  JSON. The result of an operation comes with the trace of its effects: the request sent and the
  closing of the response body. A request body is its JSON value; encoding the argument structs
  cannot fail.
\<close>

section \<open>Requests, responses, models\<close>

record http_request =
  reqMethod :: go_string
  reqURL :: go_string
  reqHeaders :: "(go_string \<times> go_string) list"
  reqBody :: "json option"

record http_response =
  statusCode :: int
  bodyBytes :: "go_string + go_string"
  bodyJson :: "go_string + json"

record http_env =
  newRequestErr :: "go_string option"
  newUUID :: "go_string option"
  doRequest :: "http_request \<Rightarrow> go_string + http_response"

datatype http_effect = Sent http_request | BodyClosed

record HoldRequest =
  HoldTimeout :: go_string

record HoldStatus =
  ExpiresAt :: int
  Held :: bool

record PatchAllocationRequest =
  Ready :: bool

record ReserveResponse =
  BuildConfigurationID :: int
  Created :: time
  Fulfilled :: time
  ReservedPort :: int
  Ipv4 :: "go_string option"
  Ipv6 :: "go_string option"
  Requested :: time
  ReservationID :: go_string

definition hold_spec :: json_struct where
  "hold_spec = [(''expiresAt'', JK_int64), (''held'', JK_bool)]"

definition reserve_spec :: json_struct where
  "reserve_spec = [(''buildConfigurationId'', JK_int64), (''created'', JK_time), (''fulfilled'', JK_time),
     (''gamePort'', JK_int64), (''ipv4'', JK_string_ptr), (''ipv6'', JK_string_ptr),
     (''requested'', JK_time), (''reservationId'', JK_string)]"

definition to_hold_status :: "json_val list \<Rightarrow> HoldStatus" where
  "to_hold_status vs = \<lparr>ExpiresAt = jv_int (vs ! 0), Held = jv_bool (vs ! 1)\<rparr>"

definition to_reserve_response :: "json_val list \<Rightarrow> ReserveResponse" where
  "to_reserve_response vs =
     \<lparr>BuildConfigurationID = jv_int (vs ! 0), Created = jv_time (vs ! 1), Fulfilled = jv_time (vs ! 2),
      ReservedPort = jv_int (vs ! 3), Ipv4 = jv_string_ptr (vs ! 4), Ipv6 = jv_string_ptr (vs ! 5),
      Requested = jv_time (vs ! 6), ReservationID = jv_string (vs ! 7)\<rparr>"

section \<open>Errors\<close>

definition NewUnexpectedResponseWithBody :: "go_string \<Rightarrow> int \<Rightarrow> go_string \<Rightarrow> proxy_error" where
  "NewUnexpectedResponseWithBody requestID status body = UnexpectedResponseError requestID status body"

definition NewUnexpectedResponseWithError :: "go_string \<Rightarrow> int \<Rightarrow> go_string \<Rightarrow> proxy_error" where
  "NewUnexpectedResponseWithError requestID status err = UnexpectedResponseError requestID status err"

definition unexpected_Error :: "go_string \<Rightarrow> int \<Rightarrow> go_string \<Rightarrow> go_string" where
  "unexpected_Error requestID status body =
     ''unexpected response from local proxy, request ID: '' @ requestID @ '', status: '' @
     int_dec status @ '', error: '' @ body"

section \<open>One exchange\<close>

text \<open>
  The lines that the operations share: the request with its id (the zero UUID if none can be
  generated), the exchange, the deferred closing of the body, the check of the status.
\<close>

definition request_id :: "http_env \<Rightarrow> go_string" where
  "request_id env =
     (case newUUID env of None \<Rightarrow> ''00000000-0000-0000-0000-000000000000'' | Some u \<Rightarrow> u)"

definition make_request :: "http_env \<Rightarrow> go_string \<Rightarrow> go_string \<Rightarrow> json option \<Rightarrow> http_request" where
  "make_request env meth url body =
     \<lparr>reqMethod = meth, reqURL = url, reqHeaders = [(''X-Request-ID'', request_id env)], reqBody = body\<rparr>"

definition unexpected_response :: "go_string \<Rightarrow> http_response \<Rightarrow> proxy_error" where
  "unexpected_response rid resp =
     (case bodyBytes resp of
        Inl readErr \<Rightarrow> NewUnexpectedResponseWithError rid (statusCode resp) readErr
      | Inr body \<Rightarrow> NewUnexpectedResponseWithBody rid (statusCode resp) body)"

definition proxy_call ::
  "http_env \<Rightarrow> go_string \<Rightarrow> go_string \<Rightarrow> json option \<Rightarrow> int \<Rightarrow> (http_response \<Rightarrow> proxy_error + 'a) \<Rightarrow>
   http_effect list \<times> (proxy_error + 'a)" where
  "proxy_call env meth url body status finish =
     (case newRequestErr env of
        Some e \<Rightarrow> ([], Inl (CreatingRequest e))
      | None \<Rightarrow>
          (let req = make_request env meth url body in
           case doRequest env req of
             Inl e \<Rightarrow> ([Sent req], Inl (MakingRequest e))
           | Inr resp \<Rightarrow>
               ([Sent req, BodyClosed],
                if statusCode resp \<noteq> status then Inl (unexpected_response (request_id env) resp)
                else finish resp)))"

text \<open>\<open>Decode(&body)\<close> for a nil pointer: the body \<open>null\<close> leaves it nil, without an error.\<close>

definition decode_body ::
  "json_lib \<Rightarrow> json_struct \<Rightarrow> (json_val list \<Rightarrow> 'a) \<Rightarrow> http_response \<Rightarrow> proxy_error + 'a option" where
  "decode_body lib spec conv resp =
     (case bodyJson resp of
        Inl e \<Rightarrow> Inl (DecodingResponse (JsonSyntax e))
      | Inr v \<Rightarrow>
          (case decode_struct lib spec v of
             Inl e \<Rightarrow> Inl (DecodingResponse e)
           | Inr vals \<Rightarrow> Inr (map_option conv vals)))"

section \<open>The operations\<close>

definition server_url :: "'cb client \<Rightarrow> go_string \<Rightarrow> go_string" where
  "server_url c path = clientHost c @ ''/v1/servers/'' @ int_dec (clientServerID c) @ path"

text \<open>\<open>args\<close> is a pointer: a nil one is encoded as \<open>null\<close>.\<close>

definition ReserveSelf ::
  "json_lib \<Rightarrow> http_env \<Rightarrow> unit option \<Rightarrow> 'cb client \<Rightarrow>
   http_effect list \<times> (proxy_error + ReserveResponse option)" where
  "ReserveSelf lib env args c =
     proxy_call env ''POST'' (server_url c ''/reservations'')
       (Some (case args of None \<Rightarrow> JNull | Some _ \<Rightarrow> JObject [])) 200
       (decode_body lib reserve_spec to_reserve_response)"

definition UnreserveSelf :: "http_env \<Rightarrow> 'cb client \<Rightarrow> http_effect list \<times> (proxy_error + unit)" where
  "UnreserveSelf env c =
     proxy_call env ''DELETE'' (server_url c ''/reservations'') (Some (JObject [])) 204 (\<lambda>_. Inr ())"

definition HoldSelf ::
  "json_lib \<Rightarrow> http_env \<Rightarrow> HoldRequest option \<Rightarrow> 'cb client \<Rightarrow>
   http_effect list \<times> (proxy_error + HoldStatus option)" where
  "HoldSelf lib env args c =
     proxy_call env ''POST'' (server_url c ''/hold'')
       (Some (case args of
                None \<Rightarrow> JNull
              | Some a \<Rightarrow> JObject [(''timeout'', JString (HoldTimeout a))])) 200
       (decode_body lib hold_spec to_hold_status)"

definition proxy_HoldStatus ::
  "json_lib \<Rightarrow> http_env \<Rightarrow> 'cb client \<Rightarrow> http_effect list \<times> (proxy_error + HoldStatus option)" where
  "proxy_HoldStatus lib env c =
     proxy_call env ''GET'' (server_url c ''/hold'') None 200
       (decode_body lib hold_spec to_hold_status)"

definition ReleaseSelf :: "http_env \<Rightarrow> 'cb client \<Rightarrow> http_effect list \<times> (proxy_error + unit)" where
  "ReleaseSelf env c = proxy_call env ''DELETE'' (server_url c ''/hold'') None 204 (\<lambda>_. Inr ())"

definition PatchAllocation ::
  "http_env \<Rightarrow> go_string \<Rightarrow> PatchAllocationRequest \<Rightarrow> 'cb client \<Rightarrow>
   http_effect list \<times> (proxy_error + unit)" where
  "PatchAllocation env allocationID args c =
     proxy_call env ''PATCH'' (server_url c (''/allocations/'' @ allocationID))
       (Some (JObject [(''ready'', JBool (Ready args))])) 204 (\<lambda>_. Inr ())"


section \<open>The contract of an HTTP operation\<close>

text \<open>
  What the operations promise about the network: nothing is sent when the request cannot be
  built, one request is sent otherwise, the body of a response is closed whatever its status,
  and another status than the expected one is an error.
\<close>

locale http_endpoint =
  fixes call :: "http_env \<Rightarrow> http_effect list \<times> ('e + 'a)"
    and request :: "http_env \<Rightarrow> http_request"
    and expected :: int
  assumes not_created: "newRequestErr env = Some e \<Longrightarrow> fst (call env) = [] \<and> isl (snd (call env))"
    and no_response: "newRequestErr env = None \<Longrightarrow> doRequest env (request env) = Inl e' \<Longrightarrow>
        fst (call env) = [Sent (request env)] \<and> isl (snd (call env))"
    and response: "newRequestErr env = None \<Longrightarrow> doRequest env (request env) = Inr resp \<Longrightarrow>
        fst (call env) = [Sent (request env), BodyClosed]"
    and unexpected: "newRequestErr env = None \<Longrightarrow> doRequest env (request env) = Inr resp \<Longrightarrow>
        statusCode resp \<noteq> expected \<Longrightarrow> isl (snd (call env))"
begin

lemma at_most_one_request:
  "fst (call env) = [] \<or> fst (call env) = [Sent (request env)] \<or>
   fst (call env) = [Sent (request env), BodyClosed]"
  by (cases "newRequestErr env"; cases "doRequest env (request env)")
     (auto simp: not_created no_response response)

text \<open>No response body is left open.\<close>

lemma body_closed:
  "count_list (fst (call env)) BodyClosed =
     (if newRequestErr env = None \<and> \<not> isl (doRequest env (request env)) then 1 else 0)"
  by (cases "newRequestErr env"; cases "doRequest env (request env)")
     (auto simp: not_created no_response response)

lemma success:
  assumes "call env = (effs, Inr a)"
  shows "\<exists>resp. newRequestErr env = None \<and> doRequest env (request env) = Inr resp \<and>
    statusCode resp = expected \<and> effs = [Sent (request env), BodyClosed]"
proof -
  have s: "snd (call env) = Inr a" "fst (call env) = effs" using assms by simp_all
  have n: "newRequestErr env = None"
    using not_created [of env] s(1) by (cases "newRequestErr env") auto
  obtain resp where r: "doRequest env (request env) = Inr resp"
    using no_response [OF n] s(1) by (cases "doRequest env (request env)") auto
  have "statusCode resp = expected"
    using unexpected [OF n r] s(1) by auto
  with n r response [OF n r] s(2) show ?thesis by auto
qed

end

lemma proxy_call_endpoint:
  "http_endpoint (\<lambda>env. proxy_call env meth url body status finish)
     (\<lambda>env. make_request env meth url body) status"
  by unfold_locales (simp_all add: proxy_call_def Let_def)

interpretation reserve: http_endpoint "\<lambda>env. ReserveSelf lib env args c"
    "\<lambda>env. make_request env ''POST'' (server_url c ''/reservations'')
       (Some (case args of None \<Rightarrow> JNull | Some _ \<Rightarrow> JObject []))" 200
  unfolding ReserveSelf_def by (rule proxy_call_endpoint)

interpretation unreserve: http_endpoint "\<lambda>env. UnreserveSelf env c"
    "\<lambda>env. make_request env ''DELETE'' (server_url c ''/reservations'') (Some (JObject []))" 204
  unfolding UnreserveSelf_def by (rule proxy_call_endpoint)

interpretation hold: http_endpoint "\<lambda>env. HoldSelf lib env args c"
    "\<lambda>env. make_request env ''POST'' (server_url c ''/hold'')
       (Some (case args of None \<Rightarrow> JNull | Some a \<Rightarrow> JObject [(''timeout'', JString (HoldTimeout a))]))" 200
  unfolding HoldSelf_def by (rule proxy_call_endpoint)

interpretation hold_status: http_endpoint "\<lambda>env. proxy_HoldStatus lib env c"
    "\<lambda>env. make_request env ''GET'' (server_url c ''/hold'') None" 200
  unfolding proxy_HoldStatus_def by (rule proxy_call_endpoint)

interpretation release: http_endpoint "\<lambda>env. ReleaseSelf env c"
    "\<lambda>env. make_request env ''DELETE'' (server_url c ''/hold'') None" 204
  unfolding ReleaseSelf_def by (rule proxy_call_endpoint)

interpretation patch_allocation: http_endpoint "\<lambda>env. PatchAllocation env i args c"
    "\<lambda>env. make_request env ''PATCH'' (server_url c (''/allocations/'' @ i))
       (Some (JObject [(''ready'', JBool (Ready args))]))" 204
  unfolding PatchAllocation_def by (rule proxy_call_endpoint)

section \<open>The interface as a table\<close>

text \<open>The six operations, what each is to send, and the status it is to wait for.\<close>

datatype endpoint =
    E_reserve "unit option"
  | E_unreserve
  | E_hold "HoldRequest option"
  | E_hold_status
  | E_release
  | E_patch go_string PatchAllocationRequest

definition error_of :: "'e + 'a \<Rightarrow> 'e option" where
  "error_of r = (case r of Inl e \<Rightarrow> Some e | Inr _ \<Rightarrow> None)"

primrec run_endpoint ::
  "json_lib \<Rightarrow> http_env \<Rightarrow> 'cb client \<Rightarrow> endpoint \<Rightarrow> http_effect list \<times> proxy_error option" where
  "run_endpoint lib env c (E_reserve a) = map_prod id error_of (ReserveSelf lib env a c)"
| "run_endpoint lib env c E_unreserve = map_prod id error_of (UnreserveSelf env c)"
| "run_endpoint lib env c (E_hold a) = map_prod id error_of (HoldSelf lib env a c)"
| "run_endpoint lib env c E_hold_status = map_prod id error_of (proxy_HoldStatus lib env c)"
| "run_endpoint lib env c E_release = map_prod id error_of (ReleaseSelf env c)"
| "run_endpoint lib env c (E_patch i a) = map_prod id error_of (PatchAllocation env i a c)"

primrec endpoint_line :: "endpoint \<Rightarrow> go_string \<times> go_string \<times> int" where
  "endpoint_line (E_reserve a) = (''POST'', ''/reservations'', 200)"
| "endpoint_line E_unreserve = (''DELETE'', ''/reservations'', 204)"
| "endpoint_line (E_hold a) = (''POST'', ''/hold'', 200)"
| "endpoint_line E_hold_status = (''GET'', ''/hold'', 200)"
| "endpoint_line E_release = (''DELETE'', ''/hold'', 204)"
| "endpoint_line (E_patch i a) = (''PATCH'', ''/allocations/'' @ i, 204)"

definition sent_as :: "http_env \<Rightarrow> 'cb client \<Rightarrow> endpoint \<Rightarrow> http_request \<Rightarrow> bool" where
  "sent_as env c ep req \<longleftrightarrow>
     (case endpoint_line ep of (meth, path, status) \<Rightarrow>
        reqMethod req = meth \<and>
        reqURL req = clientHost c @ ''/v1/servers/'' @ int_dec (clientServerID c) @ path \<and>
        reqHeaders req = [(''X-Request-ID'', request_id env)])"

lemma error_of_simps [simp]:
  "error_of (Inl e) = Some e" "error_of (Inr a) = None" "error_of r = None \<longleftrightarrow> \<not> isl r"
  by (cases r; simp add: error_of_def)+

lemmas endpoint_defs = ReserveSelf_def UnreserveSelf_def HoldSelf_def proxy_HoldStatus_def
  ReleaseSelf_def PatchAllocation_def

lemma proxy_call_unexpected:
  "newRequestErr env = None \<Longrightarrow> doRequest env (make_request env meth url body) = Inr resp \<Longrightarrow> statusCode resp \<noteq> status \<Longrightarrow>
   proxy_call env meth url body status finish =
     ([Sent (make_request env meth url body), BodyClosed],
      Inl (UnexpectedResponseError (request_id env) (statusCode resp)
        (case bodyBytes resp of Inl e \<Rightarrow> e | Inr b \<Rightarrow> b)))"
  by (simp add: proxy_call_def Let_def unexpected_response_def NewUnexpectedResponseWithError_def
      NewUnexpectedResponseWithBody_def split: sum.splits)

lemma sent_as_request [simp]:
  "sent_as env c ep (make_request env meth (server_url c path) body) \<longleftrightarrow>
     (\<exists>status. endpoint_line ep = (meth, path, status))"
  by (cases "endpoint_line ep") (auto simp: sent_as_def make_request_def server_url_def)

lemma error_of_NoneE: "map_prod id error_of r = (effs, None) \<Longrightarrow> \<exists>a. r = (effs, Inr a)"
  by (cases r; cases "snd r") auto

text \<open>The hold status a proxy answers with, and the members it may add.\<close>

definition hold_json :: "HoldStatus \<Rightarrow> (go_string \<times> json) list" where
  "hold_json h = [(''expiresAt'', JNumber (int_dec (ExpiresAt h))), (''held'', JBool (Held h))]"

lemma decode_fields_skip:
  "list_all (\<lambda>m. select_field spec (fst m) = None) xs \<Longrightarrow>
   decode_fields lib spec (xs @ ms) err vals = decode_fields lib spec ms err vals"
  by (induction xs) auto

lemma hold_names:
  "select_field hold_spec ''expiresAt'' = Some 0" "select_field hold_spec ''held'' = Some 1"
  by code_simp+

lemma decode_hold:
  assumes "int64_range (ExpiresAt h)" and "list_all (\<lambda>m. select_field hold_spec (fst m) = None) xs"
    and "bodyJson resp = Inr (JObject (xs @ hold_json h))"
  shows "decode_body lib hold_spec to_hold_status resp = Inr (Some h)"
proof -
  have "parse_int64 (int_dec (ExpiresAt h)) = (ExpiresAt h, None)"
    using assms(1) by (simp add: int64_range_def parse_int64_dec)
  moreover have "map (zero_json \<circ> snd) hold_spec = [JV_int 0, JV_bool False]"
      "snd (hold_spec ! 0) = JK_int64" "snd (hold_spec ! Suc 0) = JK_bool"
    by (simp_all add: hold_spec_def)
  ultimately show ?thesis
    by (simp add: decode_body_def assms(3) decode_struct_def decode_fields_skip [OF assms(2)]
        hold_json_def hold_names store_json_def to_hold_status_def)
qed

section \<open>Properties of the HTTP operations\<close>

text \<open>
  C39. An operation of the local proxy that succeeds has sent exactly one request, with the
  method, the URL and the request id of its endpoint, has received the status the endpoint
  waits for, and has closed the body of the response.
\<close>

theorem proxy_success:
  assumes "run_endpoint lib env c ep = (effs, None)"
  shows "\<exists>req resp. effs = [Sent req, BodyClosed] \<and> sent_as env c ep req \<and>
    doRequest env req = Inr resp \<and> statusCode resp = snd (snd (endpoint_line ep))"
  using assms
  by (cases ep)
     (auto dest!: error_of_NoneE reserve.success unreserve.success hold.success
       hold_status.success release.success patch_allocation.success)

theorem proxy_success_witness:
  "\<exists>req. run_endpoint sample_json_lib
      \<lparr>newRequestErr = None, newUUID = None,
       doRequest = \<lambda>req. Inr \<lparr>statusCode = 204, bodyBytes = Inr [], bodyJson = Inl ''EOF''\<rparr>\<rparr>
      (New_client ''http://h'' 1 :: unit client) E_release = ([Sent req, BodyClosed], None) \<and>
    reqURL req = ''http://h/v1/servers/1/hold''"
proof -
  let ?env = "\<lparr>newRequestErr = None, newUUID = None,
       doRequest = \<lambda>req. Inr \<lparr>statusCode = 204, bodyBytes = Inr [], bodyJson = Inl ''EOF''\<rparr>\<rparr>"
  let ?c = "New_client ''http://h'' 1 :: unit client"
  obtain effs where r: "run_endpoint sample_json_lib ?env ?c E_release = (effs, None)"
    by (simp add: ReleaseSelf_def proxy_call_def Let_def)
  have "int_dec 1 = ''1''" by code_simp
  with r proxy_success [OF r] show ?thesis
    by (auto simp: sent_as_def New_client_def)
qed

text \<open>
  A response with another status than the endpoint waits for is reported with the request
  id that was sent in the header, the status, and the body, or the error of reading it; the
  body is closed.
\<close>

theorem proxy_unexpected_status:
  assumes "newRequestErr env = None" and "\<And>req. sent_as env c ep req \<Longrightarrow> doRequest env req = Inr resp"
    and "statusCode resp \<noteq> snd (snd (endpoint_line ep))"
  shows "\<exists>req. run_endpoint lib env c ep = ([Sent req, BodyClosed],
      Some (UnexpectedResponseError (request_id env) (statusCode resp)
        (case bodyBytes resp of Inl e \<Rightarrow> e | Inr b \<Rightarrow> b))) \<and>
    sent_as env c ep req"
  using assms by (cases ep) (auto simp: endpoint_defs proxy_call_unexpected)

theorem proxy_unexpected_status_witness:
  "\<exists>req. run_endpoint sample_json_lib
      \<lparr>newRequestErr = None, newUUID = Some ''u'',
       doRequest = \<lambda>req. Inr \<lparr>statusCode = 500, bodyBytes = Inr ''busy'', bodyJson = Inl ''EOF''\<rparr>\<rparr>
      (New_client ''http://h'' 1 :: unit client) (E_hold None) = ([Sent req, BodyClosed],
        Some (UnexpectedResponseError ''u'' 500 ''busy'')) \<and>
    reqHeaders req = [(''X-Request-ID'', ''u'')]"
  using proxy_unexpected_status [where env = "\<lparr>newRequestErr = None, newUUID = Some ''u'',
       doRequest = \<lambda>req. Inr \<lparr>statusCode = 500, bodyBytes = Inr ''busy'', bodyJson = Inl ''EOF''\<rparr>\<rparr>"
      and resp = "\<lparr>statusCode = 500, bodyBytes = Inr ''busy'', bodyJson = Inl ''EOF''\<rparr>" and ep = "E_hold None"
      and lib = sample_json_lib and c = "New_client ''http://h'' 1 :: unit client"]
  by (auto simp: sent_as_def request_id_def)

text \<open>
  The hold status of a successful answer reaches the caller unchanged, for every 64-bit
  expiry and whatever unknown members the proxy adds; the answer \<open>null\<close> gives neither a status
  nor an error.
\<close>

theorem hold_status_roundtrip:
  assumes "newRequestErr env = None" and "\<And>req. doRequest env req = Inr resp" and "statusCode resp = 200"
    and "bodyJson resp = Inr (case h of
      None \<Rightarrow> JNull
    | Some s \<Rightarrow> JObject (xs @ hold_json s))"
    and "list_all (\<lambda>m. select_field hold_spec (fst m) = None) xs"
    and "pred_option (\<lambda>s. int64_range (ExpiresAt s)) h"
  shows "snd (HoldSelf lib env args c) = Inr h \<and> snd (proxy_HoldStatus lib env c) = Inr h"
proof -
  have "decode_body lib hold_spec to_hold_status resp = Inr h"
    using assms(4-6) decode_hold by (cases h) (auto simp: decode_body_def decode_struct_def)
  with assms(1-3) show ?thesis
    by (simp add: HoldSelf_def proxy_HoldStatus_def proxy_call_def Let_def)
qed

theorem hold_status_roundtrip_witness:
  "snd (proxy_HoldStatus sample_json_lib
      \<lparr>newRequestErr = None, newUUID = None,
       doRequest = \<lambda>req. Inr \<lparr>statusCode = 200, bodyBytes = Inr [],
         bodyJson = Inr (JObject [(''expiresAt'', JNumber ''7''), (''held'', JBool True)])\<rparr>\<rparr>
      (New_client ''http://h'' 1 :: unit client)) = Inr (Some \<lparr>ExpiresAt = 7, Held = True\<rparr>)"
proof -
  have d: "int_dec 7 = ''7''" by code_simp
  show ?thesis
    using hold_status_roundtrip [of "\<lparr>newRequestErr = None, newUUID = None,
       doRequest = \<lambda>req. Inr \<lparr>statusCode = 200, bodyBytes = Inr [],
         bodyJson = Inr (JObject [(''expiresAt'', JNumber ''7''), (''held'', JBool True)])\<rparr>\<rparr>"
       "\<lparr>statusCode = 200, bodyBytes = Inr [],
         bodyJson = Inr (JObject [(''expiresAt'', JNumber ''7''), (''held'', JBool True)])\<rparr>"
       "[]" "Some \<lparr>ExpiresAt = 7, Held = True\<rparr>" sample_json_lib None
       "New_client ''http://h'' 1 :: unit client"]
    by (simp add: hold_json_def d int64_range_def)
qed

end
