(* ===== verification/Responder_Contract.thy ===== *)
theory Responder_Contract
  imports Challenge_Contract
begin

text \<open>
  The interface \<open>proto.QueryResponder\<close>, which the query loop of the server drives without
  knowing the protocol behind it, as a locale: the contract is that every answer is a step of
  the challenge ledger. The client fact holds for any sequence of requests from any clients,
  with challenges dropped in between by purges: no address is sent more info packets than
  challenge packets. A client with a forged source address therefore cannot use the server
  to flood that address with info packets.
\<close>

section \<open>Counting answers\<close>

definition issues_to :: "go_string \<Rightarrow> ledger_event list \<Rightarrow> nat" where
  "issues_to a evs = length (filter (\<lambda>e. case e of Issued b v \<Rightarrow> b = a | _ \<Rightarrow> False) evs)"

definition accepts_from :: "go_string \<Rightarrow> ledger_event list \<Rightarrow> nat" where
  "accepts_from a evs = length (filter (\<lambda>e. case e of Accepted b v \<Rightarrow> b = a | _ \<Rightarrow> False) evs)"

lemma count_simps [simp]:
  "issues_to a [] = 0" "accepts_from a [] = 0"
  "issues_to a (xs @ ys) = issues_to a xs + issues_to a ys"
  "accepts_from a (xs @ ys) = accepts_from a xs + accepts_from a ys"
  "issues_to a [Issued b v] = (if b = a then 1 else 0)"
  "issues_to a [Accepted b v] = 0" "issues_to a [Refused b] = 0"
  "accepts_from a [Accepted b v] = (if b = a then 1 else 0)"
  "accepts_from a [Issued b v] = 0" "accepts_from a [Refused b] = 0"
  by (simp_all add: issues_to_def accepts_from_def)

definition waiting :: "ledger \<Rightarrow> go_string \<Rightarrow> nat" where
  "waiting l a = (if l a = None then 0 else 1)"

lemma ledger_step_balance:
  "ledger_step l x = (l', evs) \<Longrightarrow>
   accepts_from a evs + waiting l' a \<le> issues_to a evs + waiting l a"
  by (cases x) (auto simp: waiting_def split: if_splits)

lemma ledger_run_balance:
  "ledger_run l xs = (l', evs) \<Longrightarrow>
   accepts_from a evs + waiting l' a \<le> issues_to a evs + waiting l a"
proof (induction xs arbitrary: l evs)
  case (Cons x xs)
  obtain l1 e1 where s: "ledger_step l x = (l1, e1)" by fastforce
  obtain l2 e2 where r: "ledger_run l1 xs = (l2, e2)" by fastforce
  from Cons.prems s r have eq: "l' = l2" "evs = e1 @ e2" by auto
  with ledger_step_balance [OF s, of a] Cons.IH [OF r [folded eq(1)]] show ?case by simp
qed simp

lemma ledger_reach_balance:
  "ledger_reach l evs l' \<Longrightarrow>
   accepts_from a evs + waiting l' a \<le> issues_to a evs + waiting l a"
  unfolding ledger_reach_def using ledger_run_balance by blast

section \<open>Traffic\<close>

text \<open>
  A request carries what the call reads from outside (state, clock and random bytes, address,
  buffer). \<open>Purged a\<close> is the deletion of \<open>a\<close>'s challenge by a purge goroutine. \<open>serve\<close> gives
  the packets sent, with the address each is sent to.
\<close>

datatype ('st, 'env) traffic = Request 'st 'env go_string "byte slice" | Purged go_string

type_synonym ('st, 'env, 'q, 'g, 'e) responder =
  "'st \<Rightarrow> 'env \<Rightarrow> 'q \<Rightarrow> go_string \<Rightarrow> byte slice \<Rightarrow> ('q \<times> 'g \<times> ('e + byte list)) outcome"

fun serve ::
  "('st, 'env, 'q, 'g, 'e) responder \<Rightarrow> (go_string \<Rightarrow> 'q \<Rightarrow> 'q) \<Rightarrow> 'q \<Rightarrow> ('st, 'env) traffic list \<Rightarrow>
   ('q \<times> (go_string \<times> byte list) list) outcome" where
  "serve respond forget q [] = Return (q, [])"
| "serve respond forget q (Purged a # ts) = serve respond forget (forget a q) ts"
| "serve respond forget q (Request st env a buf # ts) =
     obind (respond st env q a buf) (\<lambda>(q1, g, r).
       obind (serve respond forget q1 ts) (\<lambda>(q2, sent).
         Return (q2, (case r of Inl e \<Rightarrow> [] | Inr resp \<Rightarrow> [(a, resp)]) @ sent)))"

definition challenge_packets :: "(byte list \<Rightarrow> bool) \<Rightarrow> go_string \<Rightarrow> (go_string \<times> byte list) list \<Rightarrow> nat" where
  "challenge_packets is_challenge a sent = length (filter (\<lambda>(b, p). b = a \<and> is_challenge p) sent)"

definition info_packets :: "(byte list \<Rightarrow> bool) \<Rightarrow> go_string \<Rightarrow> (go_string \<times> byte list) list \<Rightarrow> nat" where
  "info_packets is_challenge a sent = length (filter (\<lambda>(b, p). b = a \<and> \<not> is_challenge p) sent)"

section \<open>The contract\<close>

locale query_responder =
  fixes pending :: "'q \<Rightarrow> ledger"
    and respond :: "('st, 'env, 'q, 'g, 'e) responder"
    and forget :: "go_string \<Rightarrow> 'q \<Rightarrow> 'q"
    and is_challenge :: "byte list \<Rightarrow> bool"
  assumes respond_error:
      "respond st env q a buf = Return (q', g, Inl e) \<Longrightarrow>
       \<exists>evs. ledger_reach (pending q) evs (pending q') \<and> issues_to b evs = 0 \<and> accepts_from b evs = 0"
    and respond_challenge:
      "respond st env q a buf = Return (q', g, Inr p) \<Longrightarrow> is_challenge p \<Longrightarrow>
       \<exists>v. ledger_reach (pending q) [Issued a v] (pending q')"
    and respond_info:
      "respond st env q a buf = Return (q', g, Inr p) \<Longrightarrow> \<not> is_challenge p \<Longrightarrow>
       \<exists>v. ledger_reach (pending q) [Accepted a v] (pending q')"
    and forget_reaches: "ledger_reach (pending q) [] (pending (forget a q))"
begin

text \<open>One answer, as a step of the ledger that counts as the packet does.\<close>

lemma respond_reaches:
  assumes "respond st env q a buf = Return (q', g, r)"
  shows "\<exists>evs. ledger_reach (pending q) evs (pending q') \<and>
     issues_to b evs = challenge_packets is_challenge b (case r of Inl e \<Rightarrow> [] | Inr p \<Rightarrow> [(a, p)]) \<and>
     accepts_from b evs = info_packets is_challenge b (case r of Inl e \<Rightarrow> [] | Inr p \<Rightarrow> [(a, p)])"
proof (cases r)
  case (Inl e)
  then show ?thesis
    using respond_error assms by (fastforce simp: challenge_packets_def info_packets_def)
next
  case (Inr p)
  show ?thesis
  proof (cases "is_challenge p")
    case True
    with respond_challenge Inr assms obtain v
      where "ledger_reach (pending q) [Issued a v] (pending q')" by blast
    with True Inr show ?thesis
      by (intro exI [of _ "[Issued a v]"]) (simp add: challenge_packets_def info_packets_def)
  next
    case False
    with respond_info Inr assms obtain v
      where "ledger_reach (pending q) [Accepted a v] (pending q')" by blast
    with False Inr show ?thesis
      by (intro exI [of _ "[Accepted a v]"]) (simp add: challenge_packets_def info_packets_def)
  qed
qed

lemma packets_append:
  "challenge_packets c a (xs @ ys) = challenge_packets c a xs + challenge_packets c a ys"
  "info_packets c a (xs @ ys) = info_packets c a xs + info_packets c a ys"
  by (simp_all add: challenge_packets_def info_packets_def)

lemma serve_reaches:
  "serve respond forget q ts = Return (q', sent) \<Longrightarrow>
   \<exists>evs. ledger_reach (pending q) evs (pending q') \<and>
     issues_to b evs = challenge_packets is_challenge b sent \<and>
     accepts_from b evs = info_packets is_challenge b sent"
proof (induction ts arbitrary: q sent)
  case Nil
  then show ?case
    by (intro exI [of _ "[]"]) (auto simp: challenge_packets_def info_packets_def)
next
  case (Cons t ts)
  show ?case
  proof (cases t)
    case (Purged a)
    with Cons.prems Cons.IH [of "forget a q" sent] forget_reaches [of q a]
    show ?thesis using ledger_reach_trans by fastforce
  next
    case (Request st env a buf)
    with Cons.prems obtain q1 g r sent2 where
      s: "respond st env q a buf = Return (q1, g, r)"
      "serve respond forget q1 ts = Return (q', sent2)"
      "sent = (case r of Inl e \<Rightarrow> [] | Inr p \<Rightarrow> [(a, p)]) @ sent2"
      by (auto simp: obind_eq_Return)
    from respond_reaches [OF s(1), of b] Cons.IH [OF s(2)] show ?thesis
      unfolding s(3) packets_append using ledger_reach_trans by (metis count_simps(3,4))
  qed
qed

text \<open>
  The client fact: an address that is not waiting for anything at the start receives at most
  as many info packets as challenge packets.
\<close>

lemma info_le_challenges:
  assumes "serve respond forget q ts = Return (q', sent)" and "pending q a = None"
  shows "info_packets is_challenge a sent \<le> challenge_packets is_challenge a sent"
proof -
  from serve_reaches [OF assms(1), of a] obtain evs where
    "ledger_reach (pending q) evs (pending q')"
    "issues_to a evs = challenge_packets is_challenge a sent"
    "accepts_from a evs = info_packets is_challenge a sent" by blast
  with ledger_reach_balance [of "pending q" evs "pending q'" a] assms(2)
  show ?thesis by (simp add: waiting_def)
qed

end

end
