(* ===== verification/Proto_SQP.thy ===== *)
theory Proto_SQP
  imports Proto_Base Responder_Contract
begin

text \<open>
  The package \<open>game-server-hosting/server/proto/sqp\<close>: challenge and query packets of the
  Server Query Protocol, with the server info chunk and, from version 2 on, the metrics chunk.
  As for A2S, the state behind the responder's pointer is passed to each call.
\<close>

unbundle bit_operations_syntax

section \<open>Encoder\<close>

text \<open>A string is one length byte, \<open>byte(len(s))\<close>, and then the whole string.\<close>

definition sqp_WriteString :: "byte list \<Rightarrow> go_string \<Rightarrow> query_error + byte list" where
  "sqp_WriteString resp s =
     (let resp' = binary_write BigEndian resp (U8 (of_nat (length s)))
      in Inr (binary_write BigEndian resp' (Bytes (bytes_of_string s))))"

definition sqp_Write :: "byte list \<Rightarrow> basic \<Rightarrow> query_error + byte list" where
  "sqp_Write resp v = Inr (binary_write BigEndian resp v)"

definition sqp_encoder :: "query_error wire_encoder" where
  "sqp_encoder = \<lparr>WriteString = sqp_WriteString, Write = sqp_Write\<rparr>"

text \<open>A reader for length-prefixed strings, and the strings the length byte can describe.\<close>

definition sqp_string_bytes :: "go_string \<Rightarrow> byte list" where
  "sqp_string_bytes s = of_nat (length s) # bytes_of_string s"

definition sqp_read_string :: "byte list \<Rightarrow> (go_string \<times> byte list) option" where
  "sqp_read_string bs =
     (case bs of
        [] \<Rightarrow> None
      | n # r \<Rightarrow>
          if unat n \<le> length r then Some (string_of_bytes (take (unat n) r), drop (unat n) r)
          else None)"

definition sqp_string_ok :: "go_string \<Rightarrow> bool" where
  "sqp_string_ok s \<longleftrightarrow> length s \<le> 255"

lemma sqp_read_string_eq:
  "sqp_read_string (sqp_string_bytes s @ r) =
     Some (take (length s mod 256) s, bytes_of_string (drop (length s mod 256) s) @ r)"
proof -
  have "length s mod 256 \<le> length s" by simp
  then show ?thesis
    by (simp add: sqp_read_string_def sqp_string_bytes_def unat_of_nat)
       (simp add: bytes_of_string_def string_of_bytes_def take_map drop_map comp_def)
qed

lemma sqp_read_string_bytes:
  "sqp_string_ok s \<Longrightarrow> sqp_read_string (sqp_string_bytes s @ r) = Some (s, r)"
  by (simp add: sqp_read_string_eq sqp_string_ok_def)

interpretation sqp_enc: wire_codec sqp_encoder sqp_string_bytes "binary_bytes BigEndian"
    BigEndian sqp_read_string sqp_string_ok
  by unfold_locales
     (simp_all add: sqp_encoder_def sqp_Write_def binary_write_def sqp_read_string_bytes,
      simp add: sqp_WriteString_def binary_write_def sqp_string_bytes_def)

section \<open>Chunks\<close>

record sqpServerInfo =
  s_CurrentPlayers :: uint16
  s_MaxPlayers :: uint16
  s_ServerName :: go_string
  s_GameType :: go_string
  s_BuildID :: go_string
  s_GameMap :: go_string
  s_Port :: uint16

definition queryStateToServerInfo :: "query_state option \<Rightarrow> sqpServerInfo" where
  "queryStateToServerInfo st =
     (case st of
        None \<Rightarrow> \<lparr>s_CurrentPlayers = 0, s_MaxPlayers = 0, s_ServerName = ''n/a'',
                 s_GameType = ''n/a'', s_BuildID = [], s_GameMap = ''n/a'', s_Port = 0\<rparr>
      | Some qs \<Rightarrow> \<lparr>s_CurrentPlayers = ucast (CurrentPlayers qs),
                 s_MaxPlayers = ucast (MaxPlayers qs), s_ServerName = ServerName qs,
                 s_GameType = GameType qs, s_BuildID = [], s_GameMap = MapName qs,
                 s_Port = Port qs\<rparr>)"

definition ServerInfo_Size :: "sqpServerInfo \<Rightarrow> uint32" where
  "ServerInfo_Size si = of_nat
     (2 + 2 + length (bytes_of_string (s_ServerName si)) + 1
        + length (bytes_of_string (s_GameType si)) + 1
        + length (bytes_of_string (s_BuildID si)) + 1
        + length (bytes_of_string (s_GameMap si)) + 1 + 2)"

definition server_info_fields :: "sqpServerInfo \<Rightarrow> field list" where
  "server_info_fields si =
     [FVal (EBasic (U16 (s_CurrentPlayers si))), FVal (EBasic (U16 (s_MaxPlayers si))),
      FVal (EString (s_ServerName si)), FVal (EString (s_GameType si)),
      FVal (EString (s_BuildID si)), FVal (EString (s_GameMap si)),
      FVal (EBasic (U16 (s_Port si)))]"

record sqpMetricsInfo =
  Count :: byte
  Values :: "float32 list"

definition MaxMetrics :: nat where
  "MaxMetrics = 10"

text \<open>Go's \<open>copy(dst, src)\<close>: the common prefix is overwritten.\<close>

definition go_copy :: "'a list \<Rightarrow> 'a list \<Rightarrow> 'a list" where
  "go_copy dst src = take (length dst) src @ drop (length src) dst"

definition queryStateToMetrics :: "query_state option \<Rightarrow> sqpMetricsInfo outcome" where
  "queryStateToMetrics st =
     (case st of
        None \<Rightarrow> Panic NilDereference
      | Some qs \<Rightarrow>
          (let l = of_nat (min (slice_len (Metrics qs)) MaxMetrics) :: byte;
               vs = replicate (unat l) 0
           in Return \<lparr>Count = l, Values = go_copy vs (elems (Metrics qs))\<rparr>))"

definition MetricsInfo_Size :: "sqpMetricsInfo \<Rightarrow> uint32" where
  "MetricsInfo_Size m = of_nat (1 + length (Values m) * 4)"

definition metrics_info_fields :: "sqpMetricsInfo \<Rightarrow> field list" where
  "metrics_info_fields m =
     [FVal (EBasic (U8 (Count m))), FVal (EBasic (Floats (Values m)))]"

section \<open>Packets\<close>

record sqp_challengeWireFormat =
  ch_Header :: byte
  ch_Challenge :: uint32

definition sqp_challenge_fields :: "sqp_challengeWireFormat \<Rightarrow> field list" where
  "sqp_challenge_fields f =
     [FVal (EBasic (U8 (ch_Header f))), FVal (EBasic (U32 (ch_Challenge f)))]"

record queryWireFormat =
  q_Header :: byte
  q_Challenge :: uint32
  q_SQPVersion :: uint16
  q_CurrentPacketNum :: byte
  q_LastPacketNum :: byte
  q_PayloadLength :: uint16
  q_ServerInfoLength :: "uint32 option"
  q_ServerInfo :: "sqpServerInfo option"
  q_MetricsInfoLength :: "uint32 option"
  q_MetricsInfo :: "sqpMetricsInfo option"

definition query_fields :: "queryWireFormat \<Rightarrow> field list" where
  "query_fields f =
     [FVal (EBasic (U8 (q_Header f))), FVal (EBasic (U32 (q_Challenge f))),
      FVal (EBasic (U16 (q_SQPVersion f))), FVal (EBasic (U8 (q_CurrentPacketNum f))),
      FVal (EBasic (U8 (q_LastPacketNum f))), FVal (EBasic (U16 (q_PayloadLength f))),
      FPtr (map_option (\<lambda>n. EBasic (U32 n)) (q_ServerInfoLength f)),
      FPtr (map_option (\<lambda>si. EStruct (server_info_fields si)) (q_ServerInfo f)),
      FPtr (map_option (\<lambda>n. EBasic (U32 n)) (q_MetricsInfoLength f)),
      FPtr (map_option (\<lambda>m. EStruct (metrics_info_fields m)) (q_MetricsInfo f))]"

section \<open>Responding\<close>

text \<open>A new responder; the encoder has no state, and the error of the constructor is always nil.\<close>

definition sqp_NewQueryResponder :: query_base where
  [simp]: "sqp_NewQueryResponder = new_query_base"

definition be_uint16 :: "byte list \<Rightarrow> uint16" where
  "be_uint16 b = be_get16 (b ! 0) (b ! 1)"

definition be_uint32 :: "byte list \<Rightarrow> uint32" where
  "be_uint32 b = be_get32 (b ! 0) (b ! 1) (b ! 2) (b ! 3)"

definition isChallenge :: "byte slice \<Rightarrow> bool outcome" where
  "isChallenge buf = obind (slice_range buf 0 5) (\<lambda>h. Return (elems h = [0, 0, 0, 0, 0]))"

definition isQuery :: "byte slice \<Rightarrow> bool outcome" where
  "isQuery buf = obind (slice_get buf 0) (\<lambda>b. Return (b = 1))"

type_synonym sqp_result = "(query_base \<times> time option \<times> (query_error + byte list)) outcome"

definition handleChallenge :: "gen_env \<Rightarrow> query_base \<Rightarrow> go_string \<Rightarrow> sqp_result" where
  "handleChallenge env q clientAddress =
     (case GenerateChallenge env clientAddress q of
        (q', goroutine, Inl err) \<Rightarrow> Return (q', goroutine, Inl err)
      | (q', goroutine, Inr v) \<Rightarrow>
          Return (q', goroutine,
            WireWrite [] sqp_encoder (sqp_challenge_fields \<lparr>ch_Header = 0, ch_Challenge = v\<rparr>)))"

text \<open>The two chunks of a query response, each added when it is wanted.\<close>

definition add_server_info :: "bool \<Rightarrow> query_state option \<Rightarrow> queryWireFormat \<Rightarrow> queryWireFormat" where
  "add_server_info wantsServerInfo st f =
     (if wantsServerInfo then
        (let si = queryStateToServerInfo st; size = ServerInfo_Size si
         in f\<lparr>q_ServerInfo := Some si, q_ServerInfoLength := Some size,
              q_PayloadLength := q_PayloadLength f + (ucast size + 4)\<rparr>)
      else f)"

definition add_metrics ::
  "uint16 \<Rightarrow> bool \<Rightarrow> query_state option \<Rightarrow> queryWireFormat \<Rightarrow> queryWireFormat outcome" where
  "add_metrics protocolVersion wantsMetrics st f =
     (if protocolVersion \<ge> 2 then
        if wantsMetrics then
          obind (queryStateToMetrics st) (\<lambda>m.
            let size = MetricsInfo_Size m
            in Return (f\<lparr>q_MetricsInfo := Some m, q_MetricsInfoLength := Some size,
                 q_PayloadLength := q_PayloadLength f + (ucast size + 4)\<rparr>))
        else Return f
      else Return f)"

definition handleQuery ::
  "query_state option \<Rightarrow> query_base \<Rightarrow> go_string \<Rightarrow> byte slice \<Rightarrow> sqp_result" where
  "handleQuery st q clientAddress buf =
     (if slice_len buf < 8 then Return (q, None, Inl ErrInvalidPacketLength)
      else obind (slice_range buf 1 5) (\<lambda>b.
        let challenge = be_uint32 (elems b)
        in case ChallengeMatchesForClient clientAddress challenge q of
             (q', Some err) \<Rightarrow> Return (q', None, Inl err)
           | (q', None) \<Rightarrow>
               obind (slice_range buf 5 7) (\<lambda>b.
                 let protocolVersion = be_uint16 (elems b)
                 in if protocolVersion > 2
                    then Return (q', None, Inl (NewUnsupportedSQPVersionError protocolVersion))
                    else obind (slice_get buf 7) (\<lambda>requestedChunks.
                      let wantsServerInfo = (requestedChunks AND 1 = 1);
                          wantsMetrics = (requestedChunks AND 16 = 16);
                          f = \<lparr>q_Header = 1, q_Challenge = challenge, q_SQPVersion = 1,
                               q_CurrentPacketNum = 0, q_LastPacketNum = 0, q_PayloadLength = 0,
                               q_ServerInfoLength = None, q_ServerInfo = None,
                               q_MetricsInfoLength = None, q_MetricsInfo = None\<rparr>;
                          f = add_server_info wantsServerInfo st f
                      in obind (add_metrics protocolVersion wantsMetrics st f) (\<lambda>f.
                           Return (q', None, WireWrite [] sqp_encoder (query_fields f)))))))"

definition sqp_Respond ::
  "query_state option \<Rightarrow> gen_env \<Rightarrow> query_base \<Rightarrow> go_string \<Rightarrow> byte slice \<Rightarrow> sqp_result" where
  "sqp_Respond st env q clientAddress buf =
     obind (isChallenge buf) (\<lambda>challenge.
       if challenge then handleChallenge env q clientAddress
       else obind (isQuery buf) (\<lambda>query.
         if query then handleQuery st q clientAddress buf
         else Return (q, None, Inl ErrUnsupportedQuery)))"

section \<open>Facts about the chunks\<close>

abbreviation sqp_bytes :: "field list \<Rightarrow> byte list" where
  "sqp_bytes \<equiv> wire_bytes sqp_string_bytes (binary_bytes BigEndian)"

lemma length_sqp_string_bytes [simp]: "length (sqp_string_bytes s) = Suc (length s)"
  by (simp add: sqp_string_bytes_def)

text \<open>\<open>Size()\<close> is the number of bytes of the chunk on the wire (modulo 2^32).\<close>

lemma ServerInfo_Size_eq: "ServerInfo_Size si = of_nat (length (sqp_bytes (server_info_fields si)))"
  by (simp add: ServerInfo_Size_def server_info_fields_def)

lemma MetricsInfo_Size_eq: "MetricsInfo_Size m = of_nat (length (sqp_bytes (metrics_info_fields m)))"
  by (simp add: MetricsInfo_Size_def metrics_info_fields_def mult.commute)

lemma ucast_of_nat_32: "(ucast (of_nat n :: uint32) :: uint16) = of_nat n"
  by (simp add: ucast_uint16_eq unat_of_nat mod_mod_cancel uint16_of_nat_mod)

lemma go_copy_exact: "length src \<ge> length dst \<Longrightarrow> go_copy dst src = take (length dst) src"
  by (simp add: go_copy_def)

lemma min_MaxMetrics_small: "min n MaxMetrics < 256"
  by (simp add: MaxMetrics_def min_def)

lemma queryStateToMetrics_eq:
  "queryStateToMetrics (Some qs) = Return
     \<lparr>Count = of_nat (min (slice_len (Metrics qs)) MaxMetrics),
      Values = take MaxMetrics (elems (Metrics qs))\<rparr>"
proof -
  let ?l = "min (slice_len (Metrics qs)) MaxMetrics"
  have "unat (of_nat ?l :: byte) = ?l"
    using min_MaxMetrics_small [of "slice_len (Metrics qs)"] by (simp add: unat_of_nat)
  moreover have "take ?l (elems (Metrics qs)) = take MaxMetrics (elems (Metrics qs))"
    by (simp add: slice_len_def min_def)
  ultimately show ?thesis
    by (simp add: queryStateToMetrics_def Let_def go_copy_exact slice_len_def)
qed

section \<open>The query response as a byte string\<close>

definition metrics_of :: "query_state \<Rightarrow> sqpMetricsInfo" where
  "metrics_of qs = \<lparr>Count = of_nat (min (slice_len (Metrics qs)) MaxMetrics),
     Values = take MaxMetrics (elems (Metrics qs))\<rparr>"

text \<open>A chunk is preceded by its length.\<close>

definition sqp_chunk :: "field list \<Rightarrow> byte list" where
  "sqp_chunk fs = be_put32 (of_nat (length (sqp_bytes fs))) @ sqp_bytes fs"

definition sqp_payload :: "bool \<Rightarrow> bool \<Rightarrow> query_state option \<Rightarrow> byte list" where
  "sqp_payload info metrics st =
     (if info then sqp_chunk (server_info_fields (queryStateToServerInfo st)) else []) @
     (if metrics then (case st of None \<Rightarrow> [] | Some qs \<Rightarrow> sqp_chunk (metrics_info_fields (metrics_of qs)))
      else [])"

definition sqp_response :: "uint32 \<Rightarrow> byte list \<Rightarrow> byte list" where
  "sqp_response challenge payload =
     [1] @ be_put32 challenge @ be_put16 1 @ [0, 0] @ be_put16 (of_nat (length payload)) @ payload"

lemma length_sqp_chunk: "length (sqp_chunk fs) = 4 + length (sqp_bytes fs)"
  by (simp add: sqp_chunk_def)

definition empty_query :: "uint32 \<Rightarrow> queryWireFormat" where
  "empty_query c = \<lparr>q_Header = 1, q_Challenge = c, q_SQPVersion = 1, q_CurrentPacketNum = 0,
     q_LastPacketNum = 0, q_PayloadLength = 0, q_ServerInfoLength = None, q_ServerInfo = None,
     q_MetricsInfoLength = None, q_MetricsInfo = None\<rparr>"

lemma query_fields_bytes:
  "sqp_bytes (query_fields g) =
     q_Header g # be_put32 (q_Challenge g) @ be_put16 (q_SQPVersion g) @
     [q_CurrentPacketNum g, q_LastPacketNum g] @ be_put16 (q_PayloadLength g) @
     (case q_ServerInfoLength g of None \<Rightarrow> [] | Some n \<Rightarrow> be_put32 n) @
     (case q_ServerInfo g of None \<Rightarrow> [] | Some si \<Rightarrow> sqp_bytes (server_info_fields si)) @
     (case q_MetricsInfoLength g of None \<Rightarrow> [] | Some n \<Rightarrow> be_put32 n) @
     (case q_MetricsInfo g of None \<Rightarrow> [] | Some m \<Rightarrow> sqp_bytes (metrics_info_fields m))"
  by (simp add: query_fields_def split: option.splits)

lemma payload_step:
  "(of_nat k :: uint16) + (ucast (of_nat n :: uint32) + 4) = of_nat (k + (4 + n))"
  by (simp add: ucast_of_nat_32)

lemma add_metrics_none: "\<not> (m \<and> v \<ge> 2) \<Longrightarrow> add_metrics v m st f = Return f"
  by (auto simp: add_metrics_def)

lemma add_metrics_some:
  "v \<ge> 2 \<Longrightarrow> add_metrics v True (Some qs) f = Return (f\<lparr>q_MetricsInfo := Some (metrics_of qs),
     q_MetricsInfoLength := Some (MetricsInfo_Size (metrics_of qs)),
     q_PayloadLength := q_PayloadLength f + (ucast (MetricsInfo_Size (metrics_of qs)) + 4)\<rparr>)"
  by (simp add: add_metrics_def queryStateToMetrics_eq metrics_of_def Let_def)

lemma server_info_bytes:
  "sqp_bytes (query_fields (add_server_info i st (empty_query c))) =
     sqp_response c (sqp_payload i False st)"
  by (simp add: query_fields_bytes add_server_info_def empty_query_def sqp_response_def
      sqp_payload_def sqp_chunk_def ServerInfo_Size_eq Let_def ucast_of_nat_32 add.commute)

lemma payload_length:
  "q_PayloadLength (add_server_info i st (empty_query c)) =
     of_nat (length (sqp_payload i False st))"
  using payload_step [of 0]
  by (simp add: add_server_info_def empty_query_def sqp_payload_def length_sqp_chunk
      ServerInfo_Size_eq Let_def)

lemma payload_metrics:
  "sqp_payload i True (Some qs) = sqp_payload i False (Some qs) @ sqp_chunk (metrics_info_fields (metrics_of qs))"
  by (simp add: sqp_payload_def)

lemma metrics_bytes:
  assumes "f = add_server_info i (Some qs) (empty_query c)"
  shows "sqp_bytes (query_fields (f\<lparr>q_MetricsInfo := Some (metrics_of qs),
     q_MetricsInfoLength := Some (MetricsInfo_Size (metrics_of qs)),
     q_PayloadLength := q_PayloadLength f + (ucast (MetricsInfo_Size (metrics_of qs)) + 4)\<rparr>))
   = sqp_response c (sqp_payload i True (Some qs))"
proof -
  let ?p = "sqp_payload i False (Some qs)" and ?m = "sqp_bytes (metrics_info_fields (metrics_of qs))"
  have len: "q_PayloadLength f + (ucast (MetricsInfo_Size (metrics_of qs)) + 4) =
      of_nat (length ?p + (4 + length ?m))"
    unfolding assms payload_length MetricsInfo_Size_eq by (rule payload_step)
  have f: "q_Header f = 1" "q_Challenge f = c" "q_SQPVersion f = 1" "q_CurrentPacketNum f = 0"
    "q_LastPacketNum f = 0" and
    payload: "(case q_ServerInfoLength f of None \<Rightarrow> [] | Some n \<Rightarrow> be_put32 n) @
      (case q_ServerInfo f of None \<Rightarrow> [] | Some si \<Rightarrow> sqp_bytes (server_info_fields si)) = ?p"
    by (simp_all add: assms add_server_info_def empty_query_def Let_def sqp_payload_def
        sqp_chunk_def ServerInfo_Size_eq)
  show ?thesis
    unfolding query_fields_bytes len payload_metrics sqp_response_def
    using payload by (simp add: f sqp_chunk_def MetricsInfo_Size_eq)
qed

text \<open>Building and writing the packet.\<close>

lemma query_write:
  assumes "\<not> (st = None \<and> m \<and> v \<ge> 2)"
  shows "\<exists>f. add_metrics v m st (add_server_info i st (empty_query c)) = Return f \<and>
    WireWrite [] sqp_encoder (query_fields f) =
      Inr (sqp_response c (sqp_payload i (m \<and> v \<ge> 2) st))"
proof (cases "m \<and> v \<ge> 2")
  case True
  with assms obtain qs where "st = Some qs" by auto
  with True show ?thesis
    by (simp add: add_metrics_some metrics_bytes sqp_enc.WireWrite_appends)
next
  case False
  then have "(m \<and> v \<ge> 2) = False" by simp
  then show ?thesis
    unfolding add_metrics_none [OF False] \<open>(m \<and> v \<ge> 2) = False\<close>
    by (simp add: server_info_bytes sqp_enc.WireWrite_appends)
qed

section \<open>Facts about responding\<close>

text \<open>The parts of a query packet of at least eight bytes.\<close>

definition query_challenge :: "byte list \<Rightarrow> uint32" where
  "query_challenge p = be_get32 (p ! 1) (p ! 2) (p ! 3) (p ! 4)"

definition query_version :: "byte list \<Rightarrow> uint16" where
  "query_version p = be_get16 (p ! 5) (p ! 6)"

definition wants_info :: "byte list \<Rightarrow> bool" where
  "wants_info p \<longleftrightarrow> p ! 7 AND 1 = 1"

definition wants_metrics :: "byte list \<Rightarrow> bool" where
  "wants_metrics p \<longleftrightarrow> p ! 7 AND 16 = 16"

definition sqp_challenge_packet :: "uint32 \<Rightarrow> byte list" where
  "sqp_challenge_packet v = 0 # be_put32 v"

definition is_challenge_request :: "byte slice \<Rightarrow> bool" where
  "is_challenge_request buf \<longleftrightarrow> take 5 (elems buf @ spare buf) = [0, 0, 0, 0, 0]"

lemma isChallenge_eq:
  "isChallenge buf = (if 5 \<le> slice_cap buf then Return (is_challenge_request buf)
     else Panic SliceBoundsOutOfRange)"
  by (simp add: isChallenge_def is_challenge_request_def slice_range_def)

lemma isQuery_eq:
  "isQuery buf = (case elems buf of [] \<Rightarrow> Panic IndexOutOfRange | b # _ \<Rightarrow> Return (b = 1))"
  by (auto simp: isQuery_def slice_get_def slice_len_def split: list.splits)

lemma handleChallenge_eq:
  "handleChallenge env q a =
     (case GenerateChallenge env a q of
        (q', g, Inl err) \<Rightarrow> Return (q', g, Inl err)
      | (q', g, Inr v) \<Rightarrow> Return (q', g, Inr (sqp_challenge_packet v)))"
  by (auto simp: handleChallenge_def sqp_enc.WireWrite_appends sqp_challenge_fields_def
      sqp_challenge_packet_def split: prod.splits sum.splits)

lemma handleQuery_short:
  "slice_len buf < 8 \<Longrightarrow> handleQuery st q a buf = Return (q, None, Inl ErrInvalidPacketLength)"
  by (simp add: handleQuery_def)

text \<open>What a query of at least eight bytes is answered with, when the chunks can be built.\<close>

definition query_answer ::
  "query_state option \<Rightarrow> query_base \<Rightarrow> go_string \<Rightarrow> byte list \<Rightarrow>
   query_base \<times> time option \<times> (query_error + byte list)" where
  "query_answer st q a p =
     (case ChallengeMatchesForClient a (query_challenge p) q of
        (q', Some err) \<Rightarrow> (q', None, Inl err)
      | (q', None) \<Rightarrow>
          (q', None,
           if query_version p > 2 then Inl (UnsupportedSQPVersionError (query_version p))
           else Inr (sqp_response (query_challenge p)
                  (sqp_payload (wants_info p) (wants_metrics p \<and> query_version p \<ge> 2) st))))"

definition metrics_panic :: "query_state option \<Rightarrow> query_base \<Rightarrow> go_string \<Rightarrow> byte list \<Rightarrow> bool" where
  "metrics_panic st q a p \<longleftrightarrow> st = None \<and> wants_metrics p \<and> query_version p = 2 \<and>
     snd (ChallengeMatchesForClient a (query_challenge p) q) = None"

lemma slice_parts:
  assumes "8 \<le> slice_len buf"
  shows "\<exists>b. slice_range buf 1 5 = Return b \<and> be_uint32 (elems b) = query_challenge (elems buf)"
    and "\<exists>b. slice_range buf 5 7 = Return b \<and> be_uint16 (elems b) = query_version (elems buf)"
    and "slice_get buf 7 = Return (elems buf ! 7)"
  using assms
  by (auto simp: slice_defs be_uint32_def be_uint16_def query_challenge_def query_version_def
      nth_append eval_nat_numeral)

text \<open>The handler on a long enough buffer, with the slice expressions evaluated.\<close>

lemma handleQuery_parts:
  assumes "8 \<le> slice_len buf"
  shows "handleQuery st q a buf =
    (case ChallengeMatchesForClient a (query_challenge (elems buf)) q of
       (q', Some err) \<Rightarrow> Return (q', None, Inl err)
     | (q', None) \<Rightarrow>
         if query_version (elems buf) > 2
         then Return (q', None, Inl (UnsupportedSQPVersionError (query_version (elems buf))))
         else obind (add_metrics (query_version (elems buf)) (wants_metrics (elems buf)) st
                (add_server_info (wants_info (elems buf)) st (empty_query (query_challenge (elems buf)))))
              (\<lambda>f. Return (q', None, WireWrite [] sqp_encoder (query_fields f))))"
proof -
  obtain b where b: "slice_range buf 1 5 = Return b"
      "be_uint32 (elems b) = query_challenge (elems buf)"
    using slice_parts(1) [OF assms] by blast
  obtain v where v: "slice_range buf 5 7 = Return v"
      "be_uint16 (elems v) = query_version (elems buf)"
    using slice_parts(2) [OF assms] by blast
  have "\<not> slice_len buf < 8" using assms by simp
  then show ?thesis
    unfolding handleQuery_def b(1) v(1) slice_parts(3) [OF assms] obind.simps Let_def b(2) v(2)
      wants_info_def wants_metrics_def empty_query_def NewUnsupportedSQPVersionError_def
    by simp
qed

lemma word2_le: "\<not> (v :: uint16) > 2 \<Longrightarrow> v \<ge> 2 \<longleftrightarrow> v = 2"
  by auto

text \<open>The metrics chunk of a nil state is the only panic.\<close>

lemma add_metrics_panic:
  "add_metrics v m None f = (if v \<ge> 2 \<and> m then Panic NilDereference else Return f)"
  by (simp add: add_metrics_def queryStateToMetrics_def)

lemma handleQuery_eq:
  assumes "8 \<le> slice_len buf"
  shows "handleQuery st q a buf =
    (if metrics_panic st q a (elems buf) then Panic NilDereference
     else Return (query_answer st q a (elems buf)))"
proof -
  obtain q' r where m: "ChallengeMatchesForClient a (query_challenge (elems buf)) q = (q', r)"
    by fastforce
  show ?thesis
  proof (cases "st = None \<and> wants_metrics (elems buf) \<and> query_version (elems buf) = 2")
    case True
    then show ?thesis
      by (simp add: handleQuery_parts [OF assms] m metrics_panic_def query_answer_def
          add_metrics_panic split: option.splits)
  next
    case False
    then have nopanic: "\<not> metrics_panic st q a (elems buf)" by (auto simp: metrics_panic_def)
    show ?thesis
    proof (cases "r = None \<and> \<not> query_version (elems buf) > 2")
      case True
      with False word2_le have "\<not> (st = None \<and> wants_metrics (elems buf) \<and> query_version (elems buf) \<ge> 2)"
        by blast
      from query_write [OF this, of "wants_info (elems buf)" "query_challenge (elems buf)"] True nopanic
      show ?thesis by (auto simp: handleQuery_parts [OF assms] m query_answer_def)
    next
      case other: False
      with nopanic show ?thesis
        by (auto simp: handleQuery_parts [OF assms] m query_answer_def split: option.splits)
    qed
  qed
qed

lemma sqp_Respond_eq:
  "sqp_Respond st env q a buf =
    (if slice_cap buf < 5 then Panic SliceBoundsOutOfRange
     else if is_challenge_request buf then handleChallenge env q a
     else case elems buf of
            [] \<Rightarrow> Panic IndexOutOfRange
          | b # _ \<Rightarrow> if b = 1 then handleQuery st q a buf else Return (q, None, Inl ErrUnsupportedQuery))"
  by (auto simp: sqp_Respond_def isChallenge_eq isQuery_eq split: list.splits)

text \<open>The client tells the packets apart by the first byte.\<close>

definition sqp_is_challenge :: "byte list \<Rightarrow> bool" where
  "sqp_is_challenge p \<longleftrightarrow> take 1 p = [0]"

lemma sqp_is_challenge_packets [simp]:
  "sqp_is_challenge (sqp_challenge_packet v)" "\<not> sqp_is_challenge (sqp_response c p)"
  by (simp_all add: sqp_is_challenge_def sqp_challenge_packet_def sqp_response_def)

lemma sqp_Respond_cases:
  assumes "sqp_Respond st env q a buf = Return (q', g, r)"
  obtains (error) e where "r = Inl e" "pending q' = pending q"
  | (refused) c e where "r = Inl e" "ChallengeMatchesForClient a c q = (q', Some e)"
  | (version) c v where "r = Inl (UnsupportedSQPVersionError v)"
      "ChallengeMatchesForClient a c q = (q', None)"
  | (challenge) v where "r = Inr (sqp_challenge_packet v)" "GenerateChallenge env a q = (q', g, Inr v)"
  | (info) c p where "r = Inr (sqp_response c p)" "ChallengeMatchesForClient a c q = (q', None)"
proof -
  consider (chal) "handleChallenge env q a = Return (q', g, r)"
    | (query) "handleQuery st q a buf = Return (q', g, r)"
    | (other) "q' = q" "r = Inl ErrUnsupportedQuery"
    using assms by (auto simp: sqp_Respond_eq split: if_splits list.splits)
  then show ?thesis
  proof cases
    case chal
    then show ?thesis
      by (auto simp: handleChallenge_eq split: prod.splits sum.splits
          intro: challenge error dest: generate_pending_err)
  next
    case query
    show ?thesis
    proof (cases "slice_len buf < 8")
      case True
      with query show ?thesis using error by (auto simp: handleQuery_short)
    next
      case False
      with query show ?thesis
        by (auto simp: handleQuery_eq query_answer_def split: prod.splits option.splits if_splits
            intro: refused version info)
    qed
  qed (simp add: error)
qed

text \<open>
  An accepted challenge in a query of an unsupported version is spent without an info packet:
  the ledger can forget it.
\<close>

lemma spent_reach: "ChallengeMatchesForClient a c q = (q', r) \<Longrightarrow> ledger_reach (pending q) [] (pending q')"
  using matches_pending [of a c q q' r] ledger_reach_forget [of "pending q" a] by simp

interpretation sqp: query_responder pending sqp_Respond delete_challenge sqp_is_challenge
proof
  fix st env q a buf q' g e b
  assume "sqp_Respond st env q a buf = Return (q', g, Inl e)"
  then show "\<exists>evs. ledger_reach (pending q) evs (pending q') \<and>
      issues_to b evs = 0 \<and> accepts_from b evs = 0"
    by (cases rule: sqp_Respond_cases) (auto intro!: exI [of _ "[]"] dest: spent_reach)
next
  fix st env q a buf q' g p
  assume "sqp_Respond st env q a buf = Return (q', g, Inr p)" and "sqp_is_challenge p"
  then show "\<exists>v. ledger_reach (pending q) [Issued a v] (pending q')"
    by (auto elim!: sqp_Respond_cases dest!: qb.gen_reach)
next
  fix st env q a buf q' g p
  assume "sqp_Respond st env q a buf = Return (q', g, Inr p)" and "\<not> sqp_is_challenge p"
  then show "\<exists>v. ledger_reach (pending q) [Accepted a v] (pending q')"
    by (auto elim!: sqp_Respond_cases dest!: qb.mat_reach)
qed (rule qb.forget_reach)

section \<open>Properties of the SQP responder\<close>

text \<open>The packets a client sends, in the cleared read buffer of the server.\<close>

definition sqp_challenge_request :: "nat \<Rightarrow> byte slice" where
  "sqp_challenge_request n = of_list (replicate (5 + n) 0)"

definition sqp_query_request :: "uint32 \<Rightarrow> uint16 \<Rightarrow> byte \<Rightarrow> nat \<Rightarrow> byte slice" where
  "sqp_query_request c version chunks n =
     of_list ([1] @ be_put32 c @ be_put16 version @ [chunks] @ replicate n 0)"

lemma query_request_parts:
  "elems (sqp_query_request c v k n) = p \<Longrightarrow>
   query_challenge p = c \<and> query_version p = v \<and> (wants_info p \<longleftrightarrow> k AND 1 = 1) \<and>
   (wants_metrics p \<longleftrightarrow> k AND 16 = 16)"
  by (auto simp: sqp_query_request_def of_list_def query_challenge_def query_version_def
      wants_info_def wants_metrics_def be_put32_def be_put16_def)

lemma sqp_challenge_request_Respond:
  "sqp_Respond st env q a (sqp_challenge_request n) = handleChallenge env q a"
  by (simp add: sqp_Respond_eq sqp_challenge_request_def of_list_def slice_cap_def
      is_challenge_request_def numeral_eq_Suc)

lemma sqp_query_request_Respond:
  "sqp_Respond st env q a (sqp_query_request c v k n) =
     handleQuery st q a (sqp_query_request c v k n)"
  "8 \<le> slice_len (sqp_query_request c v k n)"
  by (simp_all add: sqp_Respond_eq sqp_query_request_def of_list_def slice_defs
      is_challenge_request_def)

lemma sqp_exchange:
  assumes "GenerateChallenge env a q = (q1, g, Inr c)" and "v \<le> 2"
    and "st1 = None \<Longrightarrow> \<not> (k AND 16 = 16 \<and> v = 2)"
  shows "\<exists>q2 q3.
    sqp_Respond st0 env q a (sqp_challenge_request n) = Return (q1, g, Inr (sqp_challenge_packet c)) \<and>
    sqp_Respond st1 env1 q1 a (sqp_query_request c v k n) = Return (q2, None,
      Inr (sqp_response c (sqp_payload (k AND 1 = 1) (k AND 16 = 16 \<and> v \<ge> 2) st1))) \<and>
    sqp_Respond st2 env2 q2 a (sqp_query_request c v k n) = Return (q3, None, Inl ErrNoChallenge)"
proof -
  from assms(1) have "pending q1 a = Some c" by (simp add: generate_pending_ok)
  then obtain q2 where m: "ChallengeMatchesForClient a c q1 = (q2, None)"
    using matches_ok_iff by (metis prod.exhaust)
  then have "challenges q2 a = None"
    by (auto simp: ChallengeMatchesForClient_def Let_def
        split: option.splits map_value.splits if_splits)
  then obtain q3 where m2: "ChallengeMatchesForClient a c q2 = (q3, Some ErrNoChallenge)"
    by (simp add: ChallengeMatchesForClient_def Let_def)
  note parts = query_request_parts [OF refl, of c v k n]
  have v2: "\<not> v > 2" using assms(2) by simp
  have "\<not> metrics_panic st1 q1 a (elems (sqp_query_request c v k n))"
    using assms(3) parts by (auto simp: metrics_panic_def)
  moreover have "\<not> metrics_panic st2 q2 a (elems (sqp_query_request c v k n))"
    using parts m2 by (simp add: metrics_panic_def)
  ultimately show ?thesis
    using parts v2 assms(1)
    by (simp add: sqp_challenge_request_Respond handleChallenge_eq sqp_query_request_Respond
        handleQuery_eq query_answer_def m m2)
qed

text \<open>
  C32. The exchange of a client, on any state of the store: a challenge packet is answered
  with a fresh challenge; a query with that challenge is answered with the chunks it asks
  for (the metrics from version 2 on); a second query with the same challenge is refused.
\<close>

theorem sqp_handshake:
  assumes "GenerateChallenge env a q = (q1, g, Inr c)" and "v \<le> 2"
  shows "\<exists>q2 q3.
    sqp_Respond st0 env q a (sqp_challenge_request n) = Return (q1, g, Inr (sqp_challenge_packet c)) \<and>
    sqp_Respond (Some qs) env1 q1 a (sqp_query_request c v k n) = Return (q2, None,
      Inr (sqp_response c (sqp_payload (k AND 1 = 1) (k AND 16 = 16 \<and> v \<ge> 2) (Some qs)))) \<and>
    sqp_Respond st2 env2 q2 a (sqp_query_request c v k n) = Return (q3, None, Inl ErrNoChallenge)"
  by (rule sqp_exchange [OF assms]) simp

lemma sample_generate:
  "GenerateChallenge (sample_env t b) a q =
     (let (q1, g) = generate_purge (sample_env t b) q
      in (q1\<lparr>challenges := (challenges q1)(a \<mapsto> sample_entry t (be_get32 0 0 0 b))\<rparr>, g,
          Inr (be_get32 0 0 0 b)))"
  by (simp add: GenerateChallenge_def sample_store split: prod.splits)

lemma sample_generate_ok: "\<exists>q1 g. GenerateChallenge (sample_env t 7) a q = (q1, g, Inr 7)"
proof -
  have "be_get32 0 0 0 7 = 7" by (simp add: be_get32_def)
  then show ?thesis by (simp add: sample_generate split: prod.splits)
qed

theorem sqp_handshake_witness:
  "\<exists>q1 g q2. sqp_Respond None (sample_env 5 7) new_query_base ''c'' (sqp_challenge_request 3)
      = Return (q1, g, Inr (sqp_challenge_packet 7)) \<and>
    sqp_Respond (Some zero_query_state) (sample_env 6 8) q1 ''c'' (sqp_query_request 7 1 1 3)
      = Return (q2, None, Inr (sqp_response 7 (sqp_payload True False (Some zero_query_state))))"
proof -
  obtain q1 g where g: "GenerateChallenge (sample_env 5 7) ''c'' new_query_base = (q1, g, Inr 7)"
    using sample_generate_ok by blast
  have "(1 :: uint16) \<le> 2" by simp
  from sqp_handshake [OF g this, of None 3 zero_query_state "sample_env 6 8" 1 None "sample_env 6 8"]
  show ?thesis by auto
qed

lemma sqp_response_length_field:
  "11 \<le> length (sqp_response c p) \<and>
   be_get16 (sqp_response c p ! 9) (sqp_response c p ! 10) = of_nat (length (sqp_response c p) - 11)"
  by (simp add: sqp_response_def be_put32_def be_put16_def nth_Cons')

text \<open>
  C5. Every query response announces the number of bytes that follow its eleven-byte header
  (modulo 2^16), whatever the state, the chunks requested and the length of the strings.
\<close>

theorem sqp_payload_length:
  assumes "sqp_Respond st env q a buf = Return (q', g, Inr p)" and "\<not> sqp_is_challenge p"
  shows "11 \<le> length p \<and> be_get16 (p ! 9) (p ! 10) = of_nat (length p - 11)"
  using assms by (cases rule: sqp_Respond_cases) (auto simp: sqp_response_length_field)

theorem sqp_payload_length_witness:
  "\<exists>q1 q2. sqp_Respond (Some zero_query_state) (sample_env 6 8) q1 ''c''
      (sqp_query_request 7 1 1 3)
      = Return (q2, None, Inr (sqp_response 7 (sqp_payload True False (Some zero_query_state)))) \<and>
    be_get16 (sqp_response 7 (sqp_payload True False (Some zero_query_state)) ! 9)
      (sqp_response 7 (sqp_payload True False (Some zero_query_state)) ! 10) =
    of_nat (length (sqp_response 7 (sqp_payload True False (Some zero_query_state))) - 11)"
proof -
  obtain q1 g where g: "GenerateChallenge (sample_env 5 7) ''c'' new_query_base = (q1, g, Inr 7)"
    using sample_generate_ok by blast
  have "(1 :: uint16) \<le> 2" by simp
  from sqp_exchange [OF g this, of "Some zero_query_state" 1 None 3 "sample_env 6 8" None "sample_env 6 8"]
  obtain q2 where r: "sqp_Respond (Some zero_query_state) (sample_env 6 8) q1 ''c''
      (sqp_query_request 7 1 1 3)
      = Return (q2, None, Inr (sqp_response 7 (sqp_payload True False (Some zero_query_state))))"
    by auto
  from sqp_payload_length [OF r] r show ?thesis by auto
qed

definition sqp_header_kinds :: "leaf_kind list" where
  "sqp_header_kinds = [KBasic KU8, KBasic KU32, KBasic KU16, KBasic KU8, KBasic KU8, KBasic KU16]"

definition sqp_info_kinds :: "leaf_kind list" where
  "sqp_info_kinds = [KBasic KU32, KBasic KU16, KBasic KU16, KString, KString, KString, KString,
     KBasic KU16]"

fun decode_metric_values :: "leaf list \<times> byte list \<Rightarrow> (leaf list \<times> byte list) option" where
  "decode_metric_values ([LBasic (U32 n), LBasic (U8 count)], r) =
     map_option (\<lambda>(vs, r'). (LBasic (U32 n) # LBasic (U8 count) # vs, r'))
       (read_leaves sqp_read_string BigEndian [KBasic (KFloats (unat count))] r)"
| "decode_metric_values _ = None"

definition decode_metrics :: "byte list \<Rightarrow> (leaf list \<times> byte list) option" where
  "decode_metrics r = Option.bind
     (read_leaves sqp_read_string BigEndian [KBasic KU32, KBasic KU8] r) decode_metric_values"

definition sqp_decode :: "bool \<Rightarrow> bool \<Rightarrow> byte list \<Rightarrow> (leaf list \<times> byte list) option" where
  "sqp_decode info metrics p =
     Option.bind (read_leaves sqp_read_string BigEndian
        (sqp_header_kinds @ (if info then sqp_info_kinds else [])) p) (\<lambda>(ls, r).
       if metrics then
         map_option (\<lambda>(ms, r'). (ls @ ms, r')) (decode_metrics r)
       else Some (ls, r))"

definition expected_info :: "query_state \<Rightarrow> leaf list" where
  "expected_info qs =
     [LBasic (U32 (of_nat (10 + length (ServerName qs) + length (GameType qs) + length (MapName qs)))),
      LBasic (U16 (of_nat (unat (CurrentPlayers qs) mod 65536))),
      LBasic (U16 (of_nat (unat (MaxPlayers qs) mod 65536))),
      LString (ServerName qs), LString (GameType qs), LString [], LString (MapName qs),
      LBasic (U16 (Port qs))]"

definition expected_metrics :: "query_state \<Rightarrow> leaf list" where
  "expected_metrics qs =
     (let n = min (slice_len (Metrics qs)) MaxMetrics
      in [LBasic (U32 (of_nat (1 + 4 * n))), LBasic (U8 (of_nat n)),
          LBasic (Floats (take MaxMetrics (elems (Metrics qs))))])"

definition expected_header :: "uint32 \<Rightarrow> nat \<Rightarrow> leaf list" where
  "expected_header c n =
     [LBasic (U8 1), LBasic (U32 c), LBasic (U16 1), LBasic (U8 0), LBasic (U8 0),
      LBasic (U16 (of_nat n))]"

abbreviation sqp_leaf_bytes :: "leaf list \<Rightarrow> byte list" where
  "sqp_leaf_bytes ls \<equiv> concat (map (leaf_bytes sqp_string_bytes (binary_bytes BigEndian)) ls)"

lemma sqp_response_leaves:
  "sqp_response c payload = sqp_leaf_bytes (expected_header c (length payload)) @ payload"
  by (simp add: sqp_response_def expected_header_def)

lemma info_chunk_leaves:
  "sqp_chunk (server_info_fields (queryStateToServerInfo (Some qs))) = sqp_leaf_bytes (expected_info qs)"
  by (simp add: sqp_chunk_def server_info_fields_def queryStateToServerInfo_def expected_info_def
      ucast_uint16_eq add.assoc)

lemma metrics_chunk_leaves:
  "sqp_chunk (metrics_info_fields (metrics_of qs)) = sqp_leaf_bytes (expected_metrics qs)"
  by (simp add: sqp_chunk_def metrics_info_fields_def metrics_of_def expected_metrics_def Let_def
      slice_len_def min.commute)

lemma decode_metrics_chunk:
  "decode_metrics (sqp_leaf_bytes (expected_metrics qs) @ rest) = Some (expected_metrics qs, rest)"
proof -
  let ?n = "min (slice_len (Metrics qs)) MaxMetrics" and ?vs = "take MaxMetrics (elems (Metrics qs))"
  have n: "unat (of_nat ?n :: byte) = length ?vs"
    using min_MaxMetrics_small [of "slice_len (Metrics qs)"]
    by (simp add: unat_of_nat slice_len_def min.commute)
  show ?thesis
    using sqp_enc.read_leaves_bytes [of "[LBasic (U32 (of_nat (1 + 4 * ?n))), LBasic (U8 (of_nat ?n))]"
        "sqp_leaf_bytes [LBasic (Floats ?vs)] @ rest"]
      sqp_enc.read_leaves_bytes [of "[LBasic (Floats ?vs)]" rest]
    by (simp add: expected_metrics_def decode_metrics_def Let_def n)
qed

lemma sqp_response_decode:
  assumes "sqp_string_ok (ServerName qs)" and "sqp_string_ok (GameType qs)"
    and "sqp_string_ok (MapName qs)"
  shows "sqp_decode i m (sqp_response c (sqp_payload i m (Some qs)) @ rest) = Some
    (expected_header c (length (sqp_payload i m (Some qs))) @
     (if i then expected_info qs else []) @ (if m then expected_metrics qs else []), rest)"
proof -
  let ?h = "expected_header c (length (sqp_payload i m (Some qs)))"
  let ?a = "?h @ (if i then expected_info qs else [])"
  let ?m = "if m then sqp_leaf_bytes (expected_metrics qs) else []"
  have ok: "list_all (leaf_ok sqp_string_ok) ?a"
    using assms by (simp add: expected_header_def expected_info_def sqp_string_ok_def)
  have kinds: "map kind_of_leaf ?a = sqp_header_kinds @ (if i then sqp_info_kinds else [])"
    by (simp add: expected_header_def expected_info_def sqp_header_kinds_def sqp_info_kinds_def)
  have bytes: "sqp_response c (sqp_payload i m (Some qs)) @ rest = sqp_leaf_bytes ?a @ ?m @ rest"
    unfolding sqp_response_leaves
    by (simp add: sqp_payload_def info_chunk_leaves metrics_chunk_leaves)
  show ?thesis
    using sqp_enc.read_leaves_bytes [OF ok, of "?m @ rest"]
    unfolding sqp_decode_def bytes kinds
    by (simp add: decode_metrics_chunk)
qed

text \<open>What a query response consists of, in terms of the bytes of the request.\<close>

lemma sqp_Respond_info:
  assumes "sqp_Respond st env q a buf = Return (q', g, Inr p)" and "\<not> sqp_is_challenge p"
  shows "8 \<le> slice_len buf \<and>
    p = sqp_response (query_challenge (elems buf)) (sqp_payload (wants_info (elems buf))
          (wants_metrics (elems buf) \<and> query_version (elems buf) \<ge> 2) st)"
proof -
  have query: "handleQuery st q a buf = Return (q', g, Inr p)"
    using assms by (auto simp: sqp_Respond_eq handleChallenge_eq
        split: if_splits list.splits prod.splits sum.splits)
  then have "8 \<le> slice_len buf"
    by (rule contrapos_pp) (simp add: handleQuery_short)
  with query show ?thesis
    by (auto simp: handleQuery_eq query_answer_def split: prod.splits option.splits if_splits)
qed

text \<open>
  C2. Whatever query response the responder sends, a client that knows which chunks it asked
  for decodes it to the server's state, whatever bytes follow the packet: the challenge it
  presented, the player counts modulo 2^16, the strings and the port exactly, and the first
  ten metrics bit for bit. The strings must not be longer than the 255 bytes their length
  byte can tell.
\<close>

theorem sqp_response_decodes:
  assumes "sqp_Respond (Some qs) env q a buf = Return (q', g, Inr p)" and "\<not> sqp_is_challenge p"
    and "sqp_string_ok (ServerName qs)" and "sqp_string_ok (GameType qs)"
    and "sqp_string_ok (MapName qs)"
    and "i = wants_info (elems buf)"
    and "m = (wants_metrics (elems buf) \<and> query_version (elems buf) \<ge> 2)"
  shows "sqp_decode i m (p @ rest) = Some
    (expected_header (query_challenge (elems buf)) (length p - 11) @
     (if i then expected_info qs else []) @ (if m then expected_metrics qs else []), rest)"
proof -
  from sqp_Respond_info [OF assms(1,2)] assms(6,7)
  have p: "p = sqp_response (query_challenge (elems buf)) (sqp_payload i m (Some qs))" by simp
  then have "length p - 11 = length (sqp_payload i m (Some qs))"
    by (simp add: sqp_response_def)
  with sqp_response_decode [OF assms(3-5), of i m "query_challenge (elems buf)" rest] p
  show ?thesis by simp
qed

theorem sqp_response_decodes_witness:
  "\<exists>q1 q2 p. sqp_Respond (Some (zero_query_state\<lparr>ServerName := ''foo'', CurrentPlayers := 65537\<rparr>))
      (sample_env 6 8) q1 ''c'' (sqp_query_request 7 1 1 3) = Return (q2, None, Inr p) \<and>
    sqp_decode True False (p @ [9]) = Some
    (expected_header 7 17 @
       [LBasic (U32 13), LBasic (U16 1), LBasic (U16 0), LString ''foo'', LString [], LString [],
        LString [], LBasic (U16 0)], [9])"
proof -
  let ?qs = "zero_query_state\<lparr>ServerName := ''foo'', CurrentPlayers := 65537\<rparr>"
  obtain q1 g where g: "GenerateChallenge (sample_env 5 7) ''c'' new_query_base = (q1, g, Inr 7)"
    using sample_generate_ok by blast
  have "(1 :: uint16) \<le> 2" by simp
  from sqp_exchange [OF g this, of "Some ?qs" 1 None 3 "sample_env 6 8" None "sample_env 6 8"]
  obtain q2 where r: "sqp_Respond (Some ?qs) (sample_env 6 8) q1 ''c'' (sqp_query_request 7 1 1 3)
      = Return (q2, None, Inr (sqp_response 7 (sqp_payload True False (Some ?qs))))"
    by auto
  note parts = query_request_parts [OF refl, of 7 1 1 3]
  have len: "length (sqp_response 7 (sqp_payload True False (Some ?qs))) - 11 = 17"
    by (simp add: sqp_response_def sqp_payload_def length_sqp_chunk server_info_fields_def
        queryStateToServerInfo_def zero_query_state_def)
  from sqp_response_decodes [OF r _ _ _ _ refl refl, of "[9]"] parts r len show ?thesis
    by (simp add: sqp_string_ok_def zero_query_state_def expected_info_def del: of_nat_Suc) 
       (intro exI conjI, assumption, simp)
qed

text \<open>
  What a reader makes of a written string, for every string: it gets the first
  \<open>len(s) mod 256\<close> bytes, and takes the rest of the string for the fields that follow. From
  256 bytes on the packet is not decodable any more.
\<close>

theorem sqp_string_length_wraps:
  "\<exists>out. sqp_WriteString resp s = Inr out \<and>
     sqp_read_string (drop (length resp) out @ r) =
       Some (take (length s mod 256) s, bytes_of_string (drop (length s mod 256) s) @ r)"
proof -
  have "sqp_WriteString resp s = Inr (resp @ sqp_string_bytes s)"
    by (simp add: sqp_WriteString_def binary_write_def sqp_string_bytes_def)
  then show ?thesis by (simp add: sqp_read_string_eq)
qed

text \<open>
  In any traffic, from any clients and with any purges in between, an address receives at
  most as many query responses as challenge packets.
\<close>

theorem sqp_info_at_most_challenges:
  assumes "serve sqp_Respond delete_challenge new_query_base ts = Return (q', sent)"
  shows "info_packets sqp_is_challenge a sent \<le> challenge_packets sqp_is_challenge a sent"
  by (rule sqp.info_le_challenges [OF assms]) (simp add: pending_new)

theorem sqp_info_at_most_challenges_witness:
  "\<exists>q' sent. serve sqp_Respond delete_challenge new_query_base
      [Request None (sample_env 5 7) ''c'' (sqp_challenge_request 3),
       Request (Some zero_query_state) (sample_env 6 8) ''c'' (sqp_query_request 7 1 1 3)]
      = Return (q', sent) \<and>
     info_packets sqp_is_challenge ''c'' sent = 1 \<and>
     info_packets sqp_is_challenge ''c'' sent \<le> challenge_packets sqp_is_challenge ''c'' sent"
proof -
  let ?ts = "[Request None (sample_env 5 7) ''c'' (sqp_challenge_request 3),
       Request (Some zero_query_state) (sample_env 6 8) ''c'' (sqp_query_request 7 1 1 3)]"
  let ?sent = "[(''c'', sqp_challenge_packet 7),
       (''c'', sqp_response 7 (sqp_payload True False (Some zero_query_state)))]"
  obtain q1 g where g: "GenerateChallenge (sample_env 5 7) ''c'' new_query_base = (q1, g, Inr 7)"
    using sample_generate_ok by blast
  have "(1 :: uint16) \<le> 2" by simp
  from sqp_exchange [OF g this, of "Some zero_query_state" 1 None 3 "sample_env 6 8" None "sample_env 6 8"]
  obtain q' where s: "serve sqp_Respond delete_challenge new_query_base ?ts = Return (q', ?sent)"
    by auto
  from sqp_info_at_most_challenges [OF s, of "''c''"] s show ?thesis
    by (intro exI [of _ q'] exI [of _ ?sent]) (simp add: info_packets_def)
qed

text \<open>
  On a buffer of eight bytes or more the responder panics in one case only: the responder
  has no state, and an accepted version 2 query asks for the metrics chunk (the server info
  chunk does cope with a nil state).
\<close>

theorem sqp_panics_iff:
  assumes "8 \<le> slice_len buf"
  shows "(\<exists>p. sqp_Respond st env q a buf = Panic p) \<longleftrightarrow>
     st = None \<and> elems buf ! 0 = 1 \<and> query_version (elems buf) = 2 \<and> wants_metrics (elems buf) \<and>
     pending q a = Some (query_challenge (elems buf))"
proof -
  have chal: "\<not> (\<exists>p. handleChallenge env q a = Panic p)"
    by (auto simp: handleChallenge_eq split: prod.splits sum.splits)
  have redeem: "snd (ChallengeMatchesForClient a c q) = None \<longleftrightarrow> pending q a = Some c" for c
    by (rule matches_ok_iff [OF prod.collapse [symmetric]])
  obtain b r where b: "elems buf = b # r"
    using assms by (cases "elems buf") (auto simp: slice_len_def)
  have "is_challenge_request buf \<Longrightarrow> b = 0"
    by (simp add: is_challenge_request_def b take_Cons')
  moreover have "\<not> slice_cap buf < 5" using assms by (simp add: slice_defs)
  ultimately show ?thesis
    using chal by (auto simp: sqp_Respond_eq handleQuery_eq [OF assms] metrics_panic_def redeem b)
qed

theorem sqp_panics_iff_witness:
  "\<exists>p. sqp_Respond None (sample_env 6 8)
     \<lparr>challenges = [''c'' \<mapsto> sample_entry 0 7], challengesLastPurgedUTC = 0\<rparr> ''c''
     (sqp_query_request 7 2 16 0) = Panic p"
proof -
  let ?b = "sqp_query_request 7 2 16 0"
  note parts = query_request_parts [OF refl, of 7 2 16 0]
  have "8 \<le> slice_len ?b" by (rule sqp_query_request_Respond)
  moreover have "elems ?b ! 0 = 1" by (simp add: sqp_query_request_def of_list_def)
  ultimately show ?thesis
    using parts by (subst sqp_panics_iff) (simp_all add: pending_def sample_entry_def)
qed

end
