(* ===== verification/Proto_A2S.thy ===== *)
theory Proto_A2S
  imports Proto_Base Responder_Contract
begin

text \<open>
  The package \<open>game-server-hosting/server/proto/a2s\<close>: parsing of \<open>A2S_INFO\<close> requests, the
  challenge exchange and the info response.

  The responder's \<open>State\<close> is a pointer to the server's query state. A call reads through it,
  so the model passes the state at the time of the call (\<open>None\<close> for a nil pointer). The
  operating system name is a parameter, as \<open>runtime.GOOS\<close> is fixed when the SDK is built.
\<close>

section \<open>Encoder\<close>

definition a2s_WriteString :: "byte list \<Rightarrow> go_string \<Rightarrow> query_error + byte list" where
  "a2s_WriteString resp s =
     Inr (binary_write LittleEndian resp (Bytes (bytes_of_string (s @ [CHR 0x00]))))"

definition a2s_Write :: "byte list \<Rightarrow> basic \<Rightarrow> query_error + byte list" where
  "a2s_Write resp v = Inr (binary_write LittleEndian resp v)"

definition a2s_encoder :: "query_error wire_encoder" where
  "a2s_encoder = \<lparr>WriteString = a2s_WriteString, Write = a2s_Write\<rparr>"

text \<open>A reader for NUL-terminated strings.\<close>

definition a2s_string_bytes :: "go_string \<Rightarrow> byte list" where
  "a2s_string_bytes s = bytes_of_string s @ [0]"

definition a2s_read_string :: "byte list \<Rightarrow> (go_string \<times> byte list) option" where
  "a2s_read_string bs =
     (case dropWhile (\<lambda>b. b \<noteq> 0) bs of
        [] \<Rightarrow> None
      | _ # r \<Rightarrow> Some (string_of_bytes (takeWhile (\<lambda>b. b \<noteq> 0) bs), r))"

definition a2s_string_ok :: "go_string \<Rightarrow> bool" where
  "a2s_string_ok s \<longleftrightarrow> CHR 0x00 \<notin> set s"

lemma byte_of_char_zero [simp]: "byte_of_char c = 0 \<longleftrightarrow> c = CHR 0x00"
  using byte_of_char_eq_iff [of c "CHR 0x00"] by (simp add: byte_of_char_def)

lemma nul_free_bytes: "a2s_string_ok s \<Longrightarrow> b \<in> set (bytes_of_string s) \<Longrightarrow> b \<noteq> 0"
  by (auto simp: a2s_string_ok_def bytes_of_string_def)

lemma a2s_read_string_bytes:
  "a2s_string_ok s \<Longrightarrow> a2s_read_string (a2s_string_bytes s @ r) = Some (s, r)"
  using nul_free_bytes [of s]
  by (simp add: a2s_read_string_def a2s_string_bytes_def takeWhile_append2 dropWhile_append2)

lemma a2s_written_string: "bytes_of_string (s @ [CHR 0x00]) = a2s_string_bytes s"
  by (simp add: a2s_string_bytes_def) (simp add: bytes_of_string_def byte_of_char_def)

interpretation a2s_enc: wire_codec a2s_encoder a2s_string_bytes "binary_bytes LittleEndian"
    LittleEndian a2s_read_string a2s_string_ok
  by unfold_locales
     (simp_all add: a2s_encoder_def a2s_WriteString_def a2s_Write_def binary_write_def
       a2s_written_string a2s_read_string_bytes del: bytes_of_string_append)

section \<open>Wire formats\<close>

record a2s_challengeWireFormat =
  c_Header :: "byte list"
  c_Challenge :: uint32

record infoWireFormat =
  i_Header :: "byte list"
  i_Protocol :: byte
  i_ServerName :: go_string
  i_GameMap :: go_string
  i_GameFolder :: go_string
  i_GameName :: go_string
  i_SteamAppID :: "16 word"
  i_PlayerCount :: byte
  i_MaxPlayers :: byte
  i_NumBots :: byte
  i_ServerType :: byte
  i_Environment :: byte
  i_Visibility :: byte
  i_VACEnabled :: byte
  i_Version :: go_string

record infoRequest =
  Payload :: go_string
  Challenge :: uint32

text \<open>The fields of the two response structs, in declaration order.\<close>

definition a2s_challenge_fields :: "a2s_challengeWireFormat \<Rightarrow> field list" where
  "a2s_challenge_fields f =
     [FVal (EBasic (Bytes (c_Header f))), FVal (EBasic (U32 (c_Challenge f)))]"

definition info_fields :: "infoWireFormat \<Rightarrow> field list" where
  "info_fields w =
     [FVal (EBasic (Bytes (i_Header w))),
      FVal (EBasic (U8 (i_Protocol w))),
      FVal (EString (i_ServerName w)),
      FVal (EString (i_GameMap w)),
      FVal (EString (i_GameFolder w)),
      FVal (EString (i_GameName w)),
      FVal (EBasic (I16 (i_SteamAppID w))),
      FVal (EBasic (U8 (i_PlayerCount w))),
      FVal (EBasic (U8 (i_MaxPlayers w))),
      FVal (EBasic (U8 (i_NumBots w))),
      FVal (EBasic (U8 (i_ServerType w))),
      FVal (EBasic (U8 (i_Environment w))),
      FVal (EBasic (U8 (i_Visibility w))),
      FVal (EBasic (U8 (i_VACEnabled w))),
      FVal (EString (i_Version w))]"

definition a2sInfoRequest :: "byte list" where
  "a2sInfoRequest = [0xFF, 0xFF, 0xFF, 0xFF, 0x54]"

definition a2sInfoResponse :: "byte list" where
  "a2sInfoResponse = [0xFF, 0xFF, 0xFF, 0xFF, 0x49]"

definition s2cChallengeResponse :: "byte list" where
  "s2cChallengeResponse = [0xFF, 0xFF, 0xFF, 0xFF, 0x41]"

lemmas a2s_headers = a2sInfoRequest_def a2sInfoResponse_def s2cChallengeResponse_def

definition environmentFromRuntime :: "go_string \<Rightarrow> byte" where
  "environmentFromRuntime rt =
     (if rt = ''darwin'' then byte_of_char (CHR ''m'')
      else if rt = ''windows'' then byte_of_char (CHR ''w'')
      else byte_of_char (CHR ''l''))"

section \<open>Parsing\<close>

text \<open>The loop that looks for the terminator: \<open>for n < len(buf) \<dots> n++\<close>.\<close>

function scan_nul :: "byte list \<Rightarrow> nat \<Rightarrow> nat" where
  "scan_nul buf n =
     (if n < length buf then if buf ! n = 0 then n else scan_nul buf (n + 1) else n)"
  by pat_completeness auto
termination
  by (relation "measure (\<lambda>(buf, n). length buf - n)") auto

declare scan_nul.simps [simp del]

text \<open>
  The two reads of the parser. \<open>binary.Read\<close> into a byte slice of length \<open>l\<close> reads \<open>l\<close> bytes
  (done only when \<open>l > 0\<close>). \<open>rBuf.Next(1)\<close> skips the terminator if there is one; when the
  buffer holds no more, the request has no challenge.
\<close>

definition read_payload :: "nat \<Rightarrow> byte list \<Rightarrow> query_error + (infoRequest \<times> byte list)" where
  "read_payload l rBuf =
     (let info = \<lparr>Payload = [], Challenge = 0\<rparr>
      in if 0 < l
         then case read_full l rBuf of
                Inl e \<Rightarrow> Inl (ErrRead e)
              | Inr (d, rBuf') \<Rightarrow> Inr (info\<lparr>Payload := string_of_bytes d\<rparr>, rBuf')
         else Inr (info, rBuf))"

definition read_challenge ::
  "nat \<Rightarrow> nat \<Rightarrow> infoRequest \<Rightarrow> byte list \<Rightarrow> query_error + infoRequest" where
  "read_challenge n len info rBuf =
     (let rBuf = drop 1 rBuf; n = n + 1
      in if n \<ge> len then Inr info
         else case le_read32 rBuf of
                Inl e \<Rightarrow> Inl (ErrRead e)
              | Inr (c, _) \<Rightarrow> Inr (info\<lparr>Challenge := c\<rparr>))"

definition parseInfoRequest :: "byte slice \<Rightarrow> (query_error + infoRequest) outcome" where
  "parseInfoRequest buf =
     obind (slice_range buf 0 5) (\<lambda>header.
       if elems header \<noteq> a2sInfoRequest then Return (Inl ErrNotAnInfoRequest)
       else obind (slice_from buf 5) (\<lambda>rBuf.
         let n = scan_nul (elems buf) 5;
             l = n - 5
         in Return (rbind (read_payload l (elems rBuf)) (\<lambda>(info, rBuf').
              read_challenge n (slice_len buf) info rBuf'))))"

section \<open>Responding\<close>

text \<open>A new responder; the encoder has no state, and the error of the constructor is always nil.\<close>

definition a2s_NewQueryResponder :: query_base where
  [simp]: "a2s_NewQueryResponder = new_query_base"

type_synonym respond_result =
  "(query_base \<times> time option \<times> (query_error + byte list)) outcome"

definition handleInfoRequest ::
  "go_string \<Rightarrow> query_state option \<Rightarrow> gen_env \<Rightarrow> query_base \<Rightarrow> go_string \<Rightarrow> byte slice \<Rightarrow>
   respond_result" where
  "handleInfoRequest goos st env q clientAddress buf =
     obind (parseInfoRequest buf) (\<lambda>parsed.
       case parsed of
         Inl err \<Rightarrow> Return (q, None, Inl err)
       | Inr info \<Rightarrow>
           if Challenge info = 0 then
             (case GenerateChallenge env clientAddress q of
                (q', goroutine, Inl err) \<Rightarrow> Return (q', goroutine, Inl err)
              | (q', goroutine, Inr challenge) \<Rightarrow>
                  Return (q', goroutine, WireWrite [] a2s_encoder
                    (a2s_challenge_fields
                      \<lparr>c_Header = s2cChallengeResponse, c_Challenge = challenge\<rparr>)))
           else
             (case ChallengeMatchesForClient clientAddress (Challenge info) q of
                (q', Some err) \<Rightarrow> Return (q', None, Inl err)
              | (q', None) \<Rightarrow>
                  (let w = \<lparr>i_Header = a2sInfoResponse, i_Protocol = 1,
                         i_ServerName = ''n/a'', i_GameMap = ''n/a'', i_GameFolder = ''n/a'',
                         i_GameName = ''n/a'', i_SteamAppID = 0, i_PlayerCount = 0,
                         i_MaxPlayers = 0, i_NumBots = 0,
                         i_ServerType = byte_of_char (CHR ''d''),
                         i_Environment = environmentFromRuntime goos,
                         i_Visibility = 0, i_VACEnabled = 0, i_Version = []\<rparr>;
                       w = (case st of
                              None \<Rightarrow> w
                            | Some qs \<Rightarrow> w\<lparr>i_ServerName := ServerName qs,
                                i_GameMap := MapName qs,
                                i_PlayerCount := ucast (CurrentPlayers qs),
                                i_MaxPlayers := ucast (MaxPlayers qs),
                                i_GameName := GameType qs\<rparr>)
                   in Return (q', None, WireWrite [] a2s_encoder (info_fields w)))))"

definition a2s_Respond ::
  "go_string \<Rightarrow> query_state option \<Rightarrow> gen_env \<Rightarrow> query_base \<Rightarrow> go_string \<Rightarrow> byte slice \<Rightarrow>
   respond_result" where
  "a2s_Respond goos st env q clientAddress buf =
     obind (slice_range buf 0 5) (\<lambda>header.
       if elems header = a2sInfoRequest then handleInfoRequest goos st env q clientAddress buf
       else obind (slice_range buf 0 5) (\<lambda>header.
         Return (q, None, Inl (NewUnsupportedQueryError (elems header)))))"

section \<open>Facts about parsing\<close>

lemma scan_nul_eq:
  "n \<le> length buf \<Longrightarrow> scan_nul buf n = n + length (takeWhile (\<lambda>b. b \<noteq> 0) (drop n buf))"
proof (induction buf n rule: scan_nul.induct)
  case (1 buf n)
  show ?case
  proof (cases "n < length buf \<and> buf ! n \<noteq> 0")
    case True
    then have "drop n buf = buf ! n # drop (n + 1) buf"
      by (simp add: Cons_nth_drop_Suc)
    with True 1 show ?thesis by (simp add: scan_nul.simps [of buf n])
  next
    case False
    with 1 show ?thesis
      by (cases "drop n buf") (auto simp: scan_nul.simps [of buf n] nth_via_drop)
  qed
qed

lemma length_a2sInfoRequest [simp]: "length a2sInfoRequest = 5"
  by (simp add: a2sInfoRequest_def)

lemma slice_header:
  "elems buf = a2sInfoRequest @ r \<Longrightarrow>
   slice_range buf 0 5 = Return \<lparr>elems = a2sInfoRequest, spare = r @ spare buf\<rparr>"
  by (simp add: slice_defs)

lemma slice_body:
  "elems buf = a2sInfoRequest @ r \<Longrightarrow> slice_from buf 5 = Return \<lparr>elems = r, spare = spare buf\<rparr>"
  by (simp add: slice_defs)

lemma drop_takeWhile_length: "drop (length (takeWhile P xs)) xs = dropWhile P xs"
  by (induction xs) auto

lemma take_takeWhile_length: "take (length (takeWhile P xs)) xs = takeWhile P xs"
  by (induction xs) auto

lemma length_takeWhile_dropWhile: "length (takeWhile P xs) + length (dropWhile P xs) = length xs"
  by (metis length_append takeWhile_dropWhile_id)

text \<open>
  What the parser computes on a request with the info header, without indices: the payload
  up to the first NUL (or the end), then the challenge.
\<close>

definition info_request_spec :: "byte list \<Rightarrow> query_error + infoRequest" where
  "info_request_spec r =
     (let payload = string_of_bytes (takeWhile (\<lambda>b. b \<noteq> 0) r);
          tail = drop 1 (dropWhile (\<lambda>b. b \<noteq> 0) r)
      in if tail = [] then Inr \<lparr>Payload = payload, Challenge = 0\<rparr>
         else if length tail < 4 then Inl (ErrRead UnexpectedEOF)
         else Inr \<lparr>Payload = payload,
                Challenge = le_get32 (tail ! 0) (tail ! 1) (tail ! 2) (tail ! 3)\<rparr>)"

lemma parseInfoRequest_eq:
  assumes "elems buf = a2sInfoRequest @ r"
  shows "parseInfoRequest buf = Return (info_request_spec r)"
proof -
  define p where "p = takeWhile (\<lambda>b. b \<noteq> 0) r"
  define d where "d = dropWhile (\<lambda>b. b \<noteq> 0) r"
  have n: "scan_nul (elems buf) 5 = 5 + length p"
    using scan_nul_eq [of 5 "elems buf"] assms by (simp add: p_def)
  have len: "slice_len buf = 5 + length p + length d"
    using length_takeWhile_dropWhile [of "\<lambda>b. b \<noteq> 0" r] assms
    by (simp add: slice_len_def p_def d_def)
  have drop_p: "drop (length p) r = d" "take (length p) r = p"
    by (simp_all add: p_def d_def drop_takeWhile_length take_takeWhile_length)
  have "length p \<le> length r" by (simp add: p_def length_takeWhile_le)
  then have payload:
    "read_payload (length p) r = Inr (\<lparr>Payload = string_of_bytes p, Challenge = 0\<rparr>, d)"
    using drop_p by (cases p) (auto simp: read_payload_def read_full_def string_of_bytes_def)
  have challenge: "read_challenge (5 + length p) (5 + length p + length d) info d =
      (if drop 1 d = [] then Inr info
       else if length (drop 1 d) < 4 then Inl (ErrRead UnexpectedEOF)
       else Inr (info\<lparr>Challenge :=
         le_get32 (drop 1 d ! 0) (drop 1 d ! 1) (drop 1 d ! 2) (drop 1 d ! 3)\<rparr>))" for info
    by (auto simp: read_challenge_def le_read32_def read_full_def)
  show ?thesis
    unfolding parseInfoRequest_def slice_header [OF assms] slice_body [OF assms] info_request_spec_def
    by (simp add: n len payload challenge p_def [symmetric] d_def [symmetric])
qed

section \<open>Facts about the responses\<close>

text \<open>The two packets the responder can send, as byte strings.\<close>

definition a2s_challenge_packet :: "uint32 \<Rightarrow> byte list" where
  "a2s_challenge_packet v = s2cChallengeResponse @ le_put32 v"

definition a2s_info :: "go_string \<Rightarrow> query_state option \<Rightarrow> infoWireFormat" where
  "a2s_info goos st =
     \<lparr>i_Header = a2sInfoResponse, i_Protocol = 1,
      i_ServerName = (case st of None \<Rightarrow> ''n/a'' | Some qs \<Rightarrow> ServerName qs),
      i_GameMap = (case st of None \<Rightarrow> ''n/a'' | Some qs \<Rightarrow> MapName qs),
      i_GameFolder = ''n/a'',
      i_GameName = (case st of None \<Rightarrow> ''n/a'' | Some qs \<Rightarrow> GameType qs),
      i_SteamAppID = 0,
      i_PlayerCount = (case st of None \<Rightarrow> 0 | Some qs \<Rightarrow> ucast (CurrentPlayers qs)),
      i_MaxPlayers = (case st of None \<Rightarrow> 0 | Some qs \<Rightarrow> ucast (MaxPlayers qs)),
      i_NumBots = 0, i_ServerType = byte_of_char (CHR ''d''),
      i_Environment = environmentFromRuntime goos, i_Visibility = 0, i_VACEnabled = 0,
      i_Version = []\<rparr>"

definition a2s_info_packet :: "go_string \<Rightarrow> query_state option \<Rightarrow> byte list" where
  "a2s_info_packet goos st =
     wire_bytes a2s_string_bytes (binary_bytes LittleEndian) (info_fields (a2s_info goos st))"

lemma a2s_challenge_bytes:
  "wire_bytes a2s_string_bytes (binary_bytes LittleEndian)
     (a2s_challenge_fields \<lparr>c_Header = s2cChallengeResponse, c_Challenge = v\<rparr>)
   = a2s_challenge_packet v"
  by (simp add: a2s_challenge_fields_def a2s_challenge_packet_def)

lemma a2s_Respond_eq:
  assumes "elems buf = a2sInfoRequest @ r"
  shows "a2s_Respond goos st env q a buf = Return
    (case info_request_spec r of
       Inl err \<Rightarrow> (q, None, Inl err)
     | Inr info \<Rightarrow>
         if Challenge info = 0 then
           (case GenerateChallenge env a q of
              (q', g, Inl err) \<Rightarrow> (q', g, Inl err)
            | (q', g, Inr v) \<Rightarrow> (q', g, Inr (a2s_challenge_packet v)))
         else
           (case ChallengeMatchesForClient a (Challenge info) q of
              (q', Some err) \<Rightarrow> (q', None, Inl err)
            | (q', None) \<Rightarrow> (q', None, Inr (a2s_info_packet goos st))))"
  unfolding a2s_Respond_def handleInfoRequest_def slice_header [OF assms]
    parseInfoRequest_eq [OF assms]
  by (auto simp: a2s_challenge_bytes a2s_enc.WireWrite_appends a2s_info_packet_def a2s_info_def
      Let_def split: sum.splits prod.splits option.splits)

lemma a2s_Respond_other:
  assumes "a2s_Respond goos st env q a buf = Return (q', g, r)"
    and "\<And>t. elems buf \<noteq> a2sInfoRequest @ t"
  shows "q' = q \<and> (\<exists>e. r = Inl e)"
proof -
  from assms(1) obtain h where h: "slice_range buf 0 5 = Return h"
    by (auto simp: a2s_Respond_def obind_eq_Return)
  show ?thesis
  proof (cases "elems h = a2sInfoRequest")
    case True
    have "slice_len buf < 5"
    proof (rule ccontr)
      assume "\<not> slice_len buf < 5"
      then have "elems h = take 5 (elems buf)"
        using slice_range_elems [OF h] by simp
      with True have "elems buf = a2sInfoRequest @ drop 5 (elems buf)"
        by (metis append_take_drop_id)
      with assms(2) show False by blast
    qed
    then have "parseInfoRequest buf = Panic SliceBoundsOutOfRange"
      using h True by (simp add: parseInfoRequest_def slice_from_def slice_range_def)
    with assms(1) h True show ?thesis by (simp add: a2s_Respond_def handleInfoRequest_def)
  qed (use assms(1) h in \<open>auto simp: a2s_Respond_def\<close>)
qed

text \<open>The client tells the two packets apart by the fifth byte.\<close>

definition a2s_is_challenge :: "byte list \<Rightarrow> bool" where
  "a2s_is_challenge p \<longleftrightarrow> take 5 p = s2cChallengeResponse"

lemma a2s_is_challenge_packets [simp]:
  "a2s_is_challenge (a2s_challenge_packet v)"
  "\<not> a2s_is_challenge (a2s_info_packet goos st)"
  by (simp_all add: a2s_is_challenge_def a2s_challenge_packet_def a2s_info_packet_def info_fields_def
      a2s_info_def a2s_headers)

lemma a2s_Respond_cases:
  assumes "a2s_Respond goos st env q a buf = Return (q', g, r)"
  obtains (error) e where "r = Inl e" "pending q' = pending q"
  | (refused) c e where "r = Inl e" "ChallengeMatchesForClient a c q = (q', Some e)"
  | (challenge) v where "r = Inr (a2s_challenge_packet v)" "GenerateChallenge env a q = (q', g, Inr v)"
  | (info) c where "r = Inr (a2s_info_packet goos st)" "ChallengeMatchesForClient a c q = (q', None)"
proof (cases "\<exists>t. elems buf = a2sInfoRequest @ t")
  case True
  then obtain t where t: "elems buf = a2sInfoRequest @ t" by blast
  show ?thesis
    using assms a2s_Respond_eq [OF t, of goos st env q a]
    by (auto split: sum.splits prod.splits option.splits if_splits
        intro: error refused challenge info dest: generate_pending_err)
next
  case False
  then show ?thesis using a2s_Respond_other [OF assms] error by blast
qed

interpretation a2s: query_responder pending "\<lambda>(goos, st). a2s_Respond goos st"
    delete_challenge a2s_is_challenge
proof
  fix st env q a buf q' g e b
  assume "(\<lambda>(goos, st). a2s_Respond goos st) st env q a buf = Return (q', g, Inl e)"
  then have "a2s_Respond (fst st) (snd st) env q a buf = Return (q', g, Inl e)"
    by (cases st) simp
  then show "\<exists>evs. ledger_reach (pending q) evs (pending q') \<and>
      issues_to b evs = 0 \<and> accepts_from b evs = 0"
  proof (cases rule: a2s_Respond_cases)
    case error
    then show ?thesis by (intro exI [of _ "[]"]) auto
  next
    case (refused c e)
    then show ?thesis using qb.mat_reach [OF refused(2)] by (intro exI [of _ "[Refused a]"]) simp
  qed auto
next
  fix st env q a buf q' g p
  assume "(\<lambda>(goos, st). a2s_Respond goos st) st env q a buf = Return (q', g, Inr p)"
    and "a2s_is_challenge p"
  then show "\<exists>v. ledger_reach (pending q) [Issued a v] (pending q')"
    by (cases st) (auto elim!: a2s_Respond_cases dest!: qb.gen_reach)
next
  fix st env q a buf q' g p
  assume "(\<lambda>(goos, st). a2s_Respond goos st) st env q a buf = Return (q', g, Inr p)"
    and "\<not> a2s_is_challenge p"
  then show "\<exists>v. ledger_reach (pending q) [Accepted a v] (pending q')"
    by (cases st) (auto elim!: a2s_Respond_cases dest!: qb.mat_reach)
qed (rule qb.forget_reach)

section \<open>Properties of the A2S responder\<close>

text \<open>
  The buffer a client's request arrives in: header, payload, terminator, challenge, and the
  zero bytes of the cleared read buffer behind it. A challenge of 0 is "no challenge".
\<close>

definition a2s_request :: "go_string \<Rightarrow> uint32 \<Rightarrow> nat \<Rightarrow> byte slice" where
  "a2s_request payload c n =
     of_list (a2sInfoRequest @ a2s_string_bytes payload @ le_put32 c @ replicate n 0)"

lemma a2s_request_spec:
  "a2s_string_ok p \<Longrightarrow>
   info_request_spec (a2s_string_bytes p @ le_put32 c @ r) = Inr \<lparr>Payload = p, Challenge = c\<rparr>"
  using nul_free_bytes [of p]
  by (simp add: info_request_spec_def a2s_string_bytes_def takeWhile_append2 dropWhile_append2
      Let_def) (simp add: le_put32_def)

lemma elems_a2s_request:
  "elems (a2s_request p c n) =
     a2sInfoRequest @ a2s_string_bytes p @ le_put32 c @ replicate n 0"
  by (simp add: a2s_request_def of_list_def)

lemma generate_Some:
  "randRead env = Inr (b0, b1, b2, b3) \<Longrightarrow>
   \<exists>q' g. GenerateChallenge env a q = (q', g, Inr (be_get32 b0 b1 b2 b3))"
  by (simp add: generate_defs Let_def split: prod.splits)

lemma redeem_pending:
  "pending q a = Some c \<Longrightarrow> \<exists>q'. ChallengeMatchesForClient a c q = (q', None) \<and> pending q' a = None"
  using matches_ok_iff [of a c q] matches_pending [of a c q]
  by (cases "ChallengeMatchesForClient a c q") auto

lemma a2s_exchange:
  assumes "a2s_string_ok p" and "randRead env = Inr (b0, b1, b2, b3)"
    and "be_get32 b0 b1 b2 b3 \<noteq> 0"
  shows "\<exists>q1 g q2 q3.
    a2s_Respond goos st0 env q a (a2s_request p 0 n)
      = Return (q1, g, Inr (a2s_challenge_packet (be_get32 b0 b1 b2 b3))) \<and>
    a2s_Respond goos st1 env1 q1 a (a2s_request p (be_get32 b0 b1 b2 b3) n)
      = Return (q2, None, Inr (a2s_info_packet goos st1)) \<and>
    a2s_Respond goos st2 env2 q2 a (a2s_request p (be_get32 b0 b1 b2 b3) n)
      = Return (q3, None, Inl ErrNoChallenge)"
proof -
  let ?v = "be_get32 b0 b1 b2 b3"
  obtain q1 g where g: "GenerateChallenge env a q = (q1, g, Inr ?v)"
    using generate_Some [OF assms(2)] by blast
  then have "pending q1 a = Some ?v" by (simp add: generate_pending_ok)
  then obtain q2 where m: "ChallengeMatchesForClient a ?v q1 = (q2, None)"
    using redeem_pending by blast
  then have "challenges q2 a = None"
    by (auto simp: ChallengeMatchesForClient_def Let_def
        split: option.splits map_value.splits if_splits)
  then obtain q3 where m2: "ChallengeMatchesForClient a ?v q2 = (q3, Some ErrNoChallenge)"
    by (simp add: ChallengeMatchesForClient_def Let_def)
  note eq = a2s_Respond_eq [OF elems_a2s_request] a2s_request_spec [OF assms(1)]
  have "a2s_Respond goos st0 env q a (a2s_request p 0 n) = Return (q1, g, Inr (a2s_challenge_packet ?v))"
    by (simp add: eq g)
  moreover have "a2s_Respond goos st1 env1 q1 a (a2s_request p ?v n)
      = Return (q2, None, Inr (a2s_info_packet goos st1))"
    using assms(3) by (simp add: eq m)
  moreover have "a2s_Respond goos st2 env2 q2 a (a2s_request p ?v n)
      = Return (q3, None, Inl ErrNoChallenge)"
    using assms(3) by (simp add: eq m2)
  ultimately show ?thesis by blast
qed

text \<open>
  C6. The index-and-cursor parser computes the structural reading of a request: header,
  payload up to the first NUL or the end of the buffer, then no challenge, a truncated one
  (an unexpected end of file) or a little-endian one.
\<close>

theorem a2s_parse_equivalence:
  assumes "5 \<le> slice_len buf"
  shows "parseInfoRequest buf = Return
    (if take 5 (elems buf) = a2sInfoRequest then info_request_spec (drop 5 (elems buf))
     else Inl ErrNotAnInfoRequest)"
proof (cases "take 5 (elems buf) = a2sInfoRequest")
  case True
  then have "elems buf = a2sInfoRequest @ drop 5 (elems buf)"
    by (metis append_take_drop_id)
  with True show ?thesis by (simp add: parseInfoRequest_eq)
next
  case False
  with slice_range_prefix [OF assms] show ?thesis by (simp add: parseInfoRequest_def)
qed

theorem a2s_parse_equivalence_witness:
  "parseInfoRequest (of_list (a2sInfoRequest @ [104, 105, 0, 1, 0, 0]))
     = Return (Inl (ErrRead UnexpectedEOF)) \<and>
   parseInfoRequest (of_list (a2sInfoRequest @ [104, 105, 0, 1, 0, 0, 0]))
     = Return (Inr \<lparr>Payload = ''hi'', Challenge = 1\<rparr>)"
proof -
  have "parseInfoRequest (of_list (a2sInfoRequest @ [104, 105, 0, 1, 0, 0]))
      = Return (Inl (ErrRead UnexpectedEOF))"
    by (subst a2s_parse_equivalence)
       (simp_all add: slice_len_def of_list_def info_request_spec_def a2sInfoRequest_def)
  moreover have "parseInfoRequest (of_list (a2sInfoRequest @ [104, 105, 0, 1, 0, 0, 0]))
      = Return (Inr \<lparr>Payload = ''hi'', Challenge = 1\<rparr>)"
    by (subst a2s_parse_equivalence)
       (simp_all add: slice_len_def of_list_def info_request_spec_def a2sInfoRequest_def
         string_of_bytes_def char_of_byte_def le_get32_def be_get32_def char_of_def bit_0)
  ultimately show ?thesis ..
qed

text \<open>
  C33. The exchange a client goes through, on any state of the store: a request without a
  challenge is answered with the fresh challenge; the same request with that challenge is
  answered with the info packet of the state at that time; a third request that reuses the
  challenge is refused.
\<close>

theorem a2s_handshake:
  assumes "a2s_string_ok p" and "randRead env = Inr (b0, b1, b2, b3)"
    and "be_get32 b0 b1 b2 b3 \<noteq> 0"
  shows "\<exists>q1 g q2 q3.
    a2s_Respond goos st0 env q a (a2s_request p 0 n)
      = Return (q1, g, Inr (a2s_challenge_packet (be_get32 b0 b1 b2 b3))) \<and>
    a2s_Respond goos st1 env1 q1 a (a2s_request p (be_get32 b0 b1 b2 b3) n)
      = Return (q2, None, Inr (a2s_info_packet goos st1)) \<and>
    a2s_Respond goos st2 env2 q2 a (a2s_request p (be_get32 b0 b1 b2 b3) n)
      = Return (q3, None, Inl ErrNoChallenge)"
  using assms by (rule a2s_exchange)

theorem a2s_handshake_witness:
  "\<exists>q1 g q2. a2s_Respond ''linux'' None (sample_env 5 7) new_query_base ''c'' (a2s_request ''x'' 0 3)
      = Return (q1, g, Inr (a2s_challenge_packet 7)) \<and>
    a2s_Respond ''linux'' None (sample_env 6 8) q1 ''c'' (a2s_request ''x'' 7 3)
      = Return (q2, None, Inr (a2s_info_packet ''linux'' None))"
proof -
  have seven: "be_get32 0 0 0 7 = 7" by (simp add: be_get32_def)
  show ?thesis
    using a2s_handshake [of "''x''" "sample_env 5 7" 0 0 0 7 "''linux''" None new_query_base "''c''" 3
        None "sample_env 6 8" None "sample_env 6 8"]
    by (auto simp: a2s_string_ok_def sample_env_def seven)
qed

definition a2s_info_kinds :: "leaf_kind list" where
  "a2s_info_kinds = [KBasic (KBytes 5), KBasic KU8, KString, KString, KString, KString,
     KBasic KI16, KBasic KU8, KBasic KU8, KBasic KU8, KBasic KU8, KBasic KU8, KBasic KU8,
     KBasic KU8, KString]"

definition a2s_decode_info :: "byte list \<Rightarrow> (leaf list \<times> byte list) option" where
  "a2s_decode_info = read_leaves a2s_read_string LittleEndian a2s_info_kinds"

definition a2s_expected_info :: "go_string \<Rightarrow> query_state \<Rightarrow> leaf list" where
  "a2s_expected_info goos qs =
     [LBasic (Bytes a2sInfoResponse), LBasic (U8 1), LString (ServerName qs),
      LString (MapName qs), LString ''n/a'', LString (GameType qs), LBasic (I16 0),
      LBasic (U8 (of_nat (unat (CurrentPlayers qs) mod 256))),
      LBasic (U8 (of_nat (unat (MaxPlayers qs) mod 256))), LBasic (U8 0),
      LBasic (U8 (byte_of_char (CHR ''d''))), LBasic (U8 (environmentFromRuntime goos)),
      LBasic (U8 0), LBasic (U8 0), LString []]"

lemma a2s_info_decode:
  assumes "a2s_string_ok (ServerName qs)" and "a2s_string_ok (MapName qs)"
    and "a2s_string_ok (GameType qs)"
  shows "a2s_decode_info (a2s_info_packet goos (Some qs) @ rest) = Some (a2s_expected_info goos qs, rest)"
proof -
  let ?ls = "wire_leaves (info_fields (a2s_info goos (Some qs)))"
  have "list_all (leaf_ok a2s_string_ok) ?ls"
    using assms by (simp add: info_fields_def a2s_info_def a2s_string_ok_def)
  moreover have "map kind_of_leaf ?ls = a2s_info_kinds"
    by (simp add: info_fields_def a2s_info_def a2s_info_kinds_def a2sInfoResponse_def)
  ultimately show ?thesis
    using a2s_enc.read_leaves_bytes [of ?ls rest]
    by (simp add: a2s_decode_info_def a2s_info_packet_def wire_bytes_leaves)
       (simp add: a2s_expected_info_def info_fields_def a2s_info_def ucast_byte_eq)
qed

text \<open>
  C34. Whatever info packet the responder sends, a client decodes it to the server's query
  state, whatever bytes follow the packet: the strings exactly, the player counts modulo 256.
  The strings must be free of NUL bytes, which the format cannot carry.
\<close>

theorem a2s_info_decodes:
  assumes "a2s_Respond goos (Some qs) env q a buf = Return (q', g, Inr p)"
    and "\<not> a2s_is_challenge p"
    and "a2s_string_ok (ServerName qs)" and "a2s_string_ok (MapName qs)"
    and "a2s_string_ok (GameType qs)"
  shows "a2s_decode_info (p @ rest) = Some
    ([LBasic (Bytes a2sInfoResponse), LBasic (U8 1), LString (ServerName qs),
      LString (MapName qs), LString ''n/a'', LString (GameType qs), LBasic (I16 0),
      LBasic (U8 (of_nat (unat (CurrentPlayers qs) mod 256))),
      LBasic (U8 (of_nat (unat (MaxPlayers qs) mod 256))), LBasic (U8 0),
      LBasic (U8 (byte_of_char (CHR ''d''))), LBasic (U8 (environmentFromRuntime goos)),
      LBasic (U8 0), LBasic (U8 0), LString []], rest)"
proof -
  from assms(1,2) have "p = a2s_info_packet goos (Some qs)"
    by (cases rule: a2s_Respond_cases) auto
  with a2s_info_decode [OF assms(3-5), of goos rest] show ?thesis
    by (simp add: a2s_expected_info_def)
qed

theorem a2s_info_decodes_witness:
  "\<exists>q1 q2 p. a2s_Respond ''linux'' (Some (zero_query_state\<lparr>ServerName := ''foo'', CurrentPlayers := 257\<rparr>))
      (sample_env 6 8) q1 ''c'' (a2s_request ''x'' 7 3) = Return (q2, None, Inr p) \<and>
    a2s_decode_info (p @ [9]) = Some
    ([LBasic (Bytes a2sInfoResponse), LBasic (U8 1), LString ''foo'', LString [],
      LString ''n/a'', LString [], LBasic (I16 0), LBasic (U8 1), LBasic (U8 0), LBasic (U8 0),
      LBasic (U8 (byte_of_char (CHR ''d''))), LBasic (U8 (environmentFromRuntime ''linux'')),
      LBasic (U8 0), LBasic (U8 0), LString []], [9])"
proof -
  let ?qs = "zero_query_state\<lparr>ServerName := ''foo'', CurrentPlayers := 257\<rparr>"
  have seven: "be_get32 0 0 0 7 = 7" by (simp add: be_get32_def)
  obtain q1 q2 where r: "a2s_Respond ''linux'' (Some ?qs) (sample_env 6 8) q1 ''c'' (a2s_request ''x'' 7 3)
      = Return (q2, None, Inr (a2s_info_packet ''linux'' (Some ?qs)))"
    using a2s_exchange [of "''x''" "sample_env 5 7" 0 0 0 7 "''linux''" None new_query_base "''c''" 3
        "Some ?qs" "sample_env 6 8" None "sample_env 6 8"]
    by (auto simp: a2s_string_ok_def sample_env_def seven)
  from a2s_info_decodes [OF r, of "[9]"]
  have "a2s_decode_info (a2s_info_packet ''linux'' (Some ?qs) @ [9]) = Some
    ([LBasic (Bytes a2sInfoResponse), LBasic (U8 1), LString ''foo'', LString [],
      LString ''n/a'', LString [], LBasic (I16 0), LBasic (U8 1), LBasic (U8 0), LBasic (U8 0),
      LBasic (U8 (byte_of_char (CHR ''d''))), LBasic (U8 (environmentFromRuntime ''linux'')),
      LBasic (U8 0), LBasic (U8 0), LString []], [9])"
    by (simp add: a2s_string_ok_def zero_query_state_def)
  with r show ?thesis by blast
qed

text \<open>
  In any traffic, from any clients and with any purges in between, an address receives at
  most as many info packets as challenge packets.
\<close>

theorem a2s_info_at_most_challenges:
  assumes "serve (\<lambda>(goos, st). a2s_Respond goos st) delete_challenge new_query_base ts
    = Return (q', sent)"
  shows "info_packets a2s_is_challenge a sent \<le> challenge_packets a2s_is_challenge a sent"
  by (rule a2s.info_le_challenges [OF assms]) (simp add: pending_new)

theorem a2s_info_at_most_challenges_witness:
  "\<exists>q' sent. serve (\<lambda>(goos, st). a2s_Respond goos st) delete_challenge new_query_base
      [Request (''linux'', None) (sample_env 5 7) ''c'' (a2s_request ''x'' 0 3),
       Request (''linux'', None) (sample_env 6 8) ''c'' (a2s_request ''x'' 7 3)] = Return (q', sent) \<and>
     info_packets a2s_is_challenge ''c'' sent = 1 \<and>
     info_packets a2s_is_challenge ''c'' sent \<le> challenge_packets a2s_is_challenge ''c'' sent"
proof -
  let ?ts = "[Request (''linux'', None) (sample_env 5 7) ''c'' (a2s_request ''x'' 0 3),
       Request (''linux'', None) (sample_env 6 8) ''c'' (a2s_request ''x'' 7 3)]"
  let ?sent = "[(''c'', a2s_challenge_packet 7), (''c'', a2s_info_packet ''linux'' None)]"
  have "be_get32 0 0 0 7 = 7" by (simp add: be_get32_def)
  then obtain q' where s: "serve (\<lambda>(goos, st). a2s_Respond goos st) delete_challenge new_query_base ?ts
      = Return (q', ?sent)"
    using a2s_exchange [of "''x''" "sample_env 5 7" 0 0 0 7 "''linux''" None new_query_base "''c''" 3
        None "sample_env 6 8" None "sample_env 6 8"]
    by (auto simp: a2s_string_ok_def sample_env_def)
  from a2s_info_at_most_challenges [OF s, of "''c''"] s show ?thesis
    by (intro exI [of _ q'] exI [of _ ?sent]) (simp add: info_packets_def)
qed

lemma a2s_panic_cases:
  "(\<exists>p. a2s_Respond goos st env q a buf = Panic p) \<longleftrightarrow>
     slice_cap buf < 5 \<or>
     slice_len buf < 5 \<and> take 5 (elems buf @ spare buf) = a2sInfoRequest"
proof (cases "5 \<le> slice_len buf")
  case True
  have "\<exists>r. a2s_Respond goos st env q a buf = Return r"
  proof (cases "take 5 (elems buf) = a2sInfoRequest")
    case True
    then have "elems buf = a2sInfoRequest @ drop 5 (elems buf)" by (metis append_take_drop_id)
    from a2s_Respond_eq [OF this] show ?thesis by blast
  next
    case False
    with slice_range_prefix [OF True] show ?thesis by (simp add: a2s_Respond_def)
  qed
  with True show ?thesis by (auto simp: slice_defs)
next
  case False
  then show ?thesis
    by (auto simp: a2s_Respond_def handleInfoRequest_def parseInfoRequest_def slice_defs)
qed

text \<open>
  When the responder panics, for every buffer: its capacity is below the five bytes of a
  header, or its length is, and the bytes up to its capacity happen to complete the info
  header. On five bytes or more it never does.
\<close>

theorem a2s_panics_iff:
  "(\<exists>p. a2s_Respond goos st env q a buf = Panic p) \<longleftrightarrow>
     slice_cap buf < 5 \<or>
     slice_len buf < 5 \<and> take 5 (elems buf @ spare buf) = a2sInfoRequest"
  by (rule a2s_panic_cases)

end
