(* ===== verification/Gsh_Server.thy ===== *)
theory Gsh_Server
  imports Gsh_Config Udp_Binding Proxy_Http Proto_SQP Proto_A2S
begin

text \<open>
  The files \<open>server.go\<close>, \<open>option.go\<close> and \<open>error.go\<close> of \<open>game-server-hosting/server\<close>: the state of
  a game server, its construction, the setters of the query state, the metrics, the
  configuration and the operations on the local proxy. (\<open>Start\<close>, \<open>Stop\<close> and the goroutines are
  in \<open>Gsh_Query\<close>, \<open>Gsh_Events\<close> and \<open>Gsh_Lifecycle\<close>.) Each operation holds its lock for its
  whole body, so it is one step on the state.
\<close>

section \<open>The state of a server\<close>

datatype server_type = TypeAllocation | TypeReservation

text \<open>The two implementations of \<open>proto.QueryResponder\<close>; both point to the server's own state.\<close>

datatype query_proto = A2SProto query_base | SQPProto query_base

text \<open>The methods registered as callbacks with the local proxy client.\<close>

datatype callback = WatchAllocation | WatchDeallocation

record server =
  allocatedUUID :: go_string
  cfgFile :: go_string
  internalEventProcessorReady :: "unit chan"
  eventWatcherReady :: "gsh_error option chan"
  queryBind :: "udp_binding option"
  queryProto :: "query_proto option"
  serverType :: server_type
  state :: query_state
  chanAllocated :: "go_string chan"
  chanConfigurationChanged :: "config chan"
  chanDeallocated :: "go_string chan"
  chanError :: "gsh_error chan"
  currentConfig :: config
  queryWriteBufferSizeBytes :: int
  queryWriteDeadlineDuration :: duration
  queryReadBufferSizeBytes :: int
  queryReadDeadlineDuration :: duration
  localProxyClient :: "callback client option"
  srvDone :: "unit chan"

definition Second :: duration where "Second = 10 ^ 9"

definition DefaultWriteBufferSizeBytes :: int where "DefaultWriteBufferSizeBytes = 1024"
definition DefaultWriteDeadlineDuration :: duration where "DefaultWriteDeadlineDuration = 1 * Second"
definition DefaultReadDeadlineDuration :: duration where "DefaultReadDeadlineDuration = 3 * Second"
definition DefaultReadBufferSizeBytes :: int where "DefaultReadBufferSizeBytes = 1024"

text \<open>\<open>New\<close>: the home directory and \<open>filepath.Join\<close> are given by the operating system.\<close>

type_synonym server_option = "server \<Rightarrow> server"

definition fresh_server :: "server_type \<Rightarrow> go_string \<Rightarrow> server" where
  "fresh_server t path =
     \<lparr>allocatedUUID = [], cfgFile = path,
      internalEventProcessorReady = make_chan 1, eventWatcherReady = make_chan 1,
      queryBind = None, queryProto = None, serverType = t, state = zero_query_state,
      chanAllocated = make_chan 1, chanConfigurationChanged = make_chan 1,
      chanDeallocated = make_chan 1, chanError = make_chan 1, currentConfig = zero_config,
      queryWriteBufferSizeBytes = DefaultWriteBufferSizeBytes,
      queryWriteDeadlineDuration = DefaultWriteDeadlineDuration,
      queryReadBufferSizeBytes = DefaultReadBufferSizeBytes,
      queryReadDeadlineDuration = DefaultReadDeadlineDuration,
      localProxyClient = None, srvDone = make_chan 1\<rparr>"

definition New ::
  "go_string + go_string \<Rightarrow> (go_string \<Rightarrow> go_string \<Rightarrow> go_string) \<Rightarrow> server_type \<Rightarrow>
   server_option list \<Rightarrow> gsh_error + server" where
  "New home join t opts =
     (case home of
        Inl e \<Rightarrow> Inl (HomeDir e)
      | Inr dir \<Rightarrow> Inr (fold (\<lambda>opt s. opt s) opts (fresh_server t (join dir ''server.json''))))"

definition WithQueryWriteBuffer :: "int \<Rightarrow> server_option" where
  "WithQueryWriteBuffer n s = s\<lparr>queryWriteBufferSizeBytes := n\<rparr>"

definition WithQueryReadBuffer :: "int \<Rightarrow> server_option" where
  "WithQueryReadBuffer n s = s\<lparr>queryReadBufferSizeBytes := n\<rparr>"

definition WithQueryWriteDeadlineDuration :: "duration \<Rightarrow> server_option" where
  "WithQueryWriteDeadlineDuration d s = s\<lparr>queryWriteDeadlineDuration := d\<rparr>"

definition WithQueryReadDeadlineDuration :: "duration \<Rightarrow> server_option" where
  "WithQueryReadDeadlineDuration d s = s\<lparr>queryReadDeadlineDuration := d\<rparr>"

definition WithConfigPath :: "go_string \<Rightarrow> server_option" where
  "WithConfigPath p s = s\<lparr>cfgFile := p\<rparr>"

section \<open>Reports and configuration\<close>

definition PushError :: "gsh_error \<Rightarrow> server \<Rightarrow> server" where
  "PushError e s = s\<lparr>chanError := chan_try_send e (chanError s)\<rparr>"

text \<open>The channels the game reads.\<close>

definition OnAllocate :: "server \<Rightarrow> go_string chan" where
  [simp]: "OnAllocate s = chanAllocated s"

definition OnDeallocate :: "server \<Rightarrow> go_string chan" where
  [simp]: "OnDeallocate s = chanDeallocated s"

definition OnError :: "server \<Rightarrow> gsh_error chan" where
  [simp]: "OnError s = chanError s"

definition OnConfigurationChanged :: "server \<Rightarrow> config chan" where
  [simp]: "OnConfigurationChanged s = chanConfigurationChanged s"

definition Config :: "server \<Rightarrow> config" where
  "Config s = currentConfig s"

definition setConfig :: "config \<Rightarrow> server \<Rightarrow> server" where
  "setConfig c s =
     s\<lparr>currentConfig := c, chanConfigurationChanged := chan_try_send c (chanConfigurationChanged s)\<rparr>"

section \<open>The query state\<close>

definition PlayerJoined :: "server \<Rightarrow> int32 \<times> server" where
  "PlayerJoined s =
     (let s' = s\<lparr>state := (state s)\<lparr>CurrentPlayers := CurrentPlayers (state s) + 1\<rparr>\<rparr>
      in (CurrentPlayers (state s'), s'))"

definition PlayerLeft :: "server \<Rightarrow> int32 \<times> server" where
  "PlayerLeft s =
     (let s' = (if sint (CurrentPlayers (state s)) > 0
                then s\<lparr>state := (state s)\<lparr>CurrentPlayers := CurrentPlayers (state s) - 1\<rparr>\<rparr> else s)
      in (CurrentPlayers (state s'), s'))"

definition SetCurrentPlayers :: "int32 \<Rightarrow> server \<Rightarrow> server" where
  "SetCurrentPlayers players s =
     (let players = (if sint players < 0 then 0 else players)
      in s\<lparr>state := (state s)\<lparr>CurrentPlayers := players\<rparr>\<rparr>)"

definition SetMaxPlayers :: "int32 \<Rightarrow> server \<Rightarrow> server" where
  "SetMaxPlayers m s = s\<lparr>state := (state s)\<lparr>MaxPlayers := m\<rparr>\<rparr>"

definition SetServerName :: "go_string \<Rightarrow> server \<Rightarrow> server" where
  "SetServerName n s = s\<lparr>state := (state s)\<lparr>ServerName := n\<rparr>\<rparr>"

definition SetGameType :: "go_string \<Rightarrow> server \<Rightarrow> server" where
  "SetGameType g s = s\<lparr>state := (state s)\<lparr>GameType := g\<rparr>\<rparr>"

definition SetGameMap :: "go_string \<Rightarrow> server \<Rightarrow> server" where
  "SetGameMap m s = s\<lparr>state := (state s)\<lparr>MapName := m\<rparr>\<rparr>"

text \<open>
  \<open>index + 1\<close> is computed on bytes, after the bound on \<open>index\<close>. The slice expression re-slices
  up to the capacity, and panics beyond it.
\<close>

definition SetMetric :: "byte \<Rightarrow> float32 \<Rightarrow> server \<Rightarrow> (gsh_error option \<times> server) outcome" where
  "SetMetric index val s =
     (if QueryType (Config s) \<noteq> QueryProtocolSQP then Return (Some ErrMetricsUnsupported, s)
      else if MaxMetrics \<le> unat index then Return (Some ErrMetricOutOfBounds, s)
      else
        obind (if slice_len (Metrics (state s)) \<le> unat index
               then slice_range (Metrics (state s)) 0 (unat (index + 1))
               else Return (Metrics (state s))) (\<lambda>m.
        obind (slice_set m (unat index) val) (\<lambda>m.
        Return (None, s\<lparr>state := (state s)\<lparr>Metrics := m\<rparr>\<rparr>))))"

section \<open>The operations on the local proxy\<close>

text \<open>
  A context and an argument are pointers, nil or not. A call on the nil client, before
  \<open>listenForEvents\<close> has made one, dereferences it before anything is sent.
\<close>

definition with_client ::
  "server \<Rightarrow> (callback client \<Rightarrow> http_effect list \<times> (proxy_error + 'a)) \<Rightarrow>
   (http_effect list \<times> (gsh_error + 'a)) outcome" where
  "with_client s f =
     (case localProxyClient s of
        None \<Rightarrow> Panic NilDereference
      | Some c \<Rightarrow> Return (map_prod id (map_sum ProxyError id) (f c)))"

definition Reserve ::
  "json_lib \<Rightarrow> http_env \<Rightarrow> unit option \<Rightarrow> unit option \<Rightarrow> server \<Rightarrow>
   (http_effect list \<times> (gsh_error + ReserveResponse option)) outcome" where
  "Reserve lib env ctx args s =
     (if serverType s \<noteq> TypeReservation then Return ([], Inl ErrOperationNotApplicable)
      else if ctx = None then Return ([], Inl ErrNilContext)
      else if args = None then Return ([], Inl ErrNilArgs)
      else with_client s (ReserveSelf lib env args))"

definition Unreserve ::
  "http_env \<Rightarrow> unit option \<Rightarrow> server \<Rightarrow> (http_effect list \<times> (gsh_error + unit)) outcome" where
  "Unreserve env ctx s =
     (if serverType s \<noteq> TypeReservation then Return ([], Inl ErrOperationNotApplicable)
      else if ctx = None then Return ([], Inl ErrNilContext)
      else with_client s (UnreserveSelf env))"

definition Hold ::
  "json_lib \<Rightarrow> http_env \<Rightarrow> unit option \<Rightarrow> HoldRequest option \<Rightarrow> server \<Rightarrow>
   (http_effect list \<times> (gsh_error + HoldStatus option)) outcome" where
  "Hold lib env ctx args s =
     (if ctx = None then Return ([], Inl ErrNilContext)
      else with_client s (HoldSelf lib env args))"

definition server_HoldStatus ::
  "json_lib \<Rightarrow> http_env \<Rightarrow> unit option \<Rightarrow> server \<Rightarrow>
   (http_effect list \<times> (gsh_error + HoldStatus option)) outcome" where
  "server_HoldStatus lib env ctx s =
     (if ctx = None then Return ([], Inl ErrNilContext)
      else with_client s (proxy_HoldStatus lib env))"

definition Release ::
  "http_env \<Rightarrow> unit option \<Rightarrow> server \<Rightarrow> (http_effect list \<times> (gsh_error + unit)) outcome" where
  "Release env ctx s =
     (if ctx = None then Return ([], Inl ErrNilContext)
      else with_client s (ReleaseSelf env))"

definition ReadyForPlayers ::
  "http_env \<Rightarrow> unit option \<Rightarrow> server \<Rightarrow> (http_effect list \<times> (gsh_error + unit)) outcome" where
  "ReadyForPlayers env ctx s =
     (if ctx = None then Return ([], Inl ErrNilContext)
      else if allocatedUUID s = [] then Return ([], Inl ErrNotAllocated)
      else with_client s (PatchAllocation env (allocatedUUID s) \<lparr>Ready = True\<rparr>))"


section \<open>Facts about the metrics\<close>

text \<open>
  What a sequence of calls means: a metric has the last value set for its index, zero if none
  was; the number of metrics is one more than the largest index set. Indices beyond the
  maximum count for nothing.
\<close>

definition metric_in_range :: "byte \<Rightarrow> bool" where
  "metric_in_range i \<longleftrightarrow> unat i < MaxMetrics"

definition metric_count :: "(byte \<times> float32) list \<Rightarrow> nat" where
  "metric_count ops =
     fold (\<lambda>(i, v) n. if metric_in_range i then max n (Suc (unat i)) else n) ops 0"

definition metric_value :: "(byte \<times> float32) list \<Rightarrow> nat \<Rightarrow> float32" where
  "metric_value ops k = fold (\<lambda>(i, v) x. if unat i = k then v else x) ops 0"

definition metrics_model :: "(byte \<times> float32) list \<Rightarrow> float32 list" where
  "metrics_model ops = map (metric_value ops) [0..<metric_count ops]"

fun set_metrics :: "(byte \<times> float32) list \<Rightarrow> server \<Rightarrow> server outcome" where
  "set_metrics [] s = Return s"
| "set_metrics ((i, v) # ops) s = obind (SetMetric i v s) (\<lambda>(e, s'). set_metrics ops s')"

text \<open>
  The backing array of a fully allocated slice: the visible metrics, then zeros. The invariant
  of \<open>SetMetric\<close>: the hidden part of the array has never been written.
\<close>

definition metrics_ok :: "float32 slice \<Rightarrow> bool" where
  "metrics_ok m \<longleftrightarrow> slice_cap m = MaxMetrics \<and> set (spare m) \<subseteq> {0}"

definition grow :: "nat \<Rightarrow> float32 list \<Rightarrow> float32 list" where
  "grow n xs = xs @ replicate (n - length xs) 0"

lemma zeros_take: "set ys \<subseteq> {0 :: float32} \<Longrightarrow> k \<le> length ys \<Longrightarrow> take k ys = replicate k 0"
  by (metis (no_types, lifting) in_set_takeD length_take min.absorb2 replicate_length_same singletonD subsetD)

lemma unat_Suc_byte: "unat (i :: byte) < MaxMetrics \<Longrightarrow> unat (i + 1) = Suc (unat i)"
  by (simp add: MaxMetrics_def unat_word_ariths)

lemma SetMetric_in_range:
  assumes "QueryType (currentConfig s) = QueryProtocolSQP" and "metrics_ok (Metrics (state s))"
    and "metric_in_range i"
  obtains m where "SetMetric i v s = Return (None, s\<lparr>state := (state s)\<lparr>Metrics := m\<rparr>\<rparr>)"
    "metrics_ok m" "elems m = (grow (Suc (unat i)) (elems (Metrics (state s))))[unat i := v]"
proof -
  let ?m = "Metrics (state s)"
  have cap: "length (elems ?m) + length (spare ?m) = MaxMetrics" and zeros: "set (spare ?m) \<subseteq> {0}"
    using assms(2) by (simp_all add: metrics_ok_def slice_cap_def)
  have i: "unat i < MaxMetrics" using assms(3) by (simp add: metric_in_range_def)
  show ?thesis
  proof (cases "slice_len ?m \<le> unat i")
    case False
    then have "grow (Suc (unat i)) (elems ?m) = elems ?m" by (simp add: grow_def slice_len_def)
    with False assms i cap zeros show ?thesis
      by (intro that [of "?m\<lparr>elems := (elems ?m)[unat i := v]\<rparr>"])
         (auto simp: SetMetric_def Config_def slice_defs metrics_ok_def)
  next
    case True
    let ?n = "Suc (unat i)"
    let ?r = "\<lparr>elems = grow ?n (elems ?m), spare = drop ?n (elems ?m @ spare ?m)\<rparr>"
    have le: "length (elems ?m) \<le> ?n" using True by (simp add: slice_len_def)
    have room: "?n - length (elems ?m) \<le> length (spare ?m)" using cap i by simp
    have "take ?n (elems ?m @ spare ?m) = grow ?n (elems ?m)"
      using le zeros_take [OF zeros room] by (simp add: grow_def)
    then have "slice_range ?m 0 ?n = Return ?r"
      using cap i by (simp add: slice_range_def slice_cap_def)
    moreover have "length (grow ?n (elems ?m)) = ?n" using le by (simp add: grow_def)
    moreover have "set (drop ?n (elems ?m @ spare ?m)) \<subseteq> {0}"
      using le zeros by (auto dest: in_set_dropD)
    ultimately show ?thesis
      using True assms i cap le
      by (intro that [of "?r\<lparr>elems := (grow ?n (elems ?m))[unat i := v]\<rparr>"])
         (auto simp: SetMetric_def Config_def unat_Suc_byte [OF i] slice_set_def slice_len_def
           slice_cap_def metrics_ok_def)
  qed
qed

lemma SetMetric_out_of_range:
  "QueryType (currentConfig s) = QueryProtocolSQP \<Longrightarrow> \<not> metric_in_range i \<Longrightarrow>
   SetMetric i v s = Return (Some ErrMetricOutOfBounds, s)"
  by (simp add: SetMetric_def Config_def metric_in_range_def)

lemma metrics_model_snoc:
  "metrics_model (ops @ [(i, v)]) =
     (if metric_in_range i then (grow (Suc (unat i)) (metrics_model ops))[unat i := v]
      else metrics_model ops)"
proof -
  have none: "metric_value ops k = 0" if "metric_count ops \<le> k" "k < MaxMetrics" for k
  proof -
    have "metric_count ops \<le> k \<longrightarrow> metric_value ops k = 0"
      using that(2)
      by (induction ops rule: rev_induct)
         (auto simp: metric_count_def metric_value_def metric_in_range_def split: if_splits)
    with that show ?thesis by simp
  qed
  have bound: "metric_count ops \<le> MaxMetrics"
    by (induction ops rule: rev_induct) (auto simp: metric_count_def metric_in_range_def)
  have count: "metric_count (ops @ [(i, v)]) =
      (if metric_in_range i then max (metric_count ops) (Suc (unat i)) else metric_count ops)"
    by (simp add: metric_count_def)
  have val: "metric_value (ops @ [(i, v)]) k = (if unat i = k then v else metric_value ops k)" for k
    by (simp add: metric_value_def)
  show ?thesis
  proof (cases "metric_in_range i")
    case True
    let ?i = "unat i" and ?n = "metric_count ops"
    have i: "?i < MaxMetrics" using True by (simp add: metric_in_range_def)
    have len: "length (grow (Suc ?i) (metrics_model ops)) = max ?n (Suc ?i)"
      by (simp add: grow_def metrics_model_def)
    show ?thesis
    proof (rule nth_equalityI)
      show "length (metrics_model (ops @ [(i, v)])) = length (if metric_in_range i
          then (grow (Suc ?i) (metrics_model ops))[?i := v] else metrics_model ops)"
        using True len by (simp add: metrics_model_def count)
    next
      fix k
      assume "k < length (metrics_model (ops @ [(i, v)]))"
      then have k: "k < max ?n (Suc ?i)" using True by (simp add: metrics_model_def count)
      have "metric_value ops k = grow (Suc ?i) (metrics_model ops) ! k"
        using k i none [of k] by (auto simp: grow_def nth_append metrics_model_def)
      with True k len show "metrics_model (ops @ [(i, v)]) ! k = (if metric_in_range i
          then (grow (Suc ?i) (metrics_model ops))[?i := v] else metrics_model ops) ! k"
        by (simp add: metrics_model_def count val nth_list_update del: upt_Suc)
    qed
  next
    case False
    with bound show ?thesis
      by (auto simp: metrics_model_def count val metric_in_range_def)
  qed
qed


lemma metrics_model_Nil [simp]: "metrics_model [] = []"
  by (simp add: metrics_model_def metric_count_def)

lemma set_metrics_snoc:
  "set_metrics (ops @ [(i, v)]) s = obind (set_metrics ops s) (\<lambda>s'. obind (SetMetric i v s') (\<lambda>(e, t). Return t))"
proof (induction ops s rule: set_metrics.induct)
  case (2 j w ops s)
  show ?case by (cases "SetMetric j w s") (auto simp: 2 split: prod.splits)
next
  case (1 s)
  show ?case by (cases "SetMetric i v s") auto
qed

lemma set_metrics_model:
  assumes "QueryType (currentConfig s) = QueryProtocolSQP"
    and "Metrics (state s) = make_slice 0 0 MaxMetrics"
  shows "\<exists>m. set_metrics ops s = Return (s\<lparr>state := (state s)\<lparr>Metrics := m\<rparr>\<rparr>) \<and>
    metrics_ok m \<and> elems m = metrics_model ops"
proof (induction ops rule: rev_induct)
  case Nil
  have "metrics_ok (make_slice 0 0 MaxMetrics)" by (auto simp: metrics_ok_def make_slice_def slice_cap_def)
  moreover have "s = s\<lparr>state := (state s)\<lparr>Metrics := make_slice 0 0 MaxMetrics\<rparr>\<rparr>"
    using assms(2) by simp
  ultimately show ?case
    by (intro exI [of _ "make_slice 0 0 MaxMetrics"]) (simp add: make_slice_def)
next
  case (snoc x ops)
  obtain i v where x: "x = (i, v)" by (cases x)
  from snoc.IH obtain m where m: "set_metrics ops s = Return (s\<lparr>state := (state s)\<lparr>Metrics := m\<rparr>\<rparr>)"
      "metrics_ok m" "elems m = metrics_model ops" by blast
  let ?s = "s\<lparr>state := (state s)\<lparr>Metrics := m\<rparr>\<rparr>"
  have q: "QueryType (currentConfig ?s) = QueryProtocolSQP" "metrics_ok (Metrics (state ?s))"
    using assms(1) m(2) by simp_all
  show ?case
  proof (cases "metric_in_range i")
    case True
    obtain m' where "SetMetric i v ?s = Return (None, ?s\<lparr>state := (state ?s)\<lparr>Metrics := m'\<rparr>\<rparr>)"
        "metrics_ok m'" "elems m' = (grow (Suc (unat i)) (elems m))[unat i := v]"
      using SetMetric_in_range [OF q True] by auto
    with m True show ?thesis by (auto simp: x set_metrics_snoc metrics_model_snoc)
  next
    case False
    with m SetMetric_out_of_range [OF q(1) False] show ?thesis
      by (auto simp: x set_metrics_snoc metrics_model_snoc)
  qed
qed

section \<open>Facts about the player count\<close>

datatype player_op = Joined | Left | SetPlayers int32

primrec player_step :: "player_op \<Rightarrow> server \<Rightarrow> server" where
  "player_step Joined s = snd (PlayerJoined s)"
| "player_step Left s = snd (PlayerLeft s)"
| "player_step (SetPlayers n) s = SetCurrentPlayers n s"

text \<open>The number of players as a natural number that cannot overflow.\<close>

primrec player_count :: "player_op \<Rightarrow> nat \<Rightarrow> nat" where
  "player_count Joined n = Suc n"
| "player_count Left n = n - 1"
| "player_count (SetPlayers p) n = nat (sint p)"

text \<open>The largest value the count takes on the way.\<close>

fun peak :: "player_op list \<Rightarrow> nat \<Rightarrow> nat" where
  "peak [] n = n"
| "peak (x # xs) n = max n (peak xs (player_count x n))"

abbreviation players :: "server \<Rightarrow> int" where
  "players s \<equiv> sint (CurrentPlayers (state s))"

lemma sint_inc32: "0 \<le> sint (w :: int32) \<Longrightarrow> sint w < 2 ^ 31 - 1 \<Longrightarrow> sint (w + 1) = sint w + 1"
  by (simp add: sint_word_ariths signed_take_bit_int_eq_self)

lemma sint_dec32: "0 < sint (w :: int32) \<Longrightarrow> sint (w - 1) = sint w - 1"
  using sint_lt [of w] by (simp add: sint_word_ariths signed_take_bit_int_eq_self)

lemma player_step_count:
  assumes "players s = int n" and "player_count x n < 2 ^ 31"
  shows "players (player_step x s) = int (player_count x n)"
proof (cases x)
  case Joined
  with assms sint_inc32 [of "CurrentPlayers (state s)"] show ?thesis
    by (simp add: PlayerJoined_def Let_def)
next
  case Left
  with assms sint_dec32 [of "CurrentPlayers (state s)"] show ?thesis
    by (auto simp: PlayerLeft_def Let_def)
next
  case (SetPlayers p)
  then show ?thesis by (simp add: SetCurrentPlayers_def Let_def)
qed

lemma players_refine:
  "players s = int n \<Longrightarrow> peak xs n < 2 ^ 31 \<Longrightarrow>
   players (fold player_step xs s) = int (fold player_count xs n)"
proof (induction xs arbitrary: s n)
  case (Cons x xs)
  have "player_count x n \<le> peak xs (player_count x n)" by (cases xs) simp_all
  with Cons.prems(2) have "player_count x n < 2 ^ 31" by simp
  from Cons.IH [OF player_step_count [OF Cons.prems(1) this]] Cons.prems(2) show ?case by simp
qed simp


section \<open>The operations as a table\<close>

datatype server_op =
    OpReserve "unit option"
  | OpUnreserve
  | OpHold "HoldRequest option"
  | OpHoldStatus
  | OpRelease
  | OpReady

definition outcome_of ::
  "(http_effect list \<times> (gsh_error + 'a)) outcome \<Rightarrow> (http_effect list \<times> gsh_error option) outcome" where
  "outcome_of r = obind r (\<lambda>p. Return (map_prod id error_of p))"

primrec run_op ::
  "json_lib \<Rightarrow> http_env \<Rightarrow> unit option \<Rightarrow> server_op \<Rightarrow> server \<Rightarrow>
   (http_effect list \<times> gsh_error option) outcome" where
  "run_op lib env ctx (OpReserve a) s = outcome_of (Reserve lib env ctx a s)"
| "run_op lib env ctx OpUnreserve s = outcome_of (Unreserve env ctx s)"
| "run_op lib env ctx (OpHold a) s = outcome_of (Hold lib env ctx a s)"
| "run_op lib env ctx OpHoldStatus s = outcome_of (server_HoldStatus lib env ctx s)"
| "run_op lib env ctx OpRelease s = outcome_of (Release env ctx s)"
| "run_op lib env ctx OpReady s = outcome_of (ReadyForPlayers env ctx s)"

text \<open>The error an operation gives without looking at the network, if any.\<close>

definition op_refused :: "unit option \<Rightarrow> server_op \<Rightarrow> server \<Rightarrow> gsh_error option" where
  "op_refused ctx op s =
     (let reservation_only = (case op of OpReserve _ \<Rightarrow> True | OpUnreserve \<Rightarrow> True | _ \<Rightarrow> False) in
      if reservation_only \<and> serverType s \<noteq> TypeReservation then Some ErrOperationNotApplicable
      else if ctx = None then Some ErrNilContext
      else if op = OpReserve None then Some ErrNilArgs
      else if op = OpReady \<and> allocatedUUID s = [] then Some ErrNotAllocated
      else None)"

text \<open>The endpoint an operation uses; the allocation is the server's current one.\<close>

primrec op_endpoint :: "server \<Rightarrow> server_op \<Rightarrow> endpoint" where
  "op_endpoint s (OpReserve a) = E_reserve a"
| "op_endpoint s OpUnreserve = E_unreserve"
| "op_endpoint s (OpHold a) = E_hold a"
| "op_endpoint s OpHoldStatus = E_hold_status"
| "op_endpoint s OpRelease = E_release"
| "op_endpoint s OpReady = E_patch (allocatedUUID s) \<lparr>Ready = True\<rparr>"

lemma error_of_map_sum: "error_of (map_sum ProxyError id r) = map_option ProxyError (error_of r)"
  by (cases r) simp_all

lemma outcome_of_simps [simp]:
  "outcome_of (Return (effs, Inl e)) = Return (effs, Some e)"
  "outcome_of (with_client s f) =
     (case localProxyClient s of
        None \<Rightarrow> Panic NilDereference
      | Some c \<Rightarrow> Return (map_prod id (map_option ProxyError) (map_prod id error_of (f c))))"
  by (auto simp: outcome_of_def with_client_def prod.map_comp comp_def error_of_map_sum
      split: option.splits)

section \<open>Properties of the server\<close>

text \<open>
  C28. Metrics. On a server whose metric buffer is as \<open>Start\<close> makes it for SQP, any sequence of
  \<open>SetMetric\<close> calls runs without a panic and leaves the metrics that the calls describe: the
  last value set for each index, zeros in the gaps, as many as the largest index needs;
  indices beyond the maximum change nothing, and neither does anything else of the state.
\<close>

theorem set_metric_sequence:
  assumes "QueryType (currentConfig s) = QueryProtocolSQP"
    and "Metrics (state s) = make_slice 0 0 MaxMetrics"
  shows "\<exists>m. set_metrics ops s = Return (s\<lparr>state := (state s)\<lparr>Metrics := m\<rparr>\<rparr>) \<and>
    elems m = metrics_model ops"
  using set_metrics_model [OF assms] by blast

theorem set_metric_sequence_witness:
  "\<exists>m. set_metrics [(2, 7), (200, 1), (2, 8), (0, 5)]
      ((fresh_server TypeAllocation ''f'')\<lparr>currentConfig := zero_config\<lparr>QueryType := ''sqp''\<rparr>,
        state := zero_query_state\<lparr>Metrics := make_slice 0 0 MaxMetrics\<rparr>\<rparr>) =
    Return ((fresh_server TypeAllocation ''f'')\<lparr>currentConfig := zero_config\<lparr>QueryType := ''sqp''\<rparr>,
        state := zero_query_state\<lparr>Metrics := m\<rparr>\<rparr>) \<and> elems m = [5, 0, 8]"
proof -
  have "metrics_model [(2, 7), (200, 1), (2, 8), (0, 5)] = [5, 0, 8]" by code_simp
  then show ?thesis
    using set_metric_sequence [of "(fresh_server TypeAllocation ''f'')\<lparr>currentConfig :=
        zero_config\<lparr>QueryType := ''sqp''\<rparr>,
        state := zero_query_state\<lparr>Metrics := make_slice 0 0 MaxMetrics\<rparr>\<rparr>"
        "[(2, 7), (200, 1), (2, 8), (0, 5)]"]
    by (simp add: QueryProtocolSQP_def)
qed

text \<open>
  When \<open>SetMetric\<close> panics, for every state: the configuration names SQP, the index is
  within the limit, and it lies beyond the capacity of the buffer. That happens when the
  configuration changes to SQP while the server runs on A2S, since only \<open>Start\<close> makes the
  buffer: there the first metric panics.
\<close>

theorem set_metric_panics_iff:
  "(\<exists>p. SetMetric i v s = Panic p) \<longleftrightarrow>
     QueryType (currentConfig s) = QueryProtocolSQP \<and> unat i < MaxMetrics \<and>
     slice_cap (Metrics (state s)) \<le> unat i"
proof (cases "QueryType (currentConfig s) = QueryProtocolSQP \<and> unat i < MaxMetrics")
  case True
  then have "unat (i + 1) = Suc (unat i)" by (simp add: unat_Suc_byte)
  with True show ?thesis
    by (auto simp: SetMetric_def Config_def slice_defs go_simps split: if_splits)
qed (auto simp: SetMetric_def Config_def)

text \<open>
  C29. The player count. The 32-bit counter follows the number of players that an unbounded
  counter has, and is never negative, as long as that number stays below 2^31; leaving an
  empty server and setting a negative number are absorbed.
\<close>

theorem players_follow_count:
  assumes "players s = int n" and "peak ops n < 2 ^ 31"
  shows "players (fold player_step ops s) = int (fold player_count ops n)"
  using assms by (rule players_refine)

theorem players_follow_count_witness:
  "players (fold player_step [Left, Joined, Joined, Left, SetPlayers (- 5), Joined]
     (fresh_server TypeAllocation ''f'')) = 1"
  using players_follow_count [of "fresh_server TypeAllocation ''f''" 0
      "[Left, Joined, Joined, Left, SetPlayers (- 5), Joined]"]
  by (simp add: fresh_server_def zero_query_state_def)

text \<open>
  Configuration changes that nobody consumes. After any number of them the server uses the
  last configuration, while the channel still holds the first one: a consumer that was late
  is told of the oldest change, not of the one in force.
\<close>

theorem config_notification_is_oldest:
  assumes "waitingVals (chanConfigurationChanged s) = []"
    and "chanCap (chanConfigurationChanged s) = 1"
  shows "Config (fold setConfig (c # cs) s) = last (c # cs) \<and>
    waitingVals (chanConfigurationChanged (fold setConfig (c # cs) s)) = [c]"
proof -
  have cur: "currentConfig (fold setConfig xs t) = (if xs = [] then currentConfig t else last xs)" for xs t
    by (induction xs arbitrary: t) (auto simp: setConfig_def)
  have ch: "chanConfigurationChanged (fold setConfig xs t)
      = fold chan_try_send xs (chanConfigurationChanged t)" for xs t
    by (induction xs arbitrary: t) (auto simp: setConfig_def)
  show ?thesis
    unfolding Config_def cur ch using lossy.offer_many [of "c # cs" "chanConfigurationChanged s"] assms
    by simp
qed

theorem config_notification_is_oldest_witness:
  "Config (fold setConfig [zero_config\<lparr>IP := ''1''\<rparr>, zero_config\<lparr>IP := ''2''\<rparr>]
      (fresh_server TypeAllocation ''f'')) = zero_config\<lparr>IP := ''2''\<rparr> \<and>
   waitingVals (chanConfigurationChanged (fold setConfig [zero_config\<lparr>IP := ''1''\<rparr>, zero_config\<lparr>IP := ''2''\<rparr>]
      (fresh_server TypeAllocation ''f''))) = [zero_config\<lparr>IP := ''1''\<rparr>]"
  using config_notification_is_oldest [of "fresh_server TypeAllocation ''f''" "zero_config\<lparr>IP := ''1''\<rparr>"
      "[zero_config\<lparr>IP := ''2''\<rparr>]"]
  by (simp add: fresh_server_def make_chan_def)

text \<open>
  The operations on the local proxy, all branches. Each refuses in a fixed order (type of
  server, context, arguments, allocation) without touching the network; otherwise it performs
  the exchange of its endpoint, on the server's current allocation; called before \<open>Start\<close> has
  made the client, it panics.
\<close>

theorem server_operations:
  "run_op lib env ctx op s =
     (case op_refused ctx op s of
        Some e \<Rightarrow> Return ([], Some e)
      | None \<Rightarrow>
          (case localProxyClient s of
             None \<Rightarrow> Panic NilDereference
           | Some c \<Rightarrow>
               Return (map_prod id (map_option ProxyError) (run_endpoint lib env c (op_endpoint s op)))))"
  by (cases op; cases ctx; cases "localProxyClient s")
     (auto simp: op_refused_def Reserve_def Unreserve_def Hold_def server_HoldStatus_def Release_def
       ReadyForPlayers_def split: option.splits)

end
