(* ===== verification/Gsh_Query.thy ===== *)
theory Gsh_Query
  imports Gsh_Server
begin

text \<open>
  The file \<open>game-server-hosting/server/query.go\<close>: the choice of the query protocol, the restart
  of the endpoint, and the goroutine \<open>handleQuery\<close> that answers datagrams.

  An iteration of its loop is one operation, \<open>query_turn\<close>. Its environment gives the results
  of the system calls and says whether another goroutine closes the binding while the
  iteration waits in \<open>Read\<close>, or before it writes. Between iterations the other goroutines may
  change the query state and purge challenges. The record of an iteration is the packet it
  produced, its destination, and whether the packet has left.
\<close>

section \<open>The responder interface\<close>

text \<open>\<open>s.queryProto.Respond\<close>; the responder's state is always the server's own.\<close>

definition Respond ::
  "go_string \<Rightarrow> query_state \<Rightarrow> gen_env \<Rightarrow> query_proto \<Rightarrow> addr \<Rightarrow> byte slice \<Rightarrow>
   (query_proto \<times> time option \<times> (query_error + byte list)) outcome" where
  "Respond goos st env p a buf =
     (case p of
        A2SProto q \<Rightarrow>
          obind (a2s_Respond goos (Some st) env q a buf) (\<lambda>(q', g, r). Return (A2SProto q', g, r))
      | SQPProto q \<Rightarrow>
          obind (sqp_Respond (Some st) env q a buf) (\<lambda>(q', g, r). Return (SQPProto q', g, r)))"

primrec proto_base :: "query_proto \<Rightarrow> query_base" where
  "proto_base (A2SProto q) = q"
| "proto_base (SQPProto q) = q"

primrec proto_purge :: "go_string \<Rightarrow> query_proto \<Rightarrow> query_proto" where
  "proto_purge a (A2SProto q) = A2SProto (delete_challenge a q)"
| "proto_purge a (SQPProto q) = SQPProto (delete_challenge a q)"

section \<open>Choosing the protocol\<close>

text \<open>
  \<open>None\<close> in the result is success; the last component says whether a new \<open>handleQuery\<close>
  goroutine was started. When the binding cannot be made, the field is nil.
\<close>

definition restartQueryEndpoint ::
  "listen_env \<Rightarrow> config \<Rightarrow> server \<Rightarrow> fd set \<Rightarrow> (gsh_error option \<times> server \<times> fd set \<times> bool) outcome" where
  "restartQueryEndpoint env c s open_fds =
     obind (case queryBind s of
              None \<Rightarrow> Return (s, open_fds)
            | Some b \<Rightarrow> obind (udp_Close b open_fds) (\<lambda>(b', fds). Return (s\<lparr>queryBind := None\<rparr>, fds)))
       (\<lambda>(s, fds).
         case newUDPBinding env ('':'' @ QueryPort c) (queryReadBufferSizeBytes s)
                (queryWriteBufferSizeBytes s) (queryReadDeadlineDuration s)
                (queryWriteDeadlineDuration s) fds of
           (fds', Inl e) \<Rightarrow> Return (Some (BindError e), s\<lparr>queryBind := None\<rparr>, fds', False)
         | (fds', Inr b) \<Rightarrow> Return (None, s\<lparr>queryBind := Some b\<rparr>, fds', True))"

definition switchQueryProtocol ::
  "listen_env \<Rightarrow> config \<Rightarrow> server \<Rightarrow> fd set \<Rightarrow> (gsh_error option \<times> server \<times> fd set \<times> bool) outcome" where
  "switchQueryProtocol env c s open_fds =
     (if QueryType c = QueryProtocolA2S then
        restartQueryEndpoint env c (s\<lparr>queryProto := Some (A2SProto a2s_NewQueryResponder)\<rparr>) open_fds
      else if QueryType c = QueryProtocolSQP then
        restartQueryEndpoint env c (s\<lparr>queryProto := Some (SQPProto sqp_NewQueryResponder)\<rparr>) open_fds
      else Return (Some ErrUnsupportedQueryType, s, open_fds, False))"

section \<open>handleQuery\<close>

record turn_env =
  turnRead :: read_env
  closedInRead :: bool
  turnGen :: gen_env
  closedInWrite :: bool
  turnWrite :: write_env

datatype turn_result = GoOn | Leave

text \<open>What \<open>Close\<close> makes of a binding that is not done.\<close>

definition closed_binding :: "udp_binding \<Rightarrow> udp_binding" where
  "closed_binding b = b\<lparr>bindDone := (bindDone b)\<lparr>isClosed := True\<rparr>, conn := None\<rparr>"

definition close_if :: "bool \<Rightarrow> udp_binding \<Rightarrow> udp_binding" where
  "close_if stop b = (if stop then closed_binding b else b)"

definition make_buffer :: "int \<Rightarrow> byte list outcome" where
  "make_buffer n = (if n < 0 then Panic MakeSliceOutOfRange else Return (replicate (nat n) 0))"

text \<open>The part after a successful read.\<close>

definition query_respond ::
  "go_string \<Rightarrow> turn_env \<Rightarrow> addr \<Rightarrow> byte list \<Rightarrow> udp_binding \<Rightarrow> server \<Rightarrow>
   (turn_result \<times> server \<times> (addr \<times> byte list \<times> bool) list) outcome" where
  "query_respond goos e to_addr buf b s =
     (case queryProto s of
        None \<Rightarrow> Panic NilDereference
      | Some p \<Rightarrow>
          obind (Respond goos (state s) (turnGen e) p to_addr (of_list buf)) (\<lambda>(p', g, r).
            let s = s\<lparr>queryProto := Some p'\<rparr> in
            case r of
              Inl err \<Rightarrow> Return (GoOn, PushError (QueryRespondError err) s, [])
            | Inr resp \<Rightarrow>
                let b = close_if (closedInWrite e) b; s = s\<lparr>queryBind := Some b\<rparr> in
                obind (udp_Write (turnWrite e) b) (\<lambda>w.
                  case w of
                    None \<Rightarrow> Return (GoOn, s, [(to_addr, resp, True)])
                  | Some err \<Rightarrow>
                      if IsDone b then Return (Leave, s, [(to_addr, resp, False)])
                      else Return (GoOn, PushError (QueryWriteError err) s, [(to_addr, resp, False)]))))"

text \<open>
  One iteration. The whole cleared and filled buffer is passed on: the number of bytes read is
  ignored, as the code does.
\<close>

definition query_turn ::
  "go_string \<Rightarrow> turn_env \<Rightarrow> server \<Rightarrow>
   (turn_result \<times> server \<times> (addr \<times> byte list \<times> bool) list) outcome" where
  "query_turn goos e s =
     obind (make_buffer (queryReadBufferSizeBytes s)) (\<lambda>buf.
     case queryBind s of
       None \<Rightarrow> Panic NilDereference
     | Some b \<Rightarrow>
         obind (udp_Read (turnRead e) b buf) (\<lambda>r.
           let b = close_if (closedInRead e) b; s = s\<lparr>queryBind := Some b\<rparr> in
           case r of
             Inl err \<Rightarrow>
               if IsDone b then Return (Leave, s, [])
               else if err = NetTimeout then Return (GoOn, s, [])
               else Return (GoOn, PushError (QueryReadError err) s, [])
           | Inr (n, to_addr, buf) \<Rightarrow> query_respond goos e to_addr buf b s))"

datatype query_event = Turn turn_env | PurgeDelete go_string | SetState query_state

fun query_loop ::
  "go_string \<Rightarrow> query_event list \<Rightarrow> server \<Rightarrow>
   (turn_result \<times> server \<times> (addr \<times> byte list \<times> bool) list) outcome" where
  "query_loop goos [] s = Return (GoOn, s, [])"
| "query_loop goos (PurgeDelete k # es) s =
     query_loop goos es (s\<lparr>queryProto := map_option (proto_purge k) (queryProto s)\<rparr>)"
| "query_loop goos (SetState st # es) s = query_loop goos es (s\<lparr>state := st\<rparr>)"
| "query_loop goos (Turn e # es) s =
     obind (query_turn goos e s) (\<lambda>(r, s1, sent).
       if r = Leave then Return (Leave, s1, sent)
       else obind (query_loop goos es s1) (\<lambda>(r', s2, sent'). Return (r', s2, sent @ sent')))"

section \<open>The two protocols behind one contract\<close>

text \<open>A challenge packet of either protocol; no other packet of either looks like one.\<close>

definition is_challenge_packet :: "byte list \<Rightarrow> bool" where
  "is_challenge_packet p \<longleftrightarrow> sqp_is_challenge p \<or> a2s_is_challenge p"

lemma challenge_packets_disjoint [simp]:
  "is_challenge_packet (sqp_challenge_packet v)" "\<not> is_challenge_packet (sqp_response c p)"
  "is_challenge_packet (a2s_challenge_packet v)" "\<not> is_challenge_packet (a2s_info_packet goos st)"
  by (simp_all add: is_challenge_packet_def sqp_is_challenge_def a2s_is_challenge_def sqp_response_def
      a2s_info_packet_def info_fields_def a2s_info_def s2cChallengeResponse_def a2sInfoResponse_def
      a2s_challenge_packet_def sqp_challenge_packet_def)

lemma Respond_cases:
  assumes "Respond goos st env p a buf = Return (p', g, r)"
  obtains (a2s) q q' where "p = A2SProto q" "p' = A2SProto q'"
      "a2s_Respond goos (Some st) env q a buf = Return (q', g, r)"
  | (sqp) q q' where "p = SQPProto q" "p' = SQPProto q'"
      "sqp_Respond (Some st) env q a buf = Return (q', g, r)"
  using assms by (auto simp: Respond_def obind_eq_Return split: query_proto.splits)

interpretation endpoint: query_responder "pending \<circ> proto_base" "\<lambda>(goos, st). Respond goos st"
    proto_purge is_challenge_packet
proof
  fix st env p a buf p' g e b
  assume "(\<lambda>(goos, st). Respond goos st) st env p a buf = Return (p', g, Inl e)"
  then have "Respond (fst st) (snd st) env p a buf = Return (p', g, Inl e)" by (cases st) simp
  then show "\<exists>evs. ledger_reach ((pending \<circ> proto_base) p) evs ((pending \<circ> proto_base) p') \<and>
      issues_to b evs = 0 \<and> accepts_from b evs = 0"
  proof (cases rule: Respond_cases)
    case (a2s q q')
    with a2s.respond_error [of "(fst st, Some (snd st))" env q a buf q' g e b] show ?thesis by simp
  next
    case (sqp q q')
    with sqp.respond_error [of "Some (snd st)" env q a buf q' g e b] show ?thesis by simp
  qed
next
  fix st env p a buf p' g pk
  assume "(\<lambda>(goos, st). Respond goos st) st env p a buf = Return (p', g, Inr pk)"
    and chal: "is_challenge_packet pk"
  then have "Respond (fst st) (snd st) env p a buf = Return (p', g, Inr pk)" by (cases st) simp
  then show "\<exists>v. ledger_reach ((pending \<circ> proto_base) p) [Issued a v] ((pending \<circ> proto_base) p')"
    by (cases rule: Respond_cases)
       (use chal in \<open>auto elim!: a2s_Respond_cases sqp_Respond_cases dest!: qb.gen_reach\<close>)
next
  fix st env p a buf p' g pk
  assume "(\<lambda>(goos, st). Respond goos st) st env p a buf = Return (p', g, Inr pk)"
    and chal: "\<not> is_challenge_packet pk"
  then have "Respond (fst st) (snd st) env p a buf = Return (p', g, Inr pk)" by (cases st) simp
  then show "\<exists>v. ledger_reach ((pending \<circ> proto_base) p) [Accepted a v] ((pending \<circ> proto_base) p')"
    by (cases rule: Respond_cases)
       (use chal in \<open>auto elim!: a2s_Respond_cases sqp_Respond_cases dest!: qb.mat_reach\<close>)
next
  fix q a
  show "ledger_reach ((pending \<circ> proto_base) q) [] ((pending \<circ> proto_base) (proto_purge a q))"
    by (cases q) (simp_all add: qb.forget_reach)
qed


section \<open>The loop serves traffic\<close>

definition packets_of :: "(addr \<times> byte list \<times> bool) list \<Rightarrow> (addr \<times> byte list) list" where
  "packets_of sent = map (\<lambda>(a, p, d). (a, p)) sent"

lemma query_respond_serves:
  assumes "query_respond goos e a buf b s = Return (r, s1, sent)" and "queryProto s = Some p"
  obtains p' g x where "Respond goos (state s) (turnGen e) p a (of_list buf) = Return (p', g, x)"
    "queryProto s1 = Some p'" "packets_of sent = (case x of Inl _ \<Rightarrow> [] | Inr pk \<Rightarrow> [(a, pk)])"
proof -
  from assms obtain p' g x where resp:
      "Respond goos (state s) (turnGen e) p a (of_list buf) = Return (p', g, x)"
    by (cases "Respond goos (state s) (turnGen e) p a (of_list buf)") (auto simp: query_respond_def)
  with assms show ?thesis
    by (intro that [OF resp])
       (auto simp: query_respond_def PushError_def packets_of_def obind_eq_Return Let_def
         split: sum.splits option.splits if_splits)
qed

lemma query_turn_serves:
  assumes "query_turn goos e s = Return (r, s1, sent)" and "queryProto s = Some p"
  obtains (silent) "sent = []" "queryProto s1 = Some p"
  | (answer) a buf p' g x where
      "Respond goos (state s) (turnGen e) p a buf = Return (p', g, x)"
      "queryProto s1 = Some p'" "packets_of sent = (case x of Inl _ \<Rightarrow> [] | Inr pk \<Rightarrow> [(a, pk)])"
proof -
  obtain buf b rd where bind: "queryBind s = Some b" and rd: "udp_Read (turnRead e) b buf = Return rd"
      "make_buffer (queryReadBufferSizeBytes s) = Return buf"
    using assms(1)
    by (auto simp: query_turn_def obind_eq_Return split: option.splits)
  show ?thesis
  proof (cases rd)
    case (Inl err)
    with assms bind rd have "sent = [] \<and> queryProto s1 = Some p"
      by (auto simp: query_turn_def Let_def PushError_def split: if_splits)
    then show ?thesis using silent by blast
  next
    case (Inr d)
    obtain n a buf' where d: "d = (n, a, buf')" by (cases d)
    let ?b = "close_if (closedInRead e) b"
    have "query_respond goos e a buf' ?b (s\<lparr>queryBind := Some ?b\<rparr>) = Return (r, s1, sent)"
      using assms(1) bind rd Inr d by (simp add: query_turn_def Let_def)
    then show ?thesis
      by (rule query_respond_serves [where p = p]) (use assms(2) answer in auto)
  qed
qed

lemma packets_of_append [simp]: "packets_of (xs @ ys) = packets_of xs @ packets_of ys"
  by (simp add: packets_of_def)

lemma packets_of_Nil [simp]: "packets_of [] = []"
  by (simp add: packets_of_def)

text \<open>The packets of the loop are those of a responder that serves some traffic.\<close>

abbreviation serve_proto where
  "serve_proto \<equiv> serve (\<lambda>(goos, st). Respond goos st) proto_purge"

lemma query_loop_serves:
  "query_loop goos es s = Return (r, s', sent) \<Longrightarrow> queryProto s = Some p \<Longrightarrow>
   \<exists>ts p'. serve_proto p ts = Return (p', packets_of sent) \<and> queryProto s' = Some p'"
proof (induction goos es s arbitrary: p r s' sent rule: query_loop.induct)
  case (1 goos s)
  then show ?case by (intro exI [of _ "[]"]) auto
next
  case (2 goos k es s)
  then obtain ts p' where "serve_proto (proto_purge k p) ts = Return (p', packets_of sent)"
      "queryProto s' = Some p'" by fastforce
  then show ?case by (intro exI [of _ "Purged k # ts"]) auto
next
  case (3 goos st es s)
  then show ?case by fastforce
next
  case (4 goos e es s)
  obtain r1 s1 sent1 where t: "query_turn goos e s = Return (r1, s1, sent1)"
    using 4(2) by (auto simp: obind_eq_Return)
  obtain ts1 p1 where first: "queryProto s1 = Some p1"
      "\<And>ts q out. serve_proto p1 ts = Return (q, out) \<Longrightarrow>
         serve_proto p (ts1 @ ts) = Return (q, packets_of sent1 @ out)"
    using t 4(3)
  proof (cases rule: query_turn_serves)
    case silent
    then show ?thesis by (intro that [of p "[]"]) simp_all
  next
    case (answer a buf p' g x)
    then show ?thesis
      by (intro that [of p' "[Request (goos, state s) (turnGen e) a buf]"]) simp_all
  qed
  show ?case
  proof (cases "r1 = Leave")
    case True
    with 4(2) t have "sent = sent1" "s' = s1" by simp_all
    with first(1) first(2) [of "[]" p1 "[]"] show ?thesis by auto
  next
    case False
    with 4(2) t obtain sent2 where rest: "query_loop goos es s1 = Return (r, s', sent2)"
        "sent = sent1 @ sent2"
      by (auto simp: obind_eq_Return)
    from 4(1) [OF t refl refl False rest(1) first(1)] first(2) rest(2) show ?thesis by fastforce
  qed
qed

text \<open>Packets that have left are among the packets produced.\<close>

definition delivered_info :: "addr \<Rightarrow> (addr \<times> byte list \<times> bool) list \<Rightarrow> nat" where
  "delivered_info a sent = length (filter (\<lambda>(b, p, d). b = a \<and> \<not> is_challenge_packet p \<and> d) sent)"

definition produced_challenges :: "addr \<Rightarrow> (addr \<times> byte list \<times> bool) list \<Rightarrow> nat" where
  "produced_challenges a sent = length (filter (\<lambda>(b, p, d). b = a \<and> is_challenge_packet p) sent)"

lemma delivered_le: "delivered_info a sent \<le> info_packets is_challenge_packet a (packets_of sent)"
  by (induction sent) (auto simp: delivered_info_def info_packets_def packets_of_def)

lemma produced_eq:
  "produced_challenges a sent = challenge_packets is_challenge_packet a (packets_of sent)"
  by (induction sent) (auto simp: produced_challenges_def challenge_packets_def packets_of_def)

section \<open>When an iteration panics\<close>

text \<open>What \<open>Start\<close> establishes before it starts the goroutine.\<close>

definition endpoint_ok :: "fd set \<Rightarrow> server \<Rightarrow> bool" where
  "endpoint_ok fds s \<longleftrightarrow>
     (\<exists>b. queryBind s = Some b \<and> binding_ok fds b) \<and> queryProto s \<noteq> None \<and>
     0 \<le> queryReadBufferSizeBytes s"

text \<open>An iteration that gets a datagram.\<close>

definition turn_datagram :: "turn_env \<Rightarrow> server \<Rightarrow> (byte list \<times> addr) option" where
  "turn_datagram e s =
     (case queryBind s of
        None \<Rightarrow> None
      | Some b \<Rightarrow>
          if IsDone b \<or> setReadDeadline (turnRead e) \<noteq> None then None
          else (case readFromUDP (turnRead e) of Inl _ \<Rightarrow> None | Inr d \<Rightarrow> Some d))"

lemma binding_ok_close_if: "binding_ok fds b \<Longrightarrow> binding_ok fds (close_if c b)"
  by (auto simp: binding_ok_def close_if_def closed_binding_def IsDone_def split: option.splits)

lemma handleChallenge_returns: "\<exists>x. handleChallenge env q a = Return x"
  by (auto simp: handleChallenge_eq split: prod.splits sum.splits)

lemma of_list_parts [simp]:
  "slice_cap (of_list buf) = length buf" "slice_len (of_list buf) = length buf"
  "elems (of_list buf) = buf" "spare (of_list buf) = []"
  by (simp_all add: of_list_def slice_cap_def slice_len_def)

lemma Respond_panics:
  "(\<exists>x. Respond goos st env p a (of_list buf) = Panic x) \<longleftrightarrow> length buf < 5"
proof (cases p)
  case (A2SProto q)
  have "take 5 buf \<noteq> a2sInfoRequest" if "length buf < 5"
    using that arg_cong [where f = length, of "take 5 buf" a2sInfoRequest] by auto
  then show ?thesis
    using a2s_panic_cases [of goos "Some st" env q a "of_list buf"]
    by (auto simp: A2SProto Respond_def obind_eq_Panic)
next
  case (SQPProto q)
  show ?thesis
  proof (cases "length buf < 5")
    case True
    then show ?thesis by (simp add: SQPProto Respond_def sqp_Respond_eq)
  next
    case False
    have "\<exists>x. handleQuery (Some st) q a (of_list buf) = Return x"
    proof (cases "length buf < 8")
      case True
      then show ?thesis using handleQuery_short [of "of_list buf"] by simp
    next
      case False
      then have "handleQuery (Some st) q a (of_list buf) = Return (query_answer (Some st) q a buf)"
        using handleQuery_eq [of "of_list buf"] by (simp add: metrics_panic_def)
      then show ?thesis by blast
    qed
    with False have "\<exists>x. sqp_Respond (Some st) env q a (of_list buf) = Return x"
      using handleChallenge_returns [of env q a] by (auto simp: sqp_Respond_eq split: list.splits)
    with False show ?thesis by (auto simp: SQPProto Respond_def)
  qed
qed

text \<open>An iteration in the terms of its datagram.\<close>

lemma query_turn_datagram:
  assumes "endpoint_ok fds s"
  obtains (idle) r s1 where "turn_datagram e s = None" "query_turn goos e s = Return (r, s1, [])"
  | (datagram) d a b where "turn_datagram e s = Some (d, a)" "queryBind s = Some b" "binding_ok fds b"
      "query_turn goos e s =
         query_respond goos e a (fill_buffer (replicate (nat (queryReadBufferSizeBytes s)) 0) d)
           (close_if (closedInRead e) b) (s\<lparr>queryBind := Some (close_if (closedInRead e) b)\<rparr>)"
proof -
  from assms obtain b where b: "queryBind s = Some b" "binding_ok fds b"
    and n: "\<not> queryReadBufferSizeBytes s < 0"
    by (auto simp: endpoint_ok_def)
  let ?buf = "replicate (nat (queryReadBufferSizeBytes s)) (0 :: byte)"
  show ?thesis
  proof (cases "turn_datagram e s")
    case (Some x)
    obtain d a where x: "x = (d, a)" by (cases x)
    with Some b obtain c where "\<not> IsDone b" "setReadDeadline (turnRead e) = None"
        "readFromUDP (turnRead e) = Inr (d, a)" "conn b = Some c"
      by (auto simp: turn_datagram_def binding_ok_def split: if_splits sum.splits option.splits)
    then have "udp_Read (turnRead e) b ?buf =
        Return (Inr (min (length d) (length ?buf), a, fill_buffer ?buf d))"
      by (simp add: udp_Read_def)
    with Some x b n show ?thesis
      by (intro datagram [of d a b]) (simp_all add: query_turn_def make_buffer_def Let_def)
  next
    case None
    with b have "\<exists>err. udp_Read (turnRead e) b ?buf = Return (Inl err)"
      by (auto simp: turn_datagram_def udp_Read_def binding_ok_def split: if_splits sum.splits option.splits)
    then obtain err where "udp_Read (turnRead e) b ?buf = Return (Inl err)" by blast
    with b n have "\<exists>r s1. query_turn goos e s = Return (r, s1, [])"
      by (simp add: query_turn_def make_buffer_def Let_def)
    with None idle show ?thesis by blast
  qed
qed

lemma query_respond_panics:
  assumes "binding_ok fds b" and "queryProto s \<noteq> None"
  shows "(\<exists>x. query_respond goos e a buf b s = Panic x) \<longleftrightarrow> length buf < 5"
proof -
  obtain p where p: "queryProto s = Some p" using assms(2) by blast
  obtain w where w: "udp_Write (turnWrite e) (close_if (closedInWrite e) b) = Return w"
    using udp_Write_ok [OF binding_ok_close_if [OF assms(1)]] by blast
  show ?thesis
  proof (cases "length buf < 5")
    case True
    then obtain x where "Respond goos (state s) (turnGen e) p a (of_list buf) = Panic x"
      using Respond_panics by blast
    with True p show ?thesis by (simp add: query_respond_def)
  next
    case False
    then obtain p' g r where "Respond goos (state s) (turnGen e) p a (of_list buf) = Return (p', g, r)"
      using Respond_panics by (metis outcome.exhaust prod_cases3)
    with False p w show ?thesis
      by (cases r; cases w) (simp_all add: query_respond_def Let_def)
  qed
qed


section \<open>Facts about the endpoint\<close>

lemma restart_outcome:
  assumes "restartQueryEndpoint env c s fds = Return (err, s', fds', started)"
    and "pred_option (binding_ok fds) (queryBind s)"
  shows "(case err of
      None \<Rightarrow> started \<and> (\<exists>b. queryBind s' = Some b \<and> binding_ok fds' b \<and> \<not> IsDone b)
    | Some e \<Rightarrow> \<not> started \<and> queryBind s' = None \<and> (\<exists>x. e = BindError x)) \<and>
    s' = s\<lparr>queryBind := queryBind s'\<rparr>"
proof -
  obtain s1 fds1 where mid: "s1 = s\<lparr>queryBind := queryBind s1\<rparr>"
    "(case newUDPBinding env ('':'' @ QueryPort c) (queryReadBufferSizeBytes s1)
        (queryWriteBufferSizeBytes s1) (queryReadDeadlineDuration s1) (queryWriteDeadlineDuration s1) fds1 of
       (fds', Inl e) \<Rightarrow> Return (Some (BindError e), s1\<lparr>queryBind := None\<rparr>, fds', False)
     | (fds', Inr b) \<Rightarrow> Return (None, s1\<lparr>queryBind := Some b\<rparr>, fds', True))
     = Return (err, s', fds', started)"
  proof (cases "queryBind s")
    case None
    then show ?thesis
      using assms(1) by (intro that [of s fds]) (simp_all add: restartQueryEndpoint_def)
  next
    case (Some b)
    with assms(2) obtain b' fds1 where "udp_Close b fds = Return (b', fds1)"
      using udp_Close_ok [of fds b] by fastforce
    with Some assms(1) show ?thesis
      by (intro that [of "s\<lparr>queryBind := None\<rparr>" fds1]; cases s)
         (simp_all add: restartQueryEndpoint_def)
  qed
  then show ?thesis
    by (cases s1) (auto split: prod.splits sum.splits dest: newUDPBinding_ok)
qed

lemma fill_zeros: "fill_buffer (replicate n 0) (d @ replicate k 0) = fill_buffer (replicate n 0) d"
proof -
  have "take (n - length d) (replicate k 0) @ replicate (n - (length d + k)) (0 :: byte)
      = replicate (n - length d) 0"
    by (simp add: replicate_add [symmetric] del: replicate_append_same)
  then show ?thesis by (simp add: fill_buffer_def)
qed

lemma query_turn_answer:
  assumes "endpoint_ok fds s" and "turn_datagram e s = Some (d, a)" and "queryProto s = Some p"
    and "\<not> closedInRead e" and "\<not> closedInWrite e"
    and "turnWrite e = \<lparr>setWriteDeadline = None, writeTo = None\<rparr>"
    and "Respond goos (state s) (turnGen e) p a
      (of_list (fill_buffer (replicate (nat (queryReadBufferSizeBytes s)) 0) d)) = Return (p', g, Inr resp)"
  shows "query_turn goos e s = Return (GoOn, s\<lparr>queryProto := Some p'\<rparr>, [(a, resp, True)])"
proof (cases rule: query_turn_datagram [OF assms(1), of e goos, case_names idle datagram])
  case (datagram d' a' b)
  from datagram(3) have "\<not> IsDone b" "conn b \<noteq> None"
    using assms(2) datagram(2) by (auto simp: turn_datagram_def binding_ok_def split: option.splits if_splits)
  with datagram assms show ?thesis
    by (cases s) (auto simp: query_respond_def close_if_def udp_Write_def Let_def)
qed (use assms(2) in simp)

section \<open>The endpoint stays sound\<close>

lemma endpoint_PushError [simp]: "endpoint_ok fds (PushError e s) = endpoint_ok fds s"
  by (simp add: endpoint_ok_def PushError_def)

lemma endpoint_respond:
  assumes "query_respond goos e a buf b s = Return (r, s1, sent)"
    and "binding_ok fds b" and "queryBind s = Some b" and "0 \<le> queryReadBufferSizeBytes s"
  shows "endpoint_ok fds s1 \<and> queryReadBufferSizeBytes s1 = queryReadBufferSizeBytes s"
proof -
  from assms(1) obtain p where "queryProto s = Some p" by (auto simp: query_respond_def split: option.splits)
  with assms(1) obtain p' g x where x: "Respond goos (state s) (turnGen e) p a (of_list buf) = Return (p', g, x)"
    by (cases "Respond goos (state s) (turnGen e) p a (of_list buf)") (auto simp: query_respond_def)
  have ok: "endpoint_ok fds (s\<lparr>queryProto := Some p', queryBind := Some b'\<rparr>)" if "binding_ok fds b'" for b'
    using that assms(4) by (simp add: endpoint_ok_def)
  show ?thesis
  proof (cases x)
    case (Inl err)
    with x assms \<open>queryProto s = Some p\<close> have "s1 = PushError (QueryRespondError err) (s\<lparr>queryProto := Some p'\<rparr>)"
      by (simp add: query_respond_def)
    with assms(2-4) show ?thesis by (simp add: endpoint_ok_def PushError_def)
  next
    case (Inr pk)
    from udp_Write_ok [OF binding_ok_close_if [OF assms(2)]] obtain w where
      "udp_Write (turnWrite e) (close_if (closedInWrite e) b) = Return w" by blast
    with x Inr assms(1) \<open>queryProto s = Some p\<close>
    have "s1 \<in> insert (s\<lparr>queryProto := Some p', queryBind := Some (close_if (closedInWrite e) b)\<rparr>)
        (range (\<lambda>err. PushError (QueryWriteError err)
           (s\<lparr>queryProto := Some p', queryBind := Some (close_if (closedInWrite e) b)\<rparr>)))"
      by (auto simp: query_respond_def Let_def split: option.splits if_splits)
    with ok [OF binding_ok_close_if [OF assms(2)]] show ?thesis by (auto simp: PushError_def endpoint_ok_def)
  qed
qed

lemma endpoint_turn:
  assumes "query_turn goos e s = Return (r, s1, sent)" and "endpoint_ok fds s"
  shows "endpoint_ok fds s1 \<and> queryReadBufferSizeBytes s1 = queryReadBufferSizeBytes s"
proof -
  from assms(2) obtain b where b: "queryBind s = Some b" "binding_ok fds b" "\<not> queryReadBufferSizeBytes s < 0"
    by (auto simp: endpoint_ok_def)
  let ?buf = "replicate (nat (queryReadBufferSizeBytes s)) (0 :: byte)"
  let ?b = "close_if (closedInRead e) b" and ?s = "s\<lparr>queryBind := Some (close_if (closedInRead e) b)\<rparr>"
  from udp_Read_ok [OF b(2)] obtain x where x: "udp_Read (turnRead e) b ?buf = Return x" by blast
  have ok: "endpoint_ok fds ?s" using assms(2) binding_ok_close_if [OF b(2)] by (simp add: endpoint_ok_def)
  show ?thesis
  proof (cases x)
    case (Inl err)
    with x assms(1) b have "s1 = ?s \<or> s1 = PushError (QueryReadError err) ?s"
      by (auto simp: query_turn_def make_buffer_def Let_def split: if_splits)
    with ok show ?thesis by (auto simp: PushError_def endpoint_ok_def)
  next
    case (Inr y)
    obtain n a buf where y: "y = (n, a, buf)" by (cases y)
    with x Inr assms(1) b have "query_respond goos e a buf ?b ?s = Return (r, s1, sent)"
      by (simp add: query_turn_def make_buffer_def Let_def)
    from endpoint_respond [OF this binding_ok_close_if [OF b(2)]] b(3) show ?thesis by simp
  qed
qed

text \<open>When an iteration panics.\<close>

lemma query_turn_panic_cases:
  assumes "endpoint_ok fds s"
  shows "(\<exists>x. query_turn goos e s = Panic x) \<longleftrightarrow>
    turn_datagram e s \<noteq> None \<and> queryReadBufferSizeBytes s < 5"
proof (cases rule: query_turn_datagram [OF assms, of e goos, case_names idle datagram])
  case (datagram d a b)
  have "queryProto s \<noteq> None" using assms by (simp add: endpoint_ok_def)
  moreover have "nat (queryReadBufferSizeBytes s) < 5 \<longleftrightarrow> queryReadBufferSizeBytes s < 5" by arith
  ultimately show ?thesis
    using query_respond_panics [OF binding_ok_close_if [OF datagram(3)]] datagram by simp
qed simp

lemma query_loop_returns:
  assumes "endpoint_ok fds s" and "5 \<le> queryReadBufferSizeBytes s"
  shows "\<exists>x. query_loop goos es s = Return x"
  using assms
proof (induction goos es s rule: query_loop.induct)
  case (2 goos k es s)
  have "endpoint_ok fds (s\<lparr>queryProto := map_option (proto_purge k) (queryProto s)\<rparr>)"
    using 2(2) by (simp add: endpoint_ok_def)
  with 2 show ?case by simp
next
  case (3 goos st es s)
  have "endpoint_ok fds (s\<lparr>state := st\<rparr>)" using 3(2) by (simp add: endpoint_ok_def)
  with 3 show ?case by simp
next
  case (4 goos e es s)
  from query_turn_panic_cases [OF 4(2), of goos e] 4(3) obtain r s1 sent where
    t: "query_turn goos e s = Return (r, s1, sent)"
    by (cases "query_turn goos e s") auto
  show ?case
  proof (cases "r = Leave")
    case False
    from endpoint_turn [OF t 4(2)] 4(3) have "\<exists>x. query_loop goos es s1 = Return x"
      by (intro 4(1) [OF t refl refl False]) simp_all
    with False show ?thesis by (auto simp: t)
  qed (simp add: t)
qed simp

section \<open>A sample endpoint\<close>

text \<open>A server that serves SQP with a read buffer of nine bytes, and a datagram for it.\<close>

definition sample_bind :: udp_binding where
  "sample_bind = \<lparr>conn = Some 5, bindDone = make_chan 0, readDeadlineDuration = 3 * Second,
     writeDeadlineDuration = Second\<rparr>"

definition sample_server :: server where
  "sample_server = (fresh_server TypeAllocation ''f'')\<lparr>queryBind := Some sample_bind,
     queryProto := Some (SQPProto new_query_base), queryReadBufferSizeBytes := 9\<rparr>"

definition sample_turn :: "byte list \<Rightarrow> byte \<Rightarrow> turn_env" where
  "sample_turn d r = \<lparr>turnRead = \<lparr>setReadDeadline = None, readFromUDP = Inr (d, ''c'')\<rparr>,
     closedInRead = False, turnGen = sample_env 5 r, closedInWrite = False,
     turnWrite = \<lparr>setWriteDeadline = None, writeTo = None\<rparr>\<rparr>"

definition sample_query :: "byte list" where
  "sample_query = [1] @ be_put32 7 @ be_put16 1 @ [1]"

lemma sample_endpoint_ok: "endpoint_ok {5} sample_server"
  by (simp add: endpoint_ok_def sample_server_def sample_bind_def binding_ok_def IsDone_def make_chan_def)

lemma sample_datagram: "turn_datagram (sample_turn d r) sample_server = Some (d, ''c'')"
  by (simp add: turn_datagram_def sample_turn_def sample_server_def sample_bind_def IsDone_def
      make_chan_def)

text \<open>The conversation of an SQP client with a served endpoint, on an untroubled network.\<close>

definition quiet_turn :: "byte list \<Rightarrow> addr \<Rightarrow> gen_env \<Rightarrow> turn_env" where
  "quiet_turn d a g = \<lparr>turnRead = \<lparr>setReadDeadline = None, readFromUDP = Inr (d, a)\<rparr>,
     closedInRead = False, turnGen = g, closedInWrite = False,
     turnWrite = \<lparr>setWriteDeadline = None, writeTo = None\<rparr>\<rparr>"

definition query_datagram :: "uint32 \<Rightarrow> uint16 \<Rightarrow> byte \<Rightarrow> byte list" where
  "query_datagram c version chunks = [1] @ be_put32 c @ be_put16 version @ [chunks]"

lemma datagram_buffers:
  assumes "8 \<le> n"
  shows "of_list (fill_buffer (replicate n 0) []) = sqp_challenge_request (n - 5)"
    and "of_list (fill_buffer (replicate n 0) (query_datagram c v k)) = sqp_query_request c v k (n - 8)"
  using assms
  by (simp_all add: fill_buffer_def sqp_challenge_request_def query_datagram_def sqp_query_request_def
      be_put32_def be_put16_def)

lemma sqp_conversation:
  assumes "endpoint_ok fds s" and "queryBind s = Some b" and "\<not> IsDone b" and "8 \<le> queryReadBufferSizeBytes s"
    and "queryProto s = Some (SQPProto q)" and "GenerateChallenge g1 a q = (q1, purge, Inr c)" and "v \<le> 2"
  shows "\<exists>q2. query_loop goos [Turn (quiet_turn [] a g1), Turn (quiet_turn (query_datagram c v k) a g2)] s =
    Return (GoOn, s\<lparr>queryProto := Some (SQPProto q2)\<rparr>, [(a, sqp_challenge_packet c, True),
      (a, sqp_response c (sqp_payload (k AND 1 = 1) (k AND 16 = 16 \<and> v \<ge> 2) (Some (state s))), True)])"
proof -
  let ?n = "nat (queryReadBufferSizeBytes s)" and ?st = "Some (state s)"
  have size: "8 \<le> ?n" using assms(4) by simp
  have some: "?st = None \<Longrightarrow> \<not> (k AND 16 = 16 \<and> v = 2)" by simp
  obtain q2 where x: "sqp_Respond ?st g1 q a (sqp_challenge_request (?n - 5))
      = Return (q1, purge, Inr (sqp_challenge_packet c))"
    using sqp_exchange [OF assms(6,7), of ?st k ?st "?n - 5"] by auto
  obtain q2 where y: "sqp_Respond ?st g2 q1 a (sqp_query_request c v k (?n - 8)) = Return (q2, None,
      Inr (sqp_response c (sqp_payload (k AND 1 = 1) (k AND 16 = 16 \<and> v \<ge> 2) ?st)))"
    using sqp_exchange [OF assms(6,7), of ?st k ?st "?n - 8" g2] by auto
  let ?s1 = "s\<lparr>queryProto := Some (SQPProto q1)\<rparr>"
  have env: "turnGen (quiet_turn d a g) = g" "\<not> closedInRead (quiet_turn d a g)"
      "\<not> closedInWrite (quiet_turn d a g)"
      "turnWrite (quiet_turn d a g) = \<lparr>setWriteDeadline = None, writeTo = None\<rparr>" for d g
    by (simp_all add: quiet_turn_def)
  have ok1: "endpoint_ok fds ?s1" using assms(1) by (simp add: endpoint_ok_def)
  have dg: "turn_datagram (quiet_turn d a g) s = Some (d, a)" "turn_datagram (quiet_turn d a g) ?s1 = Some (d, a)" for d g
    using assms(2,3) by (simp_all add: turn_datagram_def quiet_turn_def)
  have "Respond goos (state s) (turnGen (quiet_turn [] a g1)) (SQPProto q) a
      (of_list (fill_buffer (replicate ?n 0) [])) = Return (SQPProto q1, purge, Inr (sqp_challenge_packet c))"
    unfolding datagram_buffers(1) [OF size] env by (simp add: Respond_def x)
  from query_turn_answer [OF assms(1) dg(1) assms(5) env(2-4) this]
  have 1: "query_turn goos (quiet_turn [] a g1) s = Return (GoOn, ?s1, [(a, sqp_challenge_packet c, True)])" .
  have "Respond goos (state ?s1) (turnGen (quiet_turn (query_datagram c v k) a g2)) (SQPProto q1) a
      (of_list (fill_buffer (replicate (nat (queryReadBufferSizeBytes ?s1)) 0) (query_datagram c v k)))
    = Return (SQPProto q2, None,
        Inr (sqp_response c (sqp_payload (k AND 1 = 1) (k AND 16 = 16 \<and> v \<ge> 2) ?st)))"
    using datagram_buffers(2) [OF size, of c v k] by (simp add: env Respond_def y)
  from query_turn_answer [OF ok1 dg(2) _ env(2-4) this] 1 show ?thesis
    by (intro exI [of _ q2]) simp
qed

text \<open>The sample conversation, and a query on a buffer of nine bytes.\<close>

lemma sample_run:
  obtains s' where "query_loop goos [Turn (sample_turn [] 7), Turn (sample_turn sample_query r)] sample_server =
    Return (GoOn, s', [(''c'', sqp_challenge_packet 7, True),
      (''c'', sqp_response 7 (sqp_payload True False (Some (state sample_server))), True)])"
proof -
  obtain q1 g where gen: "GenerateChallenge (sample_env 5 7) ''c'' new_query_base = (q1, g, Inr 7)"
    using sample_generate_ok by blast
  have t: "sample_turn d k = quiet_turn d ''c'' (sample_env 5 k)" for d k
    by (simp add: sample_turn_def quiet_turn_def)
  have q: "sample_query = query_datagram 7 1 1" by (simp add: sample_query_def query_datagram_def)
  have s: "queryBind sample_server = Some sample_bind" "\<not> IsDone sample_bind"
      "8 \<le> queryReadBufferSizeBytes sample_server" "queryProto sample_server = Some (SQPProto new_query_base)"
    by (simp_all add: sample_server_def sample_bind_def IsDone_def make_chan_def)
  have v: "(1 :: uint16) \<le> 2" by simp
  from sqp_conversation [OF sample_endpoint_ok s gen v, of goos 1 "sample_env 5 r"] that
  show ?thesis unfolding t q by auto
qed

section \<open>Properties of the query endpoint\<close>

text \<open>
  C7. The query loop, as it runs: whatever datagrams arrive, whatever the system calls return,
  whenever the state is set, challenges are purged or the binding is closed, an address that
  had no challenge receives at most as many info packets as challenge packets were made for
  it. (A challenge packet whose write failed counts: its value may have been guessed.)
\<close>

theorem query_loop_no_amplification:
  assumes "query_loop goos es s = Return (r, s', sent)" and "queryProto s = Some p"
    and "pending (proto_base p) a = None"
  shows "delivered_info a sent \<le> produced_challenges a sent"
proof -
  from query_loop_serves [OF assms(1,2)] obtain ts p'
    where "serve_proto p ts = Return (p', packets_of sent)" by blast
  from endpoint.info_le_challenges [OF this, of a] assms(3) delivered_le [of a sent]
  show ?thesis by (simp add: produced_eq)
qed

theorem query_loop_no_amplification_witness:
  "\<exists>s' sent. query_loop ''linux'' [Turn (sample_turn [] 7), Turn (sample_turn sample_query 8)] sample_server
      = Return (GoOn, s', sent) \<and>
    delivered_info ''c'' sent = 1 \<and> delivered_info ''c'' sent \<le> produced_challenges ''c'' sent"
proof -
  let ?sent = "[(''c'', sqp_challenge_packet 7, True),
      (''c'', sqp_response 7 (sqp_payload True False (Some (state sample_server))), True)]"
  obtain s' where r: "query_loop ''linux'' [Turn (sample_turn [] 7), Turn (sample_turn sample_query 8)]
      sample_server = Return (GoOn, s', ?sent)"
    by (rule sample_run)
  have "queryProto sample_server = Some (SQPProto new_query_base)" by (simp add: sample_server_def)
  from query_loop_no_amplification [OF r this, of "''c''"] r show ?thesis
    by (intro exI [of _ s'] exI [of _ ?sent]) (simp add: pending_new delivered_info_def)
qed

text \<open>
  When an iteration panics: exactly when it gets a datagram and the read buffer, whose
  size the option \<open>WithQueryReadBuffer\<close> sets, has fewer than five bytes. From five bytes on, no
  datagram of any content and length stops the loop.
\<close>

theorem query_turn_panics_iff:
  assumes "endpoint_ok fds s"
  shows "(\<exists>x. query_turn goos e s = Panic x) \<longleftrightarrow>
    turn_datagram e s \<noteq> None \<and> queryReadBufferSizeBytes s < 5"
  using assms by (rule query_turn_panic_cases)

theorem query_turn_panics_iff_witness:
  "\<exists>x. query_turn ''linux'' (sample_turn [1, 2, 3, 4, 5, 6] 7)
      (sample_server\<lparr>queryReadBufferSizeBytes := 4\<rparr>) = Panic x"
proof -
  let ?s = "sample_server\<lparr>queryReadBufferSizeBytes := 4\<rparr>"
  have "endpoint_ok {5} ?s" using sample_endpoint_ok by (simp add: endpoint_ok_def)
  moreover have "turn_datagram (sample_turn [1, 2, 3, 4, 5, 6] 7) ?s \<noteq> None"
    using sample_datagram [of "[1, 2, 3, 4, 5, 6]" 7] by (simp add: turn_datagram_def)
  ultimately show ?thesis by (subst query_turn_panics_iff) simp_all
qed

text \<open>
  The length of a datagram does not matter: zero bytes at its end change nothing in what
  the iteration does. An empty datagram, in particular, is an SQP challenge request.
\<close>

theorem query_turn_ignores_length:
  assumes "readFromUDP (turnRead e) = Inr (d, a)"
  shows "query_turn goos (e\<lparr>turnRead := (turnRead e)\<lparr>readFromUDP := Inr (d @ replicate k 0, a)\<rparr>\<rparr>) s
    = query_turn goos e s"
  using assms
  by (auto simp: query_turn_def udp_Read_def make_buffer_def fill_zeros query_respond_def Let_def
      split: option.splits)

theorem query_turn_ignores_length_witness:
  "query_turn ''linux'' (sample_turn [0, 0] 7) sample_server = query_turn ''linux'' (sample_turn [] 7) sample_server"
  using query_turn_ignores_length [of "sample_turn [] 7" "[]" "''c''" "''linux''" 2 sample_server]
  by (simp add: sample_turn_def eval_nat_numeral)

text \<open>
  Switching the protocol, from any state with a sound binding or none. On success a new
  goroutine serves a fresh binding with a responder of the configured protocol, without any
  challenge of the old one; when the new binding cannot be made, the server is left without
  one, and a goroutine still running on it panics at its next iteration.
\<close>

theorem switch_protocol_outcome:
  assumes "switchQueryProtocol env c s fds = Return (err, s', fds', started)"
    and "pred_option (binding_ok fds) (queryBind s)" and "0 \<le> queryReadBufferSizeBytes s"
  shows "case err of
      None \<Rightarrow> started \<and> endpoint_ok fds' s' \<and> state s' = state s \<and>
        queryProto s' = Some (if QueryType c = ''a2s'' then A2SProto new_query_base
                              else SQPProto new_query_base)
    | Some ErrUnsupportedQueryType \<Rightarrow> \<not> started \<and> s' = s \<and> QueryType c \<notin> {''a2s'', ''sqp''}
    | Some _ \<Rightarrow> \<not> started \<and> query_turn goos e s' = Panic NilDereference"
proof -
  consider (unsupported) "QueryType c \<noteq> ''a2s''" "QueryType c \<noteq> ''sqp''"
    | (supported) p where "restartQueryEndpoint env c (s\<lparr>queryProto := Some p\<rparr>) fds
        = Return (err, s', fds', started)" "QueryType c \<in> {''a2s'', ''sqp''}"
        "p = (if QueryType c = ''a2s'' then A2SProto new_query_base else SQPProto new_query_base)"
    using assms(1)
    by (auto simp: switchQueryProtocol_def QueryProtocolA2S_def QueryProtocolSQP_def split: if_splits)
  then show ?thesis
  proof cases
    case unsupported
    with assms(1) show ?thesis
      by (auto simp: switchQueryProtocol_def QueryProtocolA2S_def QueryProtocolSQP_def)
  next
    case (supported p)
    have sized: "\<not> queryReadBufferSizeBytes s < 0" using assms(3) by simp
    from restart_outcome [OF supported(1)] assms(2)
    have o: "case err of
        None \<Rightarrow> started \<and> (\<exists>b. queryBind s' = Some b \<and> binding_ok fds' b \<and> \<not> IsDone b)
      | Some e \<Rightarrow> \<not> started \<and> queryBind s' = None \<and> (\<exists>x. e = BindError x)"
      and eq: "s' = s\<lparr>queryProto := Some p, queryBind := queryBind s'\<rparr>" by simp_all
    have f: "queryProto s' = Some p" "state s' = state s"
        "queryReadBufferSizeBytes s' = queryReadBufferSizeBytes s"
      by (subst eq, simp)+
    show ?thesis
    proof (cases err)
      case None
      with o f assms(3) supported(3) show ?thesis by (auto simp: endpoint_ok_def)
    next
      case (Some e)
      with o have "e \<noteq> ErrUnsupportedQueryType" by auto
      moreover have "query_turn goos e' s' = Panic NilDereference" for e'
        using o Some f(3) sized by (simp add: query_turn_def make_buffer_def)
      ultimately show ?thesis using o Some by (cases e) auto
    qed
  qed
qed

theorem switch_protocol_outcome_witness:
  "\<exists>s' fds'. switchQueryProtocol (sample_listen 6) (zero_config\<lparr>QueryType := ''a2s''\<rparr>) sample_server {5}
      = Return (None, s', fds', True) \<and>
    endpoint_ok fds' s' \<and> queryProto s' = Some (A2SProto new_query_base)"
proof -
  obtain s' fds' where r: "switchQueryProtocol (sample_listen 6) (zero_config\<lparr>QueryType := ''a2s''\<rparr>)
      sample_server {5} = Return (None, s', fds', True)"
    by (simp add: switchQueryProtocol_def restartQueryEndpoint_def QueryProtocolA2S_def sample_server_def
        sample_bind_def udp_Close_def IsDone_def make_chan_def chan_close_def newUDPBinding_def
        sample_listen_def)
  have "pred_option (binding_ok {5}) (queryBind sample_server)" "0 \<le> queryReadBufferSizeBytes sample_server"
    using sample_endpoint_ok by (auto simp: endpoint_ok_def)
  from switch_protocol_outcome [OF r this] r show ?thesis by auto
qed

end
