(* ===== verification/Gsh_Events.thy ===== *)
theory Gsh_Events
  imports Gsh_Server
begin

text \<open>
  The file \<open>game-server-hosting/server/event_watcher.go\<close>: the setup of the local proxy client,
  the two callbacks, and what a stream of published messages does to the server while the game
  consumes its channels. The client library runs its handlers one at a time, so a callback that
  waits in a send holds up the messages behind it.
\<close>

section \<open>listenForEvents\<close>

text \<open>
  The part of the goroutine before it waits for \<open>done\<close>: the value sent on \<open>eventWatcherReady\<close>
  is \<open>Some\<close> the error with which the goroutine returns, or \<open>None\<close>. (\<open>localproxy.New\<close> never
  fails.) The client that was made stays in the server even when starting it fails.
\<close>

definition register_callbacks :: "server_type \<Rightarrow> callback client \<Rightarrow> callback client" where
  "register_callbacks t c =
     (if t = TypeAllocation
      then RegisterCallback DeallocateEventType WatchDeallocation
             (RegisterCallback AllocateEventType WatchAllocation c)
      else c)"

definition listenForEvents ::
  "centrifuge_env \<Rightarrow> go_string option \<Rightarrow> server \<Rightarrow> server \<times> gsh_error option" where
  "listenForEvents env connect s =
     (case parse_int64 (ServerID (Config s)) of
        (i, Some e) \<Rightarrow> (s, Some (ParseServerID e))
      | (serverID, None) \<Rightarrow>
          (let c = register_callbacks (serverType s) (New_client (LocalProxyURL (Config s)) serverID);
               s = s\<lparr>localProxyClient := Some c\<rparr>
           in case client_Start env connect c of
                Inl e \<Rightarrow> (s, Some (ProxySetup e))
              | Inr subs \<Rightarrow> (s, None)))"

section \<open>The callbacks\<close>

text \<open>
  The allocation is recorded before the identifier is sent. \<open>False\<close>: the channel is full, the
  callback waits in the send.
\<close>

definition watchAllocation :: "event \<Rightarrow> server \<Rightarrow> bool \<times> server" where
  "watchAllocation ev s =
     (case ev of
        AllocateEvent b i \<Rightarrow>
          (let s = s\<lparr>allocatedUUID := i\<rparr> in
           case chan_send i (chanAllocated s) of
             None \<Rightarrow> (False, s)
           | Some c \<Rightarrow> (True, s\<lparr>chanAllocated := c\<rparr>))
      | _ \<Rightarrow> (True, s))"

definition watchDeallocation :: "event \<Rightarrow> server \<Rightarrow> bool \<times> server" where
  "watchDeallocation ev s =
     (case ev of
        DeallocateEvent b i \<Rightarrow>
          (let s = s\<lparr>allocatedUUID := []\<rparr> in
           case chan_send i (chanDeallocated s) of
             None \<Rightarrow> (False, s)
           | Some c \<Rightarrow> (True, s\<lparr>chanDeallocated := c\<rparr>))
      | _ \<Rightarrow> (True, s))"

definition run_callback :: "callback \<Rightarrow> event \<Rightarrow> server \<Rightarrow> bool \<times> server" where
  "run_callback cb ev s =
     (case cb of WatchAllocation \<Rightarrow> watchAllocation ev s | WatchDeallocation \<Rightarrow> watchDeallocation ev s)"

text \<open>A published message: the handler of the client, with the server's error channel.\<close>

definition publish :: "json_lib \<Rightarrow> go_string + json \<Rightarrow> callback client \<Rightarrow> server \<Rightarrow>
    (server \<times> (callback \<times> event) option) outcome" where
  "publish lib data c s =
     obind (OnPublish lib data c (chanError s)) (\<lambda>(errs, job). Return (s\<lparr>chanError := errs\<rparr>, job))"

section \<open>A stream of messages and its consumer\<close>

record ev_sys =
  srv :: server
  stuck :: "(callback \<times> go_string) option"
  tookAllocated :: "go_string list"
  tookDeallocated :: "go_string list"

datatype ev_op = Message "go_string + json" | TakeAllocated | TakeDeallocated

text \<open>The identifier that the callback is about to send.\<close>

primrec event_allocation :: "event \<Rightarrow> go_string" where
  "event_allocation (AllocateEvent b i) = i"
| "event_allocation (DeallocateEvent b i) = i"
| "event_allocation (BaseEvent b) = []"

text \<open>A receive makes room: a callback that waits on that channel completes its send.\<close>

inductive ev_step :: "json_lib \<Rightarrow> ev_sys \<Rightarrow> ev_op \<Rightarrow> ev_sys \<Rightarrow> bool" where
  message_ignored:
    "stuck x = None \<Longrightarrow> localProxyClient (srv x) = Some c \<Longrightarrow>
     publish lib d c (srv x) = Return (s', None) \<Longrightarrow>
     ev_step lib x (Message d) (x\<lparr>srv := s'\<rparr>)"
| message_sent:
    "stuck x = None \<Longrightarrow> localProxyClient (srv x) = Some c \<Longrightarrow>
     publish lib d c (srv x) = Return (s1, Some (cb, ev)) \<Longrightarrow> run_callback cb ev s1 = (True, s') \<Longrightarrow>
     ev_step lib x (Message d) (x\<lparr>srv := s'\<rparr>)"
| message_stuck:
    "stuck x = None \<Longrightarrow> localProxyClient (srv x) = Some c \<Longrightarrow>
     publish lib d c (srv x) = Return (s1, Some (cb, ev)) \<Longrightarrow> run_callback cb ev s1 = (False, s') \<Longrightarrow>
     ev_step lib x (Message d) (x\<lparr>srv := s', stuck := Some (cb, event_allocation ev)\<rparr>)"
| take_allocated:
    "chan_recv (OnAllocate (srv x)) = Some (i, c) \<Longrightarrow>
     (\<forall>j. stuck x \<noteq> Some (WatchAllocation, j)) \<Longrightarrow>
     ev_step lib x TakeAllocated
       (x\<lparr>srv := (srv x)\<lparr>chanAllocated := c\<rparr>, tookAllocated := tookAllocated x @ [i]\<rparr>)"
| take_allocated_free:
    "chan_recv (OnAllocate (srv x)) = Some (i, c) \<Longrightarrow> stuck x = Some (WatchAllocation, j) \<Longrightarrow>
     chan_send j c = Some c' \<Longrightarrow>
     ev_step lib x TakeAllocated
       (x\<lparr>srv := (srv x)\<lparr>chanAllocated := c'\<rparr>, stuck := None, tookAllocated := tookAllocated x @ [i]\<rparr>)"
| take_deallocated:
    "chan_recv (OnDeallocate (srv x)) = Some (i, c) \<Longrightarrow>
     (\<forall>j. stuck x \<noteq> Some (WatchDeallocation, j)) \<Longrightarrow>
     ev_step lib x TakeDeallocated
       (x\<lparr>srv := (srv x)\<lparr>chanDeallocated := c\<rparr>, tookDeallocated := tookDeallocated x @ [i]\<rparr>)"
| take_deallocated_free:
    "chan_recv (OnDeallocate (srv x)) = Some (i, c) \<Longrightarrow> stuck x = Some (WatchDeallocation, j) \<Longrightarrow>
     chan_send j c = Some c' \<Longrightarrow>
     ev_step lib x TakeDeallocated
       (x\<lparr>srv := (srv x)\<lparr>chanDeallocated := c'\<rparr>, stuck := None,
          tookDeallocated := tookDeallocated x @ [i]\<rparr>)"

code_pred (modes: i \<Rightarrow> i \<Rightarrow> i \<Rightarrow> o \<Rightarrow> bool) ev_step .

inductive ev_trace :: "json_lib \<Rightarrow> ev_sys \<Rightarrow> ev_op list \<Rightarrow> ev_sys \<Rightarrow> bool" where
  ev_start: "ev_trace lib x [] x"
| ev_next: "ev_trace lib x ops y \<Longrightarrow> ev_step lib y op z \<Longrightarrow> ev_trace lib x (ops @ [op]) z"

section \<open>What the messages mean\<close>

definition message_event :: "json_lib \<Rightarrow> ev_op \<Rightarrow> event option" where
  "message_event lib op =
     (case op of
        Message d \<Rightarrow> (case unmarshalEvent lib d of Return (Inr ev) \<Rightarrow> Some ev | _ \<Rightarrow> None)
      | _ \<Rightarrow> None)"

definition allocated_id :: "json_lib \<Rightarrow> ev_op \<Rightarrow> go_string list" where
  "allocated_id lib op = (case message_event lib op of Some (AllocateEvent b i) \<Rightarrow> [i] | _ \<Rightarrow> [])"

definition deallocated_id :: "json_lib \<Rightarrow> ev_op \<Rightarrow> go_string list" where
  "deallocated_id lib op = (case message_event lib op of Some (DeallocateEvent b i) \<Rightarrow> [i] | _ \<Rightarrow> [])"

definition allocation_after :: "json_lib \<Rightarrow> ev_op \<Rightarrow> go_string \<Rightarrow> go_string" where
  "allocation_after lib op u =
     (case message_event lib op of
        Some (AllocateEvent b i) \<Rightarrow> i
      | Some (DeallocateEvent b i) \<Rightarrow> []
      | _ \<Rightarrow> u)"

definition stuck_on :: "callback \<Rightarrow> ev_sys \<Rightarrow> go_string list" where
  "stuck_on cb x = (case stuck x of Some (cb', i) \<Rightarrow> if cb = cb' then [i] else [] | None \<Rightarrow> [])"

text \<open>The callbacks of a server for allocations are in place.\<close>

definition listening :: "server \<Rightarrow> bool" where
  "listening s \<longleftrightarrow>
     (case localProxyClient s of
        None \<Rightarrow> False
      | Some c \<Rightarrow>
          callbacks c = [AllocateEventType \<mapsto> WatchAllocation, DeallocateEventType \<mapsto> WatchDeallocation])"

text \<open>The accounting of identifiers, and the current allocation.\<close>

definition ev_inv :: "json_lib \<Rightarrow> go_string \<Rightarrow> ev_op list \<Rightarrow> ev_sys \<Rightarrow> bool" where
  "ev_inv lib u ops x \<longleftrightarrow>
     listening (srv x) \<and>
     concat (map (allocated_id lib) ops) =
       tookAllocated x @ waitingVals (chanAllocated (srv x)) @ stuck_on WatchAllocation x \<and>
     concat (map (deallocated_id lib) ops) =
       tookDeallocated x @ waitingVals (chanDeallocated (srv x)) @ stuck_on WatchDeallocation x \<and>
     allocatedUUID (srv x) = fold (allocation_after lib) ops u"

lemma publish_job:
  assumes "publish lib d c s = Return (s', job)" and "listening s" and "localProxyClient s = Some c"
  shows "(\<exists>errs. s' = s\<lparr>chanError := errs\<rparr>) \<and>
    job = (case message_event lib (Message d) of
             Some (AllocateEvent b i) \<Rightarrow> Some (WatchAllocation, AllocateEvent b i)
           | Some (DeallocateEvent b i) \<Rightarrow> Some (WatchDeallocation, DeallocateEvent b i)
           | _ \<Rightarrow> None)"
proof -
  have cbs: "callbacks c = [AllocateEventType \<mapsto> WatchAllocation, DeallocateEventType \<mapsto> WatchDeallocation]"
    using assms(2,3) by (simp add: listening_def)
  obtain r where r: "unmarshalEvent lib d = Return r"
    using assms(1) by (cases "unmarshalEvent lib d") (auto simp: publish_def OnPublish_def)
  have "\<exists>errs. s' = s\<lparr>chanError := errs\<rparr>"
    using assms(1) by (auto simp: publish_def obind_eq_Return)
  then show ?thesis
  proof (cases r)
    case (Inl e)
    with assms(1) r show ?thesis by (auto simp: publish_def OnPublish_def message_event_def)
  next
    case (Inr ev)
    have "event_typed ev" using unmarshal_typed r Inr by blast
    moreover have "job = map_option (\<lambda>cb. (cb, ev)) (callbacks c (event_Type ev))"
      using assms(1) r Inr by (auto simp: publish_def OnPublish_def)
    moreover have "message_event lib (Message d) = Some ev" by (simp add: message_event_def r Inr)
    ultimately have "job = (case message_event lib (Message d) of
             Some (AllocateEvent b i) \<Rightarrow> Some (WatchAllocation, AllocateEvent b i)
           | Some (DeallocateEvent b i) \<Rightarrow> Some (WatchDeallocation, DeallocateEvent b i)
           | _ \<Rightarrow> None)"
      by (cases ev) (simp_all add: cbs event_typed_def event_types_differ [symmetric])
    with \<open>\<exists>errs. s' = s\<lparr>chanError := errs\<rparr>\<close> show ?thesis by blast
  qed
qed

lemma message_event_take [simp]:
  "message_event lib TakeAllocated = None" "message_event lib TakeDeallocated = None"
  by (simp_all add: message_event_def)

lemma listening_updates [simp]:
  "listening (s\<lparr>chanError := e\<rparr>) = listening s" "listening (s\<lparr>allocatedUUID := u\<rparr>) = listening s"
  "listening (s\<lparr>chanAllocated := a\<rparr>) = listening s" "listening (s\<lparr>chanDeallocated := a\<rparr>) = listening s"
  by (simp_all add: listening_def)

lemma chan_send_vals: "chan_send i c = Some c' \<Longrightarrow> waitingVals c' = waitingVals c @ [i]"
  by (auto simp: chan_send_def split: if_splits)

lemma chan_recv_vals: "chan_recv c = Some (i, c') \<Longrightarrow> waitingVals c = i # waitingVals c'"
  by (auto simp: chan_recv_def split: list.splits)


lemmas id_defs = allocated_id_def deallocated_id_def allocation_after_def

text \<open>What a callback run on a message does to the accounts.\<close>

lemma run_callback_cases:
  assumes "publish lib d c s = Return (s1, Some (cb, ev))" and "listening s"
    and "localProxyClient s = Some c" and "run_callback cb ev s1 = (r, s')"
  obtains (alloc) b i where "message_event lib (Message d) = Some (AllocateEvent b i)"
      "cb = WatchAllocation" "event_allocation ev = i" "allocatedUUID s' = i"
      "chanDeallocated s' = chanDeallocated s" "listening s'"
      "waitingVals (chanAllocated s') = waitingVals (chanAllocated s) @ (if r then [i] else [])"
  | (dealloc) b i where "message_event lib (Message d) = Some (DeallocateEvent b i)"
      "cb = WatchDeallocation" "event_allocation ev = i" "allocatedUUID s' = []"
      "chanAllocated s' = chanAllocated s" "listening s'"
      "waitingVals (chanDeallocated s') = waitingVals (chanDeallocated s) @ (if r then [i] else [])"
proof -
  from publish_job [OF assms(1-3)] obtain errs where s1: "s1 = s\<lparr>chanError := errs\<rparr>"
    and job: "Some (cb, ev) = (case message_event lib (Message d) of
             Some (AllocateEvent b i) \<Rightarrow> Some (WatchAllocation, AllocateEvent b i)
           | Some (DeallocateEvent b i) \<Rightarrow> Some (WatchDeallocation, DeallocateEvent b i)
           | _ \<Rightarrow> None)" by blast
  from job obtain b i where
    "message_event lib (Message d) = Some (AllocateEvent b i) \<and> cb = WatchAllocation \<and> ev = AllocateEvent b i \<or>
     message_event lib (Message d) = Some (DeallocateEvent b i) \<and> cb = WatchDeallocation \<and> ev = DeallocateEvent b i"
    by (auto split: option.splits event.splits)
  then show ?thesis
  proof
    assume a: "message_event lib (Message d) = Some (AllocateEvent b i) \<and> cb = WatchAllocation \<and> ev = AllocateEvent b i"
    with assms(4) s1 assms(2) show ?thesis
      by (intro alloc [of b i])
         (auto simp: run_callback_def watchAllocation_def Let_def dest: chan_send_vals split: option.splits)
  next
    assume a: "message_event lib (Message d) = Some (DeallocateEvent b i) \<and> cb = WatchDeallocation \<and> ev = DeallocateEvent b i"
    with assms(4) s1 assms(2) show ?thesis
      by (intro dealloc [of b i])
         (auto simp: run_callback_def watchDeallocation_def Let_def dest: chan_send_vals split: option.splits)
  qed
qed

lemma ev_inv_step:
  assumes "ev_step lib x op y" and "ev_inv lib u ops x"
  shows "ev_inv lib u (ops @ [op]) y"
  using assms(1)
proof cases
  case (message_ignored c d s')
  have l: "listening (srv x)" using assms(2) by (simp add: ev_inv_def)
  from publish_job [OF message_ignored(5) l message_ignored(4)]
  have "\<exists>errs. s' = (srv x)\<lparr>chanError := errs\<rparr>" "allocated_id lib op = []" "deallocated_id lib op = []"
      "allocation_after lib op = id"
    by (auto simp: message_ignored(1) id_defs fun_eq_iff split: option.splits event.splits)
  with assms(2) message_ignored(2) show ?thesis by (auto simp: ev_inv_def stuck_on_def)
next
  case (message_sent c d s1 cb ev s')
  have l: "listening (srv x)" using assms(2) by (simp add: ev_inv_def)
  show ?thesis
    using run_callback_cases [OF message_sent(5) l message_sent(4) message_sent(6)]
    by cases (use assms(2) message_sent in \<open>auto simp: ev_inv_def stuck_on_def id_defs\<close>)
next
  case (message_stuck c d s1 cb ev s')
  have l: "listening (srv x)" using assms(2) by (simp add: ev_inv_def)
  show ?thesis
    using run_callback_cases [OF message_stuck(5) l message_stuck(4) message_stuck(6)]
    by cases (use assms(2) message_stuck in \<open>auto simp: ev_inv_def stuck_on_def id_defs\<close>)
next
  case (take_allocated i c)
  with assms(2) chan_recv_vals [OF take_allocated(3)] show ?thesis
    by (auto simp: ev_inv_def stuck_on_def id_defs split: option.splits)
next
  case (take_allocated_free i c j c')
  with assms(2) chan_recv_vals [OF take_allocated_free(3)] chan_send_vals [OF take_allocated_free(5)]
  show ?thesis by (auto simp: ev_inv_def stuck_on_def id_defs)
next
  case (take_deallocated i c)
  with assms(2) chan_recv_vals [OF take_deallocated(3)] show ?thesis
    by (auto simp: ev_inv_def stuck_on_def id_defs split: option.splits)
next
  case (take_deallocated_free i c j c')
  with assms(2) chan_recv_vals [OF take_deallocated_free(3)] chan_send_vals [OF take_deallocated_free(5)]
  show ?thesis by (auto simp: ev_inv_def stuck_on_def id_defs)
qed

lemma ev_inv_trace: "ev_trace lib x ops y \<Longrightarrow> ev_inv lib u [] x \<Longrightarrow> ev_inv lib u ops y"
proof (induction rule: ev_trace.induct)
  case (ev_next lib x ops y op z)
  then show ?case using ev_inv_step [OF ev_next.hyps(2)] by blast
qed


section \<open>Facts about the setup\<close>

lemma register_listening:
  "localProxyClient s = Some (register_callbacks TypeAllocation (New_client h i)) \<Longrightarrow> listening s"
  by (simp add: listening_def register_callbacks_def RegisterCallback_def New_client_def)

lemma listenForEvents_listening:
  "listenForEvents env connect s = (s', None) \<Longrightarrow> serverType s = TypeAllocation \<Longrightarrow> listening s'"
  by (auto simp: listenForEvents_def Let_def split: prod.splits option.splits sum.splits
      intro!: register_listening)

definition sample_listener :: server where
  "sample_listener = (fresh_server TypeAllocation ''f'')\<lparr>localProxyClient :=
     Some (register_callbacks TypeAllocation (New_client ''http://h'' 1))\<rparr>"

definition sample_message :: "go_string \<Rightarrow> go_string + json" where
  "sample_message i = Inr (event_json (AllocateEvent
     \<lparr>Typ = AllocateEventType, EventID = ''e'', EventServerID = 1\<rparr> i))"

definition sample_ev_sys :: ev_sys where
  "sample_ev_sys = \<lparr>srv = sample_listener, stuck = None, tookAllocated = [], tookDeallocated = []\<rparr>"

lemma sample_unmarshal:
  "unmarshalEvent lib (sample_message i) = Return (Inr (AllocateEvent
     \<lparr>Typ = AllocateEventType, EventID = ''e'', EventServerID = 1\<rparr> i))"
  unfolding sample_message_def by (rule unmarshal_encoded) (simp_all add: event_typed_def int64_range_def)

text \<open>Two allocations with nobody listening: the second one waits.\<close>

lemma sample_ev_trace:
  "\<exists>y. ev_trace lib sample_ev_sys [Message (sample_message ''a''), Message (sample_message ''b'')] y \<and>
     waitingVals (chanAllocated (srv y)) = [''a''] \<and> stuck y = Some (WatchAllocation, ''b'')"
proof -
  let ?b = "\<lparr>Typ = AllocateEventType, EventID = ''e'', EventServerID = 1\<rparr>"
  let ?c = "register_callbacks TypeAllocation (New_client ''http://h'' 1)"
  have cb: "callbacks ?c AllocateEventType = Some WatchAllocation"
    by (simp add: register_callbacks_def RegisterCallback_def New_client_def
        event_types_differ [symmetric])
  have pub: "publish lib (sample_message i) ?c s = Return (s, Some (WatchAllocation, AllocateEvent ?b i))" for i s
    by (simp add: publish_def OnPublish_def sample_unmarshal cb)
  let ?s1 = "sample_listener\<lparr>allocatedUUID := ''a'',
      chanAllocated := \<lparr>chanCap = 1, waitingVals = [''a''], isClosed = False\<rparr>\<rparr>"
  let ?x1 = "sample_ev_sys\<lparr>srv := ?s1\<rparr>"
  have run1: "run_callback WatchAllocation (AllocateEvent ?b ''a'') sample_listener = (True, ?s1)"
    by (simp add: run_callback_def watchAllocation_def Let_def chan_send_def sample_listener_def
        fresh_server_def make_chan_def)
  have client: "localProxyClient sample_listener = Some ?c" by (simp add: sample_listener_def)
  have step1: "ev_step lib sample_ev_sys (Message (sample_message ''a'')) ?x1"
    by (rule ev_step.message_sent [OF _ _ pub]) (simp_all add: sample_ev_sys_def run1 client)
  let ?s2 = "?s1\<lparr>allocatedUUID := ''b''\<rparr>"
  have run2: "run_callback WatchAllocation (AllocateEvent ?b ''b'') ?s1 = (False, ?s2)"
    by (simp add: run_callback_def watchAllocation_def Let_def chan_send_def)
  have "ev_step lib ?x1 (Message (sample_message ''b'')) (?x1\<lparr>srv := ?s2,
      stuck := Some (WatchAllocation, event_allocation (AllocateEvent ?b ''b''))\<rparr>)"
    by (rule ev_step.message_stuck [OF _ _ pub])
       (simp add: sample_ev_sys_def, simp add: client, simp only: sample_ev_sys_def ev_sys.simps run2)
  then have step2: "ev_step lib ?x1 (Message (sample_message ''b'')) (?x1\<lparr>srv := ?s2,
      stuck := Some (WatchAllocation, ''b'')\<rparr>)" by simp
  from ev_trace.ev_next [OF ev_trace.ev_next [OF ev_trace.ev_start step1] step2] show ?thesis
    by (intro exI [of _ "?x1\<lparr>srv := ?s2, stuck := Some (WatchAllocation, ''b'')\<rparr>"]) simp
qed

section \<open>Properties of the event watcher\<close>

text \<open>
  C11. Allocations are neither lost nor reordered. In every run of messages and consumers, the
  identifiers of the allocation messages are, in order, those the game has taken, the one
  waiting in the channel and the one whose callback waits in its send; the same holds for the
  deallocations; and the server's current allocation is the one the last of all these messages
  left, although the game may not have been told of it yet.
\<close>

theorem allocation_events_complete:
  assumes "ev_trace lib \<lparr>srv = s, stuck = None, tookAllocated = [], tookDeallocated = []\<rparr> ops y"
    and "listening s" and "waitingVals (chanAllocated s) = []" and "waitingVals (chanDeallocated s) = []"
  shows "concat (map (allocated_id lib) ops) =
      tookAllocated y @ waitingVals (chanAllocated (srv y)) @ stuck_on WatchAllocation y \<and>
    concat (map (deallocated_id lib) ops) =
      tookDeallocated y @ waitingVals (chanDeallocated (srv y)) @ stuck_on WatchDeallocation y \<and>
    allocatedUUID (srv y) = fold (allocation_after lib) ops (allocatedUUID s)"
proof -
  have "ev_inv lib (allocatedUUID s) [] \<lparr>srv = s, stuck = None, tookAllocated = [], tookDeallocated = []\<rparr>"
    using assms(2-4) by (simp add: ev_inv_def stuck_on_def)
  from ev_inv_trace [OF assms(1) this] show ?thesis by (simp add: ev_inv_def)
qed

theorem allocation_events_complete_witness:
  "\<exists>y. ev_trace sample_json_lib sample_ev_sys
      [Message (sample_message ''a''), Message (sample_message ''b'')] y \<and>
    waitingVals (chanAllocated (srv y)) = [''a''] \<and> allocatedUUID (srv y) = ''b''"
proof -
  obtain y where y: "ev_trace sample_json_lib sample_ev_sys
      [Message (sample_message ''a''), Message (sample_message ''b'')] y"
      "waitingVals (chanAllocated (srv y)) = [''a'']"
    using sample_ev_trace by blast
  have "listening sample_listener" by (rule register_listening) (simp add: sample_listener_def)
  moreover have "waitingVals (chanAllocated sample_listener) = []"
      "waitingVals (chanDeallocated sample_listener) = []"
    by (simp_all add: sample_listener_def fresh_server_def make_chan_def)
  ultimately have "allocatedUUID (srv y) = ''b''"
    using allocation_events_complete [OF y(1) [unfolded sample_ev_sys_def]]
    by (simp add: allocation_after_def message_event_def sample_unmarshal)
  with y show ?thesis by blast
qed

end
