(* ===== verification/Gsh_Lifecycle.thy ===== *)
theory Gsh_Lifecycle
  imports Gsh_Query Gsh_Events
begin

text \<open>
  Starting and stopping a server (\<open>Start\<close>, \<open>Stop\<close> of \<open>server.go\<close>) and the configuration watcher
  (\<open>config_watcher.go\<close>): the operations on the server's state. The synchronisation of the
  goroutines they start is the subject of \<open>Gsh_Shutdown\<close>.
\<close>

section \<open>Start\<close>

record start_env =
  startFile :: file_content
  mkdirAll :: "go_string \<Rightarrow> go_string option"
  startListen :: listen_env
  startCentrifuge :: centrifuge_env
  startConnect :: "go_string option"

text \<open>
  \<open>Start\<close> up to the \<open>go\<close> statements, first from the point where the configuration is loaded. The
  last component says whether \<open>handleQuery\<close> was started.
\<close>

definition start_defaults :: "config \<Rightarrow> server \<Rightarrow> server" where
  "start_defaults c s =
     (let s = SetServerName (''go-sdk-server - '' @ ServerID c) s;
          s = SetGameMap ''go-sdk-map'' s
      in if QueryType c = QueryProtocolSQP
         then s\<lparr>state := (state s)\<lparr>Metrics := make_slice 0 0 MaxMetrics\<rparr>\<rparr> else s)"

definition Start_with_config ::
  "config \<Rightarrow> start_env \<Rightarrow> server \<Rightarrow> fd set \<Rightarrow> (gsh_error option \<times> server \<times> fd set \<times> bool) outcome" where
  "Start_with_config c env s fds =
     (let s = setConfig c s in
      case mkdirAll env (ServerLogDir c) of
        Some e \<Rightarrow> Return (Some (CreateLogDir e), s, fds, False)
      | None \<Rightarrow>
          obind (switchQueryProtocol (startListen env) c (start_defaults c s) fds)
            (\<lambda>(err, s, fds, started).
              case err of
                Some e \<Rightarrow> Return (Some e, s, fds, started)
              | None \<Rightarrow>
                  Return (None,
                    s\<lparr>state := (state s)\<lparr>Port := word_of_int (fst (parse_int64 (GamePort c)))\<rparr>\<rparr>,
                    fds, started)))"

definition Start_prepare ::
  "start_env \<Rightarrow> server \<Rightarrow> fd set \<Rightarrow> (gsh_error option \<times> server \<times> fd set \<times> bool) outcome" where
  "Start_prepare env s fds =
     obind (newConfigFromFile (startFile env)) (\<lambda>r.
       case r of
         Inl e \<Rightarrow> Return (Some (ConfigError e), s, fds, False)
       | Inr c \<Rightarrow> Start_with_config c env s fds)"

text \<open>
  The whole of \<open>Start\<close>, when the configuration file does not change meanwhile: it waits for the
  event watcher and wraps its error.
\<close>

definition Start ::
  "start_env \<Rightarrow> server \<Rightarrow> fd set \<Rightarrow> (gsh_error option \<times> server \<times> fd set \<times> bool) outcome" where
  "Start env s fds =
     obind (Start_prepare env s fds) (\<lambda>(err, s, fds, started).
       case err of
         Some e \<Rightarrow> Return (Some e, s, fds, started)
       | None \<Rightarrow>
           (case listenForEvents (startCentrifuge env) (startConnect env) s of
              (s, Some e) \<Rightarrow> Return (Some (EventWatcherError e), s, fds, started)
            | (s, None) \<Rightarrow> Return (None, s, fds, started)))"

section \<open>Stop\<close>

text \<open>
  \<open>Stop\<close> up to \<open>wg.Wait()\<close>. It can have to wait earlier, in its send, when the channel still
  holds a message; the endpoint is closed by then.
\<close>

datatype stop_point = StopBlocked | StopWaits

definition close_endpoint :: "server \<Rightarrow> fd set \<Rightarrow> (server \<times> fd set) outcome" where
  "close_endpoint s fds =
     (case queryBind s of
        None \<Rightarrow> Return (s, fds)
      | Some b \<Rightarrow> obind (udp_Close b fds) (\<lambda>(b, fds). Return (s\<lparr>queryBind := Some b\<rparr>, fds)))"

definition Stop :: "server \<Rightarrow> fd set \<Rightarrow> (server \<times> fd set \<times> stop_point) outcome" where
  "Stop s fds =
     obind (close_endpoint s fds) (\<lambda>(s, fds).
       case chan_send [] (chanDeallocated s) of
         None \<Rightarrow> Return (s, fds, StopBlocked)
       | Some c \<Rightarrow>
           obind (chan_close (srvDone s)) (\<lambda>d.
             Return (s\<lparr>chanDeallocated := c, srvDone := d\<rparr>, fds, StopWaits)))"

text \<open>
  \<open>WaitUntilTerminated\<close>, of the signals the process receives: \<open>None\<close> while it waits. The first of the two
  signals is taken and \<open>Stop\<close> is called.
\<close>

definition WaitUntilTerminated ::
  "os_signal list \<Rightarrow> server \<Rightarrow> fd set \<Rightarrow> (server \<times> fd set \<times> stop_point) outcome option" where
  "WaitUntilTerminated sigs s fds =
     (case chan_recv (signal_notify [SigInterrupt, SigTerm] sigs (make_chan 2)) of
        None \<Rightarrow> None
      | Some (sig, c) \<Rightarrow> Some (Stop s fds))"

section \<open>watchForConfigChanges\<close>

text \<open>
  An iteration of the loop. The file system library reports a file name, whether the \<open>Write\<close>
  bit is set, and the file as it is then found; or an error.
\<close>

datatype fs_event = FsEvent go_string bool file_content | FsError go_string

definition config_watch :: "fs_event \<Rightarrow> server \<Rightarrow> server outcome" where
  "config_watch ev s =
     (case ev of
        FsEvent name written f \<Rightarrow>
          if name \<noteq> cfgFile s then Return s
          else if \<not> written then Return s
          else obind (newConfigFromFile f) (\<lambda>r.
                 case r of
                   Inl e \<Rightarrow> Return (if e = DecodeEOF then s else PushError (ParseConfigError e) s)
                 | Inr c \<Rightarrow> Return (setConfig c s))
      | FsError e \<Rightarrow> Return (PushError (WatchError e) s))"

fun config_events :: "fs_event list \<Rightarrow> server \<Rightarrow> server outcome" where
  "config_events [] s = Return s"
| "config_events (ev # evs) s = obind (config_watch ev s) (config_events evs)"

text \<open>
  The whole goroutine: the error of \<open>NewWatcher\<close> is dropped, so its nil watcher is dereferenced;
  the announcement that it is ready; the loop, which ends when the library closes one of its channels
  or at \<open>done\<close>. \<open>True\<close>: it has returned.
\<close>

datatype watch_event = FileEvent fs_event | WatcherClosed | DoneReceived

fun watch_loop :: "watch_event list \<Rightarrow> server \<Rightarrow> (server \<times> bool) outcome" where
  "watch_loop [] s = Return (s, False)"
| "watch_loop (FileEvent ev # evs) s = obind (config_watch ev s) (watch_loop evs)"
| "watch_loop (WatcherClosed # evs) s = Return (s, True)"
| "watch_loop (DoneReceived # evs) s =
     obind (chan_close (internalEventProcessorReady s)) (\<lambda>c.
       Return (s\<lparr>internalEventProcessorReady := c\<rparr>, True))"

definition watchForConfigChanges ::
  "go_string option \<Rightarrow> watch_event list \<Rightarrow> server \<Rightarrow> (server \<times> bool) outcome" where
  "watchForConfigChanges newWatcherErr evs s =
     (case newWatcherErr of
        Some e \<Rightarrow> Panic NilDereference
      | None \<Rightarrow>
          (case chan_send () (internalEventProcessorReady s) of
             None \<Rightarrow> Return (s, False)
           | Some c \<Rightarrow> watch_loop evs (s\<lparr>internalEventProcessorReady := c\<rparr>)))"

lemma watch_loop_events:
  "watch_loop (map FileEvent evs @ rest) s = obind (config_events evs s) (watch_loop rest)"
proof (induction evs arbitrary: s)
  case (Cons ev evs)
  then show ?case by (cases "config_watch ev s") simp_all
qed simp

section \<open>Facts about Start and the watcher\<close>

lemma listenForEvents_frame:
  "listenForEvents env connect s = (s', r) \<Longrightarrow> s' = s\<lparr>localProxyClient := localProxyClient s'\<rparr>"
  by (auto simp: listenForEvents_def Let_def split: prod.splits option.splits sum.splits)

lemma setters_frame [simp]:
  "queryBind (setConfig c s) = queryBind s" "queryBind (SetServerName n s) = queryBind s"
  "queryBind (SetGameMap n s) = queryBind s"
  "queryReadBufferSizeBytes (setConfig c s) = queryReadBufferSizeBytes s"
  "queryReadBufferSizeBytes (SetServerName n s) = queryReadBufferSizeBytes s"
  "queryReadBufferSizeBytes (SetGameMap n s) = queryReadBufferSizeBytes s"
  "serverType (setConfig c s) = serverType s" "serverType (SetServerName n s) = serverType s"
  "serverType (SetGameMap n s) = serverType s"
  "currentConfig (setConfig c s) = c" "currentConfig (SetServerName n s) = currentConfig s"
  "currentConfig (SetGameMap n s) = currentConfig s"
  by (simp_all add: setConfig_def SetServerName_def SetGameMap_def)

text \<open>The query endpoint does not touch the rest of the server.\<close>

lemma switch_success:
  assumes "switchQueryProtocol env c s fds = Return (None, s', fds', started)"
    and "queryBind s = None" and "0 \<le> queryReadBufferSizeBytes s"
  shows "started \<and> endpoint_ok fds' s' \<and> QueryType c \<in> {''a2s'', ''sqp''} \<and>
    pred_option (\<lambda>b. \<not> IsDone b) (queryBind s') \<and>
    s' = s\<lparr>queryProto := Some (if QueryType c = ''a2s'' then A2SProto new_query_base
      else SQPProto new_query_base), queryBind := queryBind s'\<rparr>"
proof -
  obtain p where p: "restartQueryEndpoint env c (s\<lparr>queryProto := Some p\<rparr>) fds
        = Return (None, s', fds', started)" "QueryType c \<in> {''a2s'', ''sqp''}"
        "p = (if QueryType c = ''a2s'' then A2SProto new_query_base else SQPProto new_query_base)"
    using assms(1)
    by (auto simp: switchQueryProtocol_def QueryProtocolA2S_def QueryProtocolSQP_def split: if_splits)
  from restart_outcome [OF p(1)] assms(2)
  have b: "started" "\<exists>b. queryBind s' = Some b \<and> binding_ok fds' b \<and> \<not> IsDone b"
    and eq: "s' = s\<lparr>queryProto := Some p, queryBind := queryBind s'\<rparr>" by auto
  have "queryProto s' = Some p" "queryReadBufferSizeBytes s' = queryReadBufferSizeBytes s"
    by (subst eq, simp)+
  with b assms(3) have "endpoint_ok fds' s'" "pred_option (\<lambda>b. \<not> IsDone b) (queryBind s')"
    by (auto simp: endpoint_ok_def)
  with b(1) p(2,3) eq show ?thesis by blast
qed

lemma Start_prepare_success:
  assumes "Start_prepare env s fds = Return (None, s', fds', started)"
    and "queryBind s = None" and "0 \<le> queryReadBufferSizeBytes s"
  obtains c where "newConfigFromFile (startFile env) = Return (Inr c)" "Config s' = c" "started"
    "endpoint_ok fds' s'" "QueryType c \<in> {''a2s'', ''sqp''}" "serverType s' = serverType s"
    "queryReadBufferSizeBytes s' = queryReadBufferSizeBytes s"
    "pred_option (\<lambda>b. \<not> IsDone b) (queryBind s')"
    "queryProto s' = Some (if QueryType c = ''a2s'' then A2SProto new_query_base else SQPProto new_query_base)"
    "state s' = (state s)\<lparr>ServerName := ''go-sdk-server - '' @ ServerID c, MapName := ''go-sdk-map'',
       Metrics := (if QueryType c = ''sqp'' then make_slice 0 0 MaxMetrics else Metrics (state s)),
       Port := word_of_int (fst (parse_int64 (GamePort c)))\<rparr>"
proof -
  obtain c where c: "newConfigFromFile (startFile env) = Return (Inr c)"
    "Start_with_config c env s fds = Return (None, s', fds', started)"
    using assms(1) by (cases "newConfigFromFile (startFile env)")
      (auto simp: Start_prepare_def split: sum.splits)
  define s2 where "s2 = start_defaults c (setConfig c s)"
  have "mkdirAll env (ServerLogDir c) = None"
    using c(2) by (auto simp: Start_with_config_def Let_def split: option.splits)
  with c(2) have "obind (switchQueryProtocol (startListen env) c s2 fds) (\<lambda>(err, s, fds, started).
                case err of
                  Some e \<Rightarrow> Return (Some e, s, fds, started)
                | None \<Rightarrow>
                    Return (None,
                      s\<lparr>state := (state s)\<lparr>Port := word_of_int (fst (parse_int64 (GamePort c)))\<rparr>\<rparr>,
                      fds, started)) = Return (None, s', fds', started)"
    by (simp add: Start_with_config_def Let_def s2_def)
  then obtain s3 where s3: "switchQueryProtocol (startListen env) c s2 fds = Return (None, s3, fds', started)"
    "s' = s3\<lparr>state := (state s3)\<lparr>Port := word_of_int (fst (parse_int64 (GamePort c)))\<rparr>\<rparr>"
    by (cases "switchQueryProtocol (startListen env) c s2 fds") (auto split: option.splits)
  have f: "queryBind s2 = None" "0 \<le> queryReadBufferSizeBytes s2" "serverType s2 = serverType s"
      "currentConfig s2 = c" "queryReadBufferSizeBytes s2 = queryReadBufferSizeBytes s"
    using assms(2,3) by (simp_all add: s2_def start_defaults_def Let_def)
  let ?p = "Some (if QueryType c = ''a2s'' then A2SProto new_query_base else SQPProto new_query_base)"
  from switch_success [OF s3(1) f(1,2)] have g: "started" "endpoint_ok fds' s3"
      "QueryType c \<in> {''a2s'', ''sqp''}" "pred_option (\<lambda>b. \<not> IsDone b) (queryBind s3)"
    and eq: "s3 = s2\<lparr>queryProto := ?p, queryBind := queryBind s3\<rparr>" by blast+
  have h: "state s3 = state s2" "serverType s3 = serverType s2" "currentConfig s3 = currentConfig s2"
      "queryReadBufferSizeBytes s3 = queryReadBufferSizeBytes s2" "queryProto s3 = ?p"
    by (subst eq, simp)+
  show ?thesis
  proof (rule that [OF c(1)])
    show "endpoint_ok fds' s'" using g(2) by (simp add: s3(2) endpoint_ok_def)
    show "state s' = (state s)\<lparr>ServerName := ''go-sdk-server - '' @ ServerID c, MapName := ''go-sdk-map'',
       Metrics := (if QueryType c = ''sqp'' then make_slice 0 0 MaxMetrics else Metrics (state s)),
       Port := word_of_int (fst (parse_int64 (GamePort c)))\<rparr>"
      by (simp add: s3(2) h s2_def start_defaults_def Let_def SetGameMap_def SetServerName_def setConfig_def
          QueryProtocolSQP_def)
  qed (use g f h s3(2) in \<open>simp_all add: Config_def\<close>)
qed


text \<open>The configuration an event of the watcher puts in force.\<close>

definition event_config :: "go_string \<Rightarrow> fs_event \<Rightarrow> config option" where
  "event_config path ev =
     (case ev of
        FsEvent name written f \<Rightarrow>
          if name = path \<and> written
          then (case newConfigFromFile f of Return (Inr c) \<Rightarrow> Some c | _ \<Rightarrow> None)
          else None
      | FsError e \<Rightarrow> None)"

definition event_report :: "go_string \<Rightarrow> fs_event \<Rightarrow> gsh_error list" where
  "event_report path ev =
     (case ev of
        FsEvent name written f \<Rightarrow>
          if name = path \<and> written
          then (case newConfigFromFile f of
                  Return (Inl e) \<Rightarrow> if e = DecodeEOF then [] else [ParseConfigError e]
                | _ \<Rightarrow> [])
          else []
      | FsError e \<Rightarrow> [WatchError e])"

lemma config_watch_effect:
  assumes "config_watch ev s = Return s'"
  shows "s' = s\<lparr>currentConfig := (case event_config (cfgFile s) ev of None \<Rightarrow> currentConfig s | Some c \<Rightarrow> c),
      chanConfigurationChanged := fold chan_try_send (case event_config (cfgFile s) ev of None \<Rightarrow> [] | Some c \<Rightarrow> [c])
        (chanConfigurationChanged s),
      chanError := fold chan_try_send (event_report (cfgFile s) ev) (chanError s)\<rparr>"
proof (cases ev)
  case (FsEvent name written f)
  show ?thesis
  proof (cases "name = cfgFile s \<and> written")
    case True
    with assms FsEvent obtain r where "newConfigFromFile f = Return r"
      by (cases "newConfigFromFile f") (auto simp: config_watch_def)
    with True assms FsEvent show ?thesis
      by (cases r) (auto simp: config_watch_def event_config_def event_report_def PushError_def setConfig_def
          split: if_splits)
  qed (use assms FsEvent in \<open>auto simp: config_watch_def event_config_def event_report_def split: if_splits\<close>)
qed (use assms in \<open>auto simp: config_watch_def event_config_def event_report_def PushError_def\<close>)

lemma config_events_effect:
  "config_events evs s = Return s' \<Longrightarrow>
   currentConfig s' = fold (\<lambda>ev c. case event_config (cfgFile s) ev of None \<Rightarrow> c | Some c' \<Rightarrow> c')
     evs (currentConfig s) \<and>
   chanError s' = fold chan_try_send (concat (map (event_report (cfgFile s)) evs)) (chanError s) \<and>
   (\<exists>c n e. s' = s\<lparr>currentConfig := c, chanConfigurationChanged := n, chanError := e\<rparr>)"
proof (induction evs arbitrary: s)
  case Nil
  then show ?case by (cases s) auto
next
  case (Cons ev evs)
  then obtain s1 where s1: "config_watch ev s = Return s1" "config_events evs s1 = Return s'"
    by (auto simp: obind_eq_Return)
  from config_watch_effect [OF s1(1)] obtain c n e where eq:
      "s1 = s\<lparr>currentConfig := c, chanConfigurationChanged := n, chanError := e\<rparr>"
      "c = (case event_config (cfgFile s) ev of None \<Rightarrow> currentConfig s | Some c \<Rightarrow> c)"
      "e = fold chan_try_send (event_report (cfgFile s) ev) (chanError s)" by blast
  from Cons.IH [OF s1(2)] obtain c' n' e' where
      "s' = s1\<lparr>currentConfig := c', chanConfigurationChanged := n', chanError := e'\<rparr>" by blast
  then have "s' = s\<lparr>currentConfig := c', chanConfigurationChanged := n', chanError := e'\<rparr>"
    unfolding eq(1) by simp
  with Cons.IH [OF s1(2)] show ?case unfolding eq by auto
qed

section \<open>The outcome of Start\<close>

lemma switch_failure:
  assumes "switchQueryProtocol env c s fds = Return (Some e, s', fds', started)" and "queryBind s = None"
  shows "\<not> started \<and> (\<forall>x. e \<noteq> EventWatcherError x)"
proof (cases "QueryType c \<in> {''a2s'', ''sqp''}")
  case True
  then obtain p where "restartQueryEndpoint env c (s\<lparr>queryProto := Some p\<rparr>) fds = Return (Some e, s', fds', started)"
    using assms(1)
    by (auto simp: switchQueryProtocol_def QueryProtocolA2S_def QueryProtocolSQP_def split: if_splits)
  from restart_outcome [OF this] assms(2) show ?thesis by auto
next
  case False
  with assms(1) show ?thesis
    by (auto simp: switchQueryProtocol_def QueryProtocolA2S_def QueryProtocolSQP_def)
qed

lemma start_defaults_bind [simp]: "queryBind (start_defaults c s) = queryBind s"
  by (simp add: start_defaults_def Let_def)

lemma Start_prepare_failure:
  assumes "Start_prepare env s fds = Return (Some e, s', fds', started)" and "queryBind s = None"
  shows "\<not> started \<and> (\<forall>x. e \<noteq> EventWatcherError x)"
proof -
  from assms(1) consider (config) x where "e = ConfigError x" "\<not> started"
    | (rest) c where "Start_with_config c env s fds = Return (Some e, s', fds', started)"
    by (cases "newConfigFromFile (startFile env)") (auto simp: Start_prepare_def split: sum.splits)
  then show ?thesis
  proof cases
    case (rest c)
    show ?thesis
    proof (cases "mkdirAll env (ServerLogDir c)")
      case None
      with rest obtain s3 where
          "switchQueryProtocol (startListen env) c (start_defaults c (setConfig c s)) fds
             = Return (Some e, s3, fds', started)"
        by (cases "switchQueryProtocol (startListen env) c (start_defaults c (setConfig c s)) fds")
          (auto simp: Start_with_config_def Let_def split: option.splits)
      from switch_failure [OF this] assms(2) show ?thesis by simp
    qed (use rest in \<open>auto simp: Start_with_config_def Let_def\<close>)
  qed simp
qed

lemma Start_cases:
  assumes "Start env s fds = Return (err, s', fds', started)"
  obtains (early) e where "err = Some e" "Start_prepare env s fds = Return (Some e, s', fds', started)"
  | (late) s1 r where "Start_prepare env s fds = Return (None, s1, fds', started)"
      "listenForEvents (startCentrifuge env) (startConnect env) s1 = (s', r)"
      "err = map_option EventWatcherError r"
proof -
  obtain err1 s1 fds1 st1 where p: "Start_prepare env s fds = Return (err1, s1, fds1, st1)"
    using assms by (cases "Start_prepare env s fds") (auto simp: Start_def)
  show ?thesis
  proof (cases err1)
    case None
    obtain s2 r where "listenForEvents (startCentrifuge env) (startConnect env) s1 = (s2, r)" by fastforce
    with assms p None show ?thesis by (intro late [of s1 r]) (auto simp: Start_def split: option.splits)
  next
    case (Some e)
    with assms p show ?thesis by (intro early) (auto simp: Start_def)
  qed
qed

lemma endpoint_client: "endpoint_ok fds (s\<lparr>localProxyClient := c\<rparr>) = endpoint_ok fds s"
  by (simp add: endpoint_ok_def)

lemma listenForEvents_keeps:
  assumes "listenForEvents env connect s = (s', r)"
  shows "endpoint_ok fds s' = endpoint_ok fds s \<and> Config s' = Config s \<and> state s' = state s \<and>
    queryProto s' = queryProto s \<and> serverType s' = serverType s \<and>
    queryReadBufferSizeBytes s' = queryReadBufferSizeBytes s \<and> queryBind s' = queryBind s"
proof -
  obtain c where "s' = s\<lparr>localProxyClient := c\<rparr>" using listenForEvents_frame [OF assms] by blast
  then show ?thesis by (simp add: endpoint_client Config_def)
qed

lemma listenForEvents_server_id:
  "listenForEvents env connect s = (s', None) \<Longrightarrow> snd (parse_int64 (ServerID (Config s))) = None"
  by (auto simp: listenForEvents_def split: prod.splits option.splits)

definition sample_members :: "go_string \<Rightarrow> go_string \<Rightarrow> (go_string \<times> json) list" where
  "sample_members serverID protocol =
     [(''port'', JString ''9000''), (''serverID'', JString serverID), (''queryType'', JString protocol),
      (''enableBackfill'', JString ''true'')]"

definition sample_start :: "go_string \<Rightarrow> go_string \<Rightarrow> start_env" where
  "sample_start serverID protocol = \<lparr>
     startFile = FileValue (JObject (sample_members serverID protocol)),
     mkdirAll = (\<lambda>d. None), startListen = sample_listen 5,
     startCentrifuge = \<lparr>newSubscription = None, subscribeCall = None\<rparr>, startConnect = None\<rparr>"

lemma sample_members_ok:
  "\<forall>i \<in> set [''1'', ''7'', ''1.5'']. \<forall>q \<in> set [''a2s'', ''sqp'']. list_all member_ok (sample_members i q) \<and>
     field_value F_serverID (sample_members i q) = i \<and> field_value F_queryType (sample_members i q) = q"
  by code_simp

lemma sample_config:
  assumes "i \<in> {''1'', ''7'', ''1.5''}" and "q \<in> {''a2s'', ''sqp''}"
  obtains c where "newConfigFromFile (FileValue (JObject (sample_members i q))) = Return (Inr c)" "ServerID c = i"
    "QueryType c = q"
proof -
  let ?ms = "sample_members i q"
  have ok: "list_all member_ok ?ms" "field_value F_serverID ?ms = i" "field_value F_queryType ?ms = q"
    using sample_members_ok assms by auto
  from newConfigFromFile_object [OF ok(1)] obtain c where c:
      "newConfigFromFile (FileValue (JObject ?ms)) = Return (Inr c)"
      "\<And>f. get_field f c = (if field_value f ?ms = [] then field_default f else field_value f ?ms)"
    by blast
  show ?thesis
    by (rule that [OF c(1)]) (use c(2) [of F_serverID] c(2) [of F_queryType] ok(2,3) assms in auto)
qed

lemma sample_listen_binds: "\<exists>b. newUDPBinding (sample_listen 5) a n m rd wd {} = ({5}, Inr b)"
  by (simp add: newUDPBinding_def sample_listen_def)

lemma sample_start_run:
  assumes "i \<in> {''1'', ''7'', ''1.5''}" and "q \<in> {''a2s'', ''sqp''}"
  shows "\<exists>s' fds'. Start (sample_start i q) (fresh_server TypeAllocation ''f'') {} =
     Return (map_option (\<lambda>e. EventWatcherError (ParseServerID e)) (snd (parse_int64 i)), s', fds', True) \<and>
     QueryType (Config s') = q \<and> ServerID (Config s') = i"
proof -
  obtain c where c: "newConfigFromFile (startFile (sample_start i q)) = Return (Inr c)" "ServerID c = i"
      "QueryType c = q"
    using sample_config [OF assms] by (auto simp: sample_start_def)
  have env: "mkdirAll (sample_start i q) d = None" "startListen (sample_start i q) = sample_listen 5"
      "startCentrifuge (sample_start i q) = \<lparr>newSubscription = None, subscribeCall = None\<rparr>"
      "startConnect (sample_start i q) = None" for d
    by (simp_all add: sample_start_def)
  let ?s = "start_defaults c (setConfig c (fresh_server TypeAllocation ''f''))"
  have "queryBind ?s = None" by (simp add: fresh_server_def)
  moreover obtain b where "newUDPBinding (sample_listen 5) ('':'' @ QueryPort c) (queryReadBufferSizeBytes ?s)
      (queryWriteBufferSizeBytes ?s) (queryReadDeadlineDuration ?s) (queryWriteDeadlineDuration ?s) {} = ({5}, Inr b)"
    using sample_listen_binds by blast
  ultimately have "\<exists>p. switchQueryProtocol (sample_listen 5) c ?s {}
      = Return (None, ?s\<lparr>queryProto := Some p, queryBind := Some b\<rparr>, {5}, True)"
    using assms(2) by (auto simp: switchQueryProtocol_def c(3) QueryProtocolA2S_def QueryProtocolSQP_def restartQueryEndpoint_def)
  then have "\<exists>s1. Start_prepare (sample_start i q) (fresh_server TypeAllocation ''f'') {} = Return (None, s1, {5}, True) \<and>
      Config s1 = c"
    by (auto simp: Start_prepare_def c(1) Start_with_config_def Let_def env Config_def start_defaults_def)
  then obtain s1 where s1: "Start_prepare (sample_start i q) (fresh_server TypeAllocation ''f'') {}
      = Return (None, s1, {5}, True)" "Config s1 = c" by blast
  obtain s2 r where l: "listenForEvents (startCentrifuge (sample_start i q)) (startConnect (sample_start i q)) s1 = (s2, r)"
    by fastforce
  then have "r = map_option ParseServerID (snd (parse_int64 i))"
    by (cases "parse_int64 i"; cases "snd (parse_int64 i)")
      (auto simp: listenForEvents_def s1(2) c(2) env client_Start_def subscribe_def Let_def)
  moreover have "QueryType (Config s2) = q" "ServerID (Config s2) = i"
    using listenForEvents_keeps [OF l] s1(2) c(2,3) by simp_all
  ultimately show ?thesis
    by (cases "snd (parse_int64 i)") (auto simp: Start_def s1(1) l)
qed

lemma sample_started:
  assumes "q \<in> {''a2s'', ''sqp''}"
  obtains s' fds' where "Start (sample_start ''7'' q) (fresh_server TypeAllocation ''f'') {} = Return (None, s', fds', True)"
    "QueryType (Config s') = q" "ServerID (Config s') = ''7''"
proof -
  have "snd (parse_int64 ''7'') = None"
    by (simp add: parse_int64_def parse_uint_def digit_value_def Let_def)
  with sample_start_run [of "''7''" q] assms that show ?thesis by auto
qed

text \<open>What a successful \<open>Start\<close> leaves, in the form its users need.\<close>

lemma start_served:
  assumes "Start env s fds = Return (None, s', fds', started)"
    and "queryBind s = None" and "0 \<le> queryReadBufferSizeBytes s"
  obtains b where "endpoint_ok fds' s'" "queryBind s' = Some b" "\<not> IsDone b"
    "queryProto s' = Some (if QueryType (Config s') = ''a2s'' then A2SProto new_query_base else SQPProto new_query_base)"
    "queryReadBufferSizeBytes s' = queryReadBufferSizeBytes s"
    "state s' = (state s)\<lparr>ServerName := ''go-sdk-server - '' @ ServerID (Config s'), MapName := ''go-sdk-map'',
       Metrics := (if QueryType (Config s') = ''sqp'' then make_slice 0 0 MaxMetrics else Metrics (state s)),
       Port := word_of_int (fst (parse_int64 (GamePort (Config s'))))\<rparr>"
  using assms(1)
proof (cases rule: Start_cases)
  case (late s1 r)
  note k = listenForEvents_keeps [OF late(2)]
  show ?thesis
  proof (rule Start_prepare_success [OF late(1) assms(2,3)])
    fix c assume c: "Config s1 = c" "endpoint_ok fds' s1" "pred_option (\<lambda>b. \<not> IsDone b) (queryBind s1)"
      "queryProto s1 = Some (if QueryType c = ''a2s'' then A2SProto new_query_base else SQPProto new_query_base)"
      "queryReadBufferSizeBytes s1 = queryReadBufferSizeBytes s"
      "state s1 = (state s)\<lparr>ServerName := ''go-sdk-server - '' @ ServerID c, MapName := ''go-sdk-map'',
         Metrics := (if QueryType c = ''sqp'' then make_slice 0 0 MaxMetrics else Metrics (state s)),
         Port := word_of_int (fst (parse_int64 (GamePort c)))\<rparr>"
    from c(2,3) obtain b where "queryBind s1 = Some b" "\<not> IsDone b" by (auto simp: endpoint_ok_def)
    with c k show ?thesis by (intro that [of b]) simp_all
  qed
qed simp

lemma start_endpoint:
  assumes "Start env s fds = Return (None, s', fds', started)"
    and "queryBind s = None" and "0 \<le> queryReadBufferSizeBytes s"
  shows "endpoint_ok fds' s' \<and> queryReadBufferSizeBytes s' = queryReadBufferSizeBytes s"
  using assms(1)
proof (cases rule: Start_cases)
  case (late s1 r)
  from Start_prepare_success [OF late(1) assms(2,3)] listenForEvents_keeps [OF late(2)] show ?thesis by metis
qed simp

lemma start_state:
  assumes "Start env s fds = Return (None, s', fds', started)"
    and "queryBind s = None" and "0 \<le> queryReadBufferSizeBytes s"
  shows "QueryType (Config s') \<in> {''a2s'', ''sqp''} \<and>
    Metrics (state s') = (if QueryType (Config s') = ''sqp'' then make_slice 0 0 MaxMetrics else Metrics (state s))"
  using assms(1)
proof (cases rule: Start_cases)
  case (late s1 r)
  obtain c where "Config s1 = c" "QueryType c \<in> {''a2s'', ''sqp''}"
    "Metrics (state s1) = (if QueryType c = ''sqp'' then make_slice 0 0 MaxMetrics else Metrics (state s))"
    by (rule Start_prepare_success [OF late(1) assms(2,3)]) simp
  with listenForEvents_keeps [OF late(2)] show ?thesis by simp
qed simp

lemma start_config:
  assumes "Start env s fds = Return (None, s', fds', started)"
    and "queryBind s = None" and "0 \<le> queryReadBufferSizeBytes s"
  shows "newConfigFromFile (startFile env) = Return (Inr (Config s'))"
  using assms(1)
proof (cases rule: Start_cases)
  case (late s1 r)
  from Start_prepare_success [OF late(1) assms(2,3)] listenForEvents_keeps [OF late(2)] show ?thesis by metis
qed simp

section \<open>Properties of Start and the configuration watcher\<close>

text \<open>C21. When \<open>Start\<close> of a new server returns nil: the configuration is the one of the file and has a
  numeric server identifier; the query endpoint is bound and served; the query state has the default names,
  the port, and room for metrics exactly under SQP; an allocation server listens for its events.\<close>

theorem start_success:
  assumes "Start env s fds = Return (None, s', fds', started)"
    and "queryBind s = None" and "0 \<le> queryReadBufferSizeBytes s"
  shows "\<exists>c. newConfigFromFile (startFile env) = Return (Inr c) \<and> Config s' = c \<and>
    snd (parse_int64 (ServerID c)) = None \<and> started \<and> endpoint_ok fds' s' \<and>
    QueryType c \<in> {''a2s'', ''sqp''} \<and>
    queryProto s' = Some (if QueryType c = ''a2s'' then A2SProto new_query_base else SQPProto new_query_base) \<and>
    state s' = (state s)\<lparr>ServerName := ''go-sdk-server - '' @ ServerID c, MapName := ''go-sdk-map'',
       Metrics := (if QueryType c = ''sqp'' then make_slice 0 0 MaxMetrics else Metrics (state s)),
       Port := word_of_int (fst (parse_int64 (GamePort c)))\<rparr> \<and>
    (serverType s = TypeAllocation \<longrightarrow> listening s')"
  using assms(1)
proof (cases rule: Start_cases)
  case (late s1 r)
  then have r: "listenForEvents (startCentrifuge env) (startConnect env) s1 = (s', None)" by simp
  from Start_prepare_success [OF late(1) assms(2,3)] obtain c where c:
    "newConfigFromFile (startFile env) = Return (Inr c)" "Config s1 = c" "started"
    "endpoint_ok fds' s1" "QueryType c \<in> {''a2s'', ''sqp''}" "serverType s1 = serverType s"
    "queryProto s1 = Some (if QueryType c = ''a2s'' then A2SProto new_query_base else SQPProto new_query_base)"
    "state s1 = (state s)\<lparr>ServerName := ''go-sdk-server - '' @ ServerID c, MapName := ''go-sdk-map'',
       Metrics := (if QueryType c = ''sqp'' then make_slice 0 0 MaxMetrics else Metrics (state s)),
       Port := word_of_int (fst (parse_int64 (GamePort c)))\<rparr>" by blast
  from listenForEvents_keeps [OF r] listenForEvents_server_id [OF r] listenForEvents_listening [OF r] c
  show ?thesis by (intro exI [of _ c]) simp
qed simp

theorem start_success_witness:
  "\<exists>s' fds'. Start (sample_start ''7'' ''sqp'') (fresh_server TypeAllocation ''f'') {} = Return (None, s', fds', True) \<and>
    listening s' \<and> endpoint_ok fds' s' \<and> ServerName (state s') = ''go-sdk-server - 7''"
proof -
  have id: "snd (parse_int64 ''7'') = None"
    by (simp add: parse_int64_def parse_uint_def digit_value_def Let_def)
  obtain s' fds' where r: "Start (sample_start ''7'' ''sqp'') (fresh_server TypeAllocation ''f'') {} = Return (None, s', fds', True)"
    using sample_start_run [of "''7''" "''sqp''"] id by auto
  obtain c where c: "newConfigFromFile (startFile (sample_start ''7'' ''sqp'')) = Return (Inr c)" "ServerID c = ''7''"
    using sample_config [of "''7''" "''sqp''"] by (auto simp: sample_start_def)
  have f: "queryBind (fresh_server TypeAllocation ''f'') = None"
      "0 \<le> queryReadBufferSizeBytes (fresh_server TypeAllocation ''f'')"
      "serverType (fresh_server TypeAllocation ''f'') = TypeAllocation"
    by (simp_all add: fresh_server_def DefaultReadBufferSizeBytes_def)
  from start_success [OF r f(1,2)] r c f(3) show ?thesis by auto
qed

text \<open>C22. When \<open>Start\<close> of a new server returns an error, the query endpoint is open and served exactly when the error
  comes from the event watcher; the caller has to call \<open>Stop\<close> to release it.\<close>

theorem start_failure:
  assumes "Start env s fds = Return (Some e, s', fds', started)"
    and "queryBind s = None" and "0 \<le> queryReadBufferSizeBytes s"
  shows "if \<exists>x. e = EventWatcherError x then started \<and> endpoint_ok fds' s' else \<not> started"
  using assms(1)
proof (cases rule: Start_cases)
  case (early e')
  with Start_prepare_failure [OF early(2) assms(2)] show ?thesis by auto
next
  case (late s1 r)
  from Start_prepare_success [OF late(1) assms(2,3)] have "started" "endpoint_ok fds' s1" by blast+
  with listenForEvents_keeps [OF late(2)] late(3) show ?thesis by (cases r) auto
qed

theorem start_failure_witness:
  "\<exists>e s' fds'. Start (sample_start ''1.5'' ''sqp'') (fresh_server TypeAllocation ''f'') {} =
     Return (Some (EventWatcherError e), s', fds', True) \<and> endpoint_ok fds' s'"
proof -
  have id: "snd (parse_int64 ''1.5'') \<noteq> None"
    by (simp add: parse_int64_def parse_uint_def digit_value_def Let_def)
  then obtain e s' fds' where r: "Start (sample_start ''1.5'' ''sqp'') (fresh_server TypeAllocation ''f'') {} =
      Return (Some (EventWatcherError e), s', fds', True)"
    using sample_start_run [of "''1.5''" "''sqp''"] by auto
  have f: "queryBind (fresh_server TypeAllocation ''f'') = None"
      "0 \<le> queryReadBufferSizeBytes (fresh_server TypeAllocation ''f'')"
    by (simp_all add: fresh_server_def DefaultReadBufferSizeBytes_def)
  from start_failure [OF r f] r show ?thesis by auto
qed

text \<open>The configuration in force after a sequence of file events.\<close>

definition config_after :: "go_string \<Rightarrow> fs_event list \<Rightarrow> config \<Rightarrow> config" where
  "config_after path evs c = fold (\<lambda>ev c. case event_config path ev of None \<Rightarrow> c | Some c' \<Rightarrow> c') evs c"

lemma config_watch_panics:
  "(\<exists>p. config_watch ev s = Panic p) \<longleftrightarrow> ev = FsEvent (cfgFile s) True (FileValue JNull)"
proof (cases ev)
  case (FsEvent name written f)
  have "(\<exists>p. obind (newConfigFromFile f) (\<lambda>r. case r of
                   Inl e \<Rightarrow> Return (if e = DecodeEOF then s else PushError (ParseConfigError e) s)
                 | Inr c \<Rightarrow> Return (setConfig c s)) = Panic p) \<longleftrightarrow> (\<exists>p. newConfigFromFile f = Panic p)"
    by (cases "newConfigFromFile f") (auto split: sum.splits)
  then show ?thesis by (auto simp: FsEvent config_watch_def config_load_panics)
qed (simp add: config_watch_def)

lemma config_events_panics:
  "(\<exists>p. config_events evs s = Panic p) \<longleftrightarrow> FsEvent (cfgFile s) True (FileValue JNull) \<in> set evs"
proof (induction evs arbitrary: s)
  case (Cons ev evs)
  show ?case
  proof (cases "config_watch ev s")
    case (Return s1)
    have "cfgFile s1 = cfgFile s" by (subst config_watch_effect [OF Return]) simp
    with Cons [of s1] Return config_watch_panics [of ev s] show ?thesis by auto
  next
    case (Panic p)
    with config_watch_panics [of ev s] show ?thesis by auto
  qed
qed simp

text \<open>The loop is the run over its file events, and closes its ready channel at \<open>done\<close>.\<close>

lemma watch_loop_done:
  assumes "\<not> isClosed (internalEventProcessorReady s)"
  shows "watch_loop (map FileEvent evs @ DoneReceived # rest) s =
    obind (config_events evs s) (\<lambda>s'. Return (s'\<lparr>internalEventProcessorReady :=
      (internalEventProcessorReady s)\<lparr>isClosed := True\<rparr>\<rparr>, True))"
proof (cases "config_events evs s")
  case (Return s')
  with config_events_effect [OF Return] have "internalEventProcessorReady s' = internalEventProcessorReady s"
    by auto
  with Return assms show ?thesis by (simp add: watch_loop_events chan_close_def)
qed (simp add: watch_loop_events)

text \<open>C25. A run of the configuration watcher, for any sequence of file system events. It panics exactly on a
  rewritten configuration file with the document \<open>null\<close>. Otherwise the configuration in force is the last one
  that loaded, every load error but an empty file and every watch error is offered to the error channel in order,
  and nothing else of the server changes: protocol, endpoint and allocation stay as they were.\<close>

theorem config_events_outcome:
  "case config_events evs s of
     Panic p \<Rightarrow> FsEvent (cfgFile s) True (FileValue JNull) \<in> set evs
   | Return s' \<Rightarrow> FsEvent (cfgFile s) True (FileValue JNull) \<notin> set evs \<and>
       Config s' = config_after (cfgFile s) evs (Config s) \<and>
       chanError s' = fold chan_try_send (concat (map (event_report (cfgFile s)) evs)) (chanError s) \<and>
       (\<exists>c n e. s' = s\<lparr>currentConfig := c, chanConfigurationChanged := n, chanError := e\<rparr>)"
proof (cases "config_events evs s")
  case (Return s')
  with config_events_effect [OF Return] config_events_panics [of evs s] show ?thesis
    by (simp add: Config_def config_after_def)
next
  case (Panic p)
  with config_events_panics [of evs s] show ?thesis by auto
qed

lemma close_endpoint_ok:
  assumes "pred_option (binding_ok fds) (queryBind s)"
  obtains s' fds' where "close_endpoint s fds = Return (s', fds')" "s' = s\<lparr>queryBind := queryBind s'\<rparr>"
    "pred_option (\<lambda>b. IsDone b \<and> binding_ok fds' b) (queryBind s')"
    "fds' = fds - (case queryBind s of None \<Rightarrow> {} | Some b \<Rightarrow> set_option (conn b))"
proof (cases "queryBind s")
  case None
  then show ?thesis by (intro that [of s fds]) (simp_all add: close_endpoint_def)
next
  case (Some b)
  with assms obtain b' where "udp_Close b fds = Return (b', fds - set_option (conn b))" "IsDone b'"
      "binding_ok (fds - set_option (conn b)) b'"
    using udp_Close_ok [of fds b] by auto
  with Some show ?thesis
    by (intro that [of "s\<lparr>queryBind := Some b'\<rparr>" "fds - set_option (conn b)"]) (simp_all add: close_endpoint_def)
qed

text \<open>What \<open>Stop\<close> does from any state with a sound binding or none.\<close>

lemma Stop_cases:
  assumes "pred_option (binding_ok fds) (queryBind s)"
  obtains s1 fds1 where "pred_option (\<lambda>b. IsDone b \<and> binding_ok fds1 b) (queryBind s1)"
    "fds1 = fds - (case queryBind s of None \<Rightarrow> {} | Some b \<Rightarrow> set_option (conn b))"
    "s1 = s\<lparr>queryBind := queryBind s1\<rparr>"
    "Stop s fds =
       (if chanCap (chanDeallocated s) \<le> length (waitingVals (chanDeallocated s)) then Return (s1, fds1, StopBlocked)
        else if isClosed (srvDone s) then Panic CloseOfClosedChannel
        else Return (s1\<lparr>chanDeallocated := (chanDeallocated s)\<lparr>waitingVals := waitingVals (chanDeallocated s) @ [[]]\<rparr>,
               srvDone := (srvDone s)\<lparr>isClosed := True\<rparr>\<rparr>, fds1, StopWaits))"
proof -
  from assms obtain s1 fds1 where c: "close_endpoint s fds = Return (s1, fds1)" "s1 = s\<lparr>queryBind := queryBind s1\<rparr>"
    "pred_option (\<lambda>b. IsDone b \<and> binding_ok fds1 b) (queryBind s1)"
    "fds1 = fds - (case queryBind s of None \<Rightarrow> {} | Some b \<Rightarrow> set_option (conn b))"
    by (rule close_endpoint_ok)
  have f: "chanDeallocated s1 = chanDeallocated s" "srvDone s1 = srvDone s" by (subst c(2), simp)+
  show ?thesis
    by (rule that [OF c(3,4,2)]) (simp add: Stop_def c(1) f chan_send_def chan_close_def)
qed

definition drained :: "server \<Rightarrow> server" where
  "drained s = s\<lparr>chanDeallocated := (chanDeallocated s)\<lparr>waitingVals := []\<rparr>\<rparr>"

text \<open>C23. \<open>Stop\<close> with a sound endpoint: the socket is released in any case; it waits in its send when the game has
  not taken an earlier deallocation; otherwise an empty deallocation is queued and \<open>done\<close> is closed. A
  second \<open>Stop\<close> panics once the game has taken that message, because it closes \<open>done\<close> again.\<close>

theorem stop_outcome:
  assumes "pred_option (binding_ok fds) (queryBind s)" and "\<not> isClosed (srvDone s)"
    and "0 < chanCap (chanDeallocated s)"
  shows "\<exists>s' fds' p. Stop s fds = Return (s', fds', p) \<and>
    pred_option IsDone (queryBind s') \<and>
    fds' = fds - (case queryBind s of None \<Rightarrow> {} | Some b \<Rightarrow> set_option (conn b)) \<and>
    (p = StopBlocked \<longleftrightarrow> chanCap (chanDeallocated s) \<le> length (waitingVals (chanDeallocated s))) \<and>
    (p = StopWaits \<longrightarrow> waitingVals (chanDeallocated s') = waitingVals (chanDeallocated s) @ [[]] \<and>
       isClosed (srvDone s') \<and> Stop (drained s') fds' = Panic CloseOfClosedChannel)"
proof -
  from assms(1) obtain s1 fds1 where s1: "pred_option (\<lambda>b. IsDone b \<and> binding_ok fds1 b) (queryBind s1)"
    "fds1 = fds - (case queryBind s of None \<Rightarrow> {} | Some b \<Rightarrow> set_option (conn b))"
    and st: "Stop s fds =
       (if chanCap (chanDeallocated s) \<le> length (waitingVals (chanDeallocated s)) then Return (s1, fds1, StopBlocked)
        else if isClosed (srvDone s) then Panic CloseOfClosedChannel
        else Return (s1\<lparr>chanDeallocated := (chanDeallocated s)\<lparr>waitingVals := waitingVals (chanDeallocated s) @ [[]]\<rparr>,
               srvDone := (srvDone s)\<lparr>isClosed := True\<rparr>\<rparr>, fds1, StopWaits))"
    by (rule Stop_cases)
  have d: "pred_option IsDone (queryBind s1)" using s1(1) by (cases "queryBind s1") auto
  show ?thesis
  proof (cases "chanCap (chanDeallocated s) \<le> length (waitingVals (chanDeallocated s))")
    case True
    with d s1(2) st show ?thesis by (intro exI [of _ s1] exI [of _ fds1] exI [of _ StopBlocked]) simp
  next
    case False
    let ?s = "s1\<lparr>chanDeallocated := (chanDeallocated s)\<lparr>waitingVals := waitingVals (chanDeallocated s) @ [[]]\<rparr>,
               srvDone := (srvDone s)\<lparr>isClosed := True\<rparr>\<rparr>"
    have "pred_option (binding_ok fds1) (queryBind (drained ?s))"
      using s1(1) by (cases "queryBind s1") (auto simp: drained_def)
    then obtain s2 fds2 where "Stop (drained ?s) fds1 = (if chanCap (chanDeallocated (drained ?s))
          \<le> length (waitingVals (chanDeallocated (drained ?s))) then Return (s2, fds2, StopBlocked)
        else if isClosed (srvDone (drained ?s)) then Panic CloseOfClosedChannel
        else Return (s2\<lparr>chanDeallocated := (chanDeallocated (drained ?s))
               \<lparr>waitingVals := waitingVals (chanDeallocated (drained ?s)) @ [[]]\<rparr>,
               srvDone := (srvDone (drained ?s))\<lparr>isClosed := True\<rparr>\<rparr>, fds2, StopWaits))"
      by (rule Stop_cases)
    then have "Stop (drained ?s) fds1 = Panic CloseOfClosedChannel" using assms(3) by (simp add: drained_def)
    with False d s1(2) st assms(2) show ?thesis
      by (intro exI [of _ ?s] exI [of _ fds1] exI [of _ StopWaits]) simp
  qed
qed

theorem stop_outcome_witness:
  "\<exists>s' p. Stop sample_server {5} = Return (s', {}, p) \<and> pred_option IsDone (queryBind s')"
proof -
  have "pred_option (binding_ok {5}) (queryBind sample_server)" using sample_endpoint_ok by (auto simp: endpoint_ok_def)
  moreover have "\<not> isClosed (srvDone sample_server)" "0 < chanCap (chanDeallocated sample_server)"
    "(case queryBind sample_server of None \<Rightarrow> {} | Some b \<Rightarrow> set_option (conn b)) = {5}"
    by (simp_all add: sample_server_def fresh_server_def make_chan_def sample_bind_def)
  ultimately show ?thesis using stop_outcome [of "{5}" sample_server] by auto
qed

text \<open>\<open>WaitUntilTerminated\<close> stops the server once, at the first interrupt or termination signal, whatever other signals come
  before or after it; later ones stay in the channel and no longer end the process.\<close>

lemma signal_received:
  "chan_recv (signal_notify [SigInterrupt, SigTerm] sigs (make_chan 2)) = None \<longleftrightarrow>
     SigInterrupt \<notin> set sigs \<and> SigTerm \<notin> set sigs"
proof -
  have "waitingVals (signal_notify [SigInterrupt, SigTerm] sigs (make_chan 2)) = [] \<longleftrightarrow>
      SigInterrupt \<notin> set sigs \<and> SigTerm \<notin> set sigs"
    by (auto simp: signal_notify_vals filter_empty_conv)
  then show ?thesis by (auto simp: chan_recv_def split: list.split)
qed

theorem wait_until_terminated:
  "WaitUntilTerminated sigs s fds =
     (if SigInterrupt \<in> set sigs \<or> SigTerm \<in> set sigs then Some (Stop s fds) else None)"
  using signal_received [of sigs] by (auto simp: WaitUntilTerminated_def split: option.splits)

end
