(* ===== verification/Matchmaker.thy ===== *)
theory Matchmaker
  imports Gsh_Lifecycle
begin

text \<open>
  The package \<open>matchmaker/server\<close>: a game server that also keeps a backfill ticket alive
  (\<open>server.go\<close>, \<open>backfill.go\<close>, \<open>backfill_internal.go\<close>).

  As for the local proxy, the network is a parameter, and an operation comes with the trace of
  its effects: the requests sent and the closing of response bodies. \<open>json.Unmarshal\<close> scans the
  whole text it is given; that scan is the parameter \<open>scan\<close>. \<open>httpClient.Do\<close> returns a response or an
  error, so the check for a nil response never fires.
\<close>

section \<open>Data\<close>

record BackfillTicket =
  TicketID :: go_string
  Connection :: go_string
  Attributes :: "(go_string \<times> go_string) list"

definition ticket_spec :: json_struct where
  "ticket_spec = [(''id'', JK_string), (''connection'', JK_string), (''attributes'', JK_float_map)]"

definition to_ticket :: "json_val list \<Rightarrow> BackfillTicket" where
  "to_ticket vs = \<lparr>TicketID = jv_string (vs ! 0), Connection = jv_string (vs ! 1), Attributes = jv_float_map (vs ! 2)\<rparr>"

record tokenResponse =
  Token :: go_string
  TokenError :: go_string

definition token_spec :: json_struct where
  "token_spec = [(''token'', JK_string), (''error'', JK_string)]"

definition to_token :: "json_val list \<Rightarrow> tokenResponse" where
  "to_token vs = \<lparr>Token = jv_string (vs ! 0), TokenError = jv_string (vs ! 1)\<rparr>"

text \<open>A missing member of \<open>Extra\<close> reads as the empty string.\<close>

definition extra :: "config \<Rightarrow> go_string \<Rightarrow> go_string" where
  "extra c k = (case Extra c k of None \<Rightarrow> [] | Some v \<Rightarrow> v)"

definition backfillEnabled :: "config \<Rightarrow> bool" where
  "backfillEnabled c = fst (ParseBool (extra c ''enableBackfill''))"

definition matchmakerURL :: "config \<Rightarrow> go_string" where
  "matchmakerURL c =
     (let u = extra c ''matchmakerUrl''
      in if u = [] then ''https://matchmaker.services.api.unity.com'' else u)"

section \<open>The token\<close>

definition token_request :: "config \<Rightarrow> http_request" where
  "token_request c = \<lparr>reqMethod = ''GET'', reqURL = LocalProxyURL c @ ''/token'', reqHeaders = [], reqBody = None\<rparr>"

text \<open>The variable is a struct, so the document \<open>null\<close> leaves it zero.\<close>

definition decode_token :: "json_lib \<Rightarrow> go_string + json \<Rightarrow> backfill_error + go_string" where
  "decode_token lib doc =
     (case doc of
        Inl e \<Rightarrow> Inl (TokenJson (JsonSyntax e))
      | Inr v \<Rightarrow>
          (case decode_struct lib token_spec v of
             Inl e \<Rightarrow> Inl (TokenJson e)
           | Inr vals \<Rightarrow>
               (let tr = (case vals of None \<Rightarrow> \<lparr>Token = [], TokenError = []\<rparr> | Some vs \<Rightarrow> to_token vs)
                in if TokenError tr \<noteq> [] then Inl ErrTokenFetch else Inr (Token tr))))"

definition getJwtToken ::
  "json_lib \<Rightarrow> (go_string \<Rightarrow> go_string + json) \<Rightarrow> config \<Rightarrow> http_env \<Rightarrow>
   http_effect list \<times> (backfill_error + go_string)" where
  "getJwtToken lib scan c env =
     (case newRequestErr env of
        Some e \<Rightarrow> ([], Inl (HttpError e))
      | None \<Rightarrow>
          (case doRequest env (token_request c) of
             Inl e \<Rightarrow> ([Sent (token_request c)], Inl (HttpError e))
           | Inr resp \<Rightarrow>
               ([Sent (token_request c), BodyClosed],
                if statusCode resp \<noteq> 200 then Inl ErrTokenFetch
                else case bodyBytes resp of
                       Inl e \<Rightarrow> Inl (ReadBody e)
                     | Inr bs \<Rightarrow> decode_token lib (scan bs))))"

section \<open>The approval\<close>

definition approval_request :: "config \<Rightarrow> go_string \<Rightarrow> http_request" where
  "approval_request c token =
     \<lparr>reqMethod = ''POST'', reqURL = matchmakerURL c @ ''/v2/backfill/'' @ AllocatedUUID c @ ''/approvals'',
      reqHeaders = [(''Content-Type'', ''application/json''), (''Authorization'', ''Bearer '' @ token)],
      reqBody = None\<rparr>"

text \<open>The closing of the body is deferred only after the status has been found to be 200.\<close>

definition approveBackfillTicket ::
  "json_lib \<Rightarrow> config \<Rightarrow> go_string \<Rightarrow> http_env \<Rightarrow>
   http_effect list \<times> (backfill_error + BackfillTicket option)" where
  "approveBackfillTicket lib c token env =
     (if AllocatedUUID c = [] then ([], Inl ErrBackfillNotAllocated)
      else case newRequestErr env of
        Some e \<Rightarrow> ([], Inl (HttpError e))
      | None \<Rightarrow>
          (case doRequest env (approval_request c token) of
             Inl e \<Rightarrow> ([Sent (approval_request c token)], Inl (ErrMakingRequest e))
           | Inr resp \<Rightarrow>
               if statusCode resp = 429 then ([Sent (approval_request c token)], Inl ErrRetry)
               else if statusCode resp \<noteq> 200 then ([Sent (approval_request c token)], Inl ErrBackfillApprove)
               else
                 ([Sent (approval_request c token), BodyClosed],
                  case bodyJson resp of
                    Inl e \<Rightarrow> Inl (DecodingTicket (JsonSyntax e))
                  | Inr v \<Rightarrow>
                      (case decode_struct lib ticket_spec v of
                         Inl e \<Rightarrow> Inl (DecodingTicket e)
                       | Inr vals \<Rightarrow> Inr (map_option to_ticket vals)))))"

text \<open>
  The attempt: the configuration that \<open>Config()\<close> gives at that moment, the token, the wrapped
  function.
\<close>

record attempt =
  attemptConfig :: config
  tokenNet :: http_env
  approveNet :: http_env

definition wrapWithConfigAndJWT ::
  "json_lib \<Rightarrow> (go_string \<Rightarrow> go_string + json) \<Rightarrow>
   (config \<Rightarrow> go_string \<Rightarrow> http_effect list \<times> (backfill_error + 'a)) \<Rightarrow> config \<Rightarrow> http_env \<Rightarrow>
   http_effect list \<times> (backfill_error + 'a)" where
  "wrapWithConfigAndJWT lib scan f c env =
     (case getJwtToken lib scan c env of
        (effs, Inl e) \<Rightarrow> (effs, Inl e)
      | (effs, Inr token) \<Rightarrow> (case f c token of (effs', r) \<Rightarrow> (effs @ effs', r)))"

definition run_attempt ::
  "json_lib \<Rightarrow> (go_string \<Rightarrow> go_string + json) \<Rightarrow> attempt \<Rightarrow>
   http_effect list \<times> (backfill_error + BackfillTicket option)" where
  "run_attempt lib scan a =
     wrapWithConfigAndJWT lib scan (\<lambda>c token. approveBackfillTicket lib c token (approveNet a))
       (attemptConfig a) (tokenNet a)"

section \<open>The keep-alive loop\<close>

text \<open>One tick: the second attempt is made only after the error \<open>errRetry\<close>.\<close>

definition backfill_tick ::
  "json_lib \<Rightarrow> (go_string \<Rightarrow> go_string + json) \<Rightarrow> attempt \<Rightarrow> attempt \<Rightarrow>
   http_effect list \<times> backfill_error option" where
  "backfill_tick lib scan a1 a2 =
     (case run_attempt lib scan a1 of
        (effs, Inr t) \<Rightarrow> (effs, None)
      | (effs, Inl e) \<Rightarrow>
          if e = ErrRetry then
            (case run_attempt lib scan a2 of
               (effs', Inr t) \<Rightarrow> (effs @ effs', None)
             | (effs', Inl e') \<Rightarrow> (effs @ effs', Some e'))
          else (effs, Some e))"

text \<open>
  The goroutine, and a game that now and then takes an error from the channel. It ends at the
  first \<open>done\<close>.
\<close>

datatype keep_event = Tick attempt attempt | TakeError | SeenDone

fun keepAliveBackfill ::
  "json_lib \<Rightarrow> (go_string \<Rightarrow> go_string + json) \<Rightarrow> keep_event list \<Rightarrow> server \<Rightarrow>
   http_effect list \<times> server \<times> bool" where
  "keepAliveBackfill lib scan [] s = ([], s, False)"
| "keepAliveBackfill lib scan (Tick a1 a2 # evs) s =
     (case backfill_tick lib scan a1 a2 of
        (effs, err) \<Rightarrow>
          (case keepAliveBackfill lib scan evs
                  (case err of None \<Rightarrow> s | Some e \<Rightarrow> PushError (ApprovingBackfill e) s) of
             (effs', s', ended) \<Rightarrow> (effs @ effs', s', ended)))"
| "keepAliveBackfill lib scan (TakeError # evs) s =
     keepAliveBackfill lib scan evs
       (case chan_recv (OnError s) of None \<Rightarrow> s | Some (e, c) \<Rightarrow> s\<lparr>chanError := c\<rparr>)"
| "keepAliveBackfill lib scan (SeenDone # evs) s = ([], s, True)"

section \<open>The server\<close>

record mm_server =
  baseServer :: server
  mmDone :: "unit chan"

definition New_matchmaker ::
  "go_string + go_string \<Rightarrow> (go_string \<Rightarrow> go_string \<Rightarrow> go_string) \<Rightarrow> server_type \<Rightarrow>
   server_option list \<Rightarrow> gsh_error + mm_server" where
  "New_matchmaker home join t opts =
     (case New home join t opts of
        Inl e \<Rightarrow> Inl e
      | Inr s \<Rightarrow> Inr \<lparr>baseServer = s, mmDone = make_chan 1\<rparr>)"

text \<open>The last component: the keep-alive goroutine was started.\<close>

definition mm_Start ::
  "start_env \<Rightarrow> mm_server \<Rightarrow> fd set \<Rightarrow> (gsh_error option \<times> mm_server \<times> fd set \<times> bool) outcome" where
  "mm_Start env m fds =
     obind (Start env (baseServer m) fds) (\<lambda>(err, s, fds, started).
       case err of
         Some e \<Rightarrow> Return (Some e, m\<lparr>baseServer := s\<rparr>, fds, False)
       | None \<Rightarrow> Return (None, m\<lparr>baseServer := s\<rparr>, fds, backfillEnabled (Config s)))"

text \<open>\<open>Stop\<close>, when the keep-alive goroutine has ended, up to the wait of the game server.\<close>

definition mm_Stop :: "mm_server \<Rightarrow> fd set \<Rightarrow> (mm_server \<times> fd set \<times> stop_point) outcome" where
  "mm_Stop m fds =
     obind (chan_close (mmDone m)) (\<lambda>d.
     obind (Stop (baseServer m) fds) (\<lambda>(s, fds, p).
       Return (m\<lparr>mmDone := d, baseServer := s\<rparr>, fds, p)))"

definition mm_WaitUntilTerminated ::
  "os_signal list \<Rightarrow> mm_server \<Rightarrow> fd set \<Rightarrow> (mm_server \<times> fd set \<times> stop_point) outcome option" where
  "mm_WaitUntilTerminated sigs m fds =
     (case chan_recv (signal_notify [SigInterrupt, SigTerm] sigs (make_chan 2)) of
        None \<Rightarrow> None
      | Some (sig, c) \<Rightarrow> Some (mm_Stop m fds))"

section \<open>The token request keeps the contract of an HTTP operation\<close>

interpretation jwt: http_endpoint "\<lambda>env. getJwtToken lib scan c env" "\<lambda>env. token_request c" 200
  by unfold_locales (simp_all add: getJwtToken_def)

section \<open>An attempt in terms of the answers of the network\<close>

definition token_of :: "json_lib \<Rightarrow> (go_string \<Rightarrow> go_string + json) \<Rightarrow> attempt \<Rightarrow> go_string option" where
  "token_of lib scan a =
     (case (newRequestErr (tokenNet a), doRequest (tokenNet a) (token_request (attemptConfig a))) of
        (None, Inr resp) \<Rightarrow>
          (case (statusCode resp = 200, bodyBytes resp) of
             (True, Inr bs) \<Rightarrow> (case decode_token lib (scan bs) of Inr token \<Rightarrow> Some token | Inl e \<Rightarrow> None)
           | _ \<Rightarrow> None)
      | _ \<Rightarrow> None)"

definition approval_answer :: "attempt \<Rightarrow> go_string \<Rightarrow> http_response option" where
  "approval_answer a token =
     (case (newRequestErr (approveNet a), doRequest (approveNet a) (approval_request (attemptConfig a) token)) of
        (None, Inr resp) \<Rightarrow> if AllocatedUUID (attemptConfig a) = [] then None else Some resp
      | _ \<Rightarrow> None)"

text \<open>The response to the approval that an attempt sends with its token.\<close>

definition attempt_answer :: "json_lib \<Rightarrow> (go_string \<Rightarrow> go_string + json) \<Rightarrow> attempt \<Rightarrow> http_response option" where
  "attempt_answer lib scan a =
     (case token_of lib scan a of None \<Rightarrow> None | Some token \<Rightarrow> approval_answer a token)"

definition ticket_readable :: "json_lib \<Rightarrow> http_response \<Rightarrow> bool" where
  "ticket_readable lib resp \<longleftrightarrow>
     (case bodyJson resp of Inl e \<Rightarrow> False | Inr v \<Rightarrow> \<not> isl (decode_struct lib ticket_spec v))"

definition approved :: "json_lib \<Rightarrow> (go_string \<Rightarrow> go_string + json) \<Rightarrow> attempt \<Rightarrow> bool" where
  "approved lib scan a \<longleftrightarrow>
     (case attempt_answer lib scan a of None \<Rightarrow> False | Some r \<Rightarrow> statusCode r = 200 \<and> ticket_readable lib r)"

definition throttled :: "json_lib \<Rightarrow> (go_string \<Rightarrow> go_string + json) \<Rightarrow> attempt \<Rightarrow> bool" where
  "throttled lib scan a \<longleftrightarrow>
     (case attempt_answer lib scan a of None \<Rightarrow> False | Some r \<Rightarrow> statusCode r = 429)"

primrec is_approval :: "http_effect \<Rightarrow> bool" where
  "is_approval (Sent req) \<longleftrightarrow> reqMethod req = ''POST''"
| "is_approval BodyClosed \<longleftrightarrow> False"

definition approvals :: "http_effect list \<Rightarrow> nat" where
  "approvals effs = length (filter is_approval effs)"

lemma approvals_simps [simp]:
  "approvals [] = 0" "approvals (e # es) = (if is_approval e then 1 else 0) + approvals es"
  "approvals (es @ fs) = approvals es + approvals fs"
  by (simp_all add: approvals_def)

lemma token_of_result:
  "token_of lib scan a = (case snd (getJwtToken lib scan (attemptConfig a) (tokenNet a)) of Inl e \<Rightarrow> None | Inr t \<Rightarrow> Some t)"
  by (simp add: token_of_def getJwtToken_def split: option.split sum.split)

lemma token_effects:
  "fst (getJwtToken lib scan c env) \<in> {[], [Sent (token_request c)], [Sent (token_request c), BodyClosed]}"
  using jwt.at_most_one_request [of lib scan c env] by auto

lemma token_approvals [simp]: "approvals (fst (getJwtToken lib scan c env)) = 0"
  using token_effects [of lib scan c env] by (auto simp: token_request_def)

lemma decode_token_no_retry: "decode_token lib d \<noteq> Inl ErrRetry"
  by (auto simp: decode_token_def Let_def split: sum.splits)

lemma token_no_retry: "snd (getJwtToken lib scan c env) \<noteq> Inl ErrRetry"
  using decode_token_no_retry by (auto simp: getJwtToken_def split: option.splits sum.splits)

lemma run_attempt_unfold:
  "run_attempt lib scan a =
     (let effs = fst (getJwtToken lib scan (attemptConfig a) (tokenNet a)) in
      case snd (getJwtToken lib scan (attemptConfig a) (tokenNet a)) of
        Inl e \<Rightarrow> (effs, Inl e)
      | Inr token \<Rightarrow> (effs @ fst (approveBackfillTicket lib (attemptConfig a) token (approveNet a)),
                      snd (approveBackfillTicket lib (attemptConfig a) token (approveNet a))))"
  by (simp add: run_attempt_def wrapWithConfigAndJWT_def Let_def split: prod.split sum.split)

lemma approve_approved:
  "(\<exists>t. snd (approveBackfillTicket lib (attemptConfig a) token (approveNet a)) = Inr t) \<longleftrightarrow>
     (\<exists>r. approval_answer a token = Some r \<and> statusCode r = 200 \<and> ticket_readable lib r)"
  by (auto simp: approveBackfillTicket_def approval_answer_def ticket_readable_def
      split: option.splits sum.splits if_splits)

lemma approve_throttled:
  "snd (approveBackfillTicket lib (attemptConfig a) token (approveNet a)) = Inl ErrRetry \<longleftrightarrow>
     (\<exists>r. approval_answer a token = Some r \<and> statusCode r = 429)"
  by (auto simp: approveBackfillTicket_def approval_answer_def split: option.splits sum.splits if_splits)

lemma approve_approvals: "approvals (fst (approveBackfillTicket lib c token env)) \<le> 1"
  by (simp add: approveBackfillTicket_def approval_request_def split: option.split sum.split)

lemma attempt_approved: "(\<exists>t. snd (run_attempt lib scan a) = Inr t) \<longleftrightarrow> approved lib scan a"
  using approve_approved [of lib a]
  by (cases "snd (getJwtToken lib scan (attemptConfig a) (tokenNet a))")
    (auto simp: run_attempt_unfold approved_def attempt_answer_def token_of_result split: option.splits)

lemma attempt_throttled: "snd (run_attempt lib scan a) = Inl ErrRetry \<longleftrightarrow> throttled lib scan a"
  using approve_throttled [of lib a] token_no_retry [of lib scan "attemptConfig a" "tokenNet a"]
  by (cases "snd (getJwtToken lib scan (attemptConfig a) (tokenNet a))")
    (auto simp: run_attempt_unfold throttled_def attempt_answer_def token_of_result split: option.splits)

lemma attempt_approvals: "approvals (fst (run_attempt lib scan a)) \<le> 1"
  by (simp add: run_attempt_unfold Let_def approve_approvals [simplified] split: sum.split)

text \<open>An attempt that succeeds has made its two exchanges in full.\<close>

lemma approve_success:
  assumes "approveBackfillTicket lib c token env = (effs, Inr t)"
  shows "AllocatedUUID c \<noteq> [] \<and> effs = [Sent (approval_request c token), BodyClosed]"
  using assms
  by (auto simp: approveBackfillTicket_def split: option.splits sum.splits if_splits)

lemma attempt_success:
  assumes "run_attempt lib scan a = (effs, Inr t)"
  shows "\<exists>token. token_of lib scan a = Some token \<and> AllocatedUUID (attemptConfig a) \<noteq> [] \<and>
    effs = [Sent (token_request (attemptConfig a)), BodyClosed,
            Sent (approval_request (attemptConfig a) token), BodyClosed]"
proof -
  let ?j = "getJwtToken lib scan (attemptConfig a) (tokenNet a)"
  obtain token where j: "snd ?j = Inr token"
    using assms by (cases "snd ?j") (auto simp: run_attempt_unfold)
  then have jf: "fst ?j = [Sent (token_request (attemptConfig a)), BodyClosed]"
    using jwt.success [of lib scan "attemptConfig a" "tokenNet a" "fst ?j" token] by (metis prod.collapse)
  have "approveBackfillTicket lib (attemptConfig a) token (approveNet a) = (drop 2 effs, Inr t)"
    "effs = fst ?j @ drop 2 effs"
    using assms jf by (auto simp: run_attempt_unfold j prod_eq_iff)
  with approve_success [OF this(1)] jf j show ?thesis
    by (auto simp: token_of_result)
qed

text \<open>The responses an attempt gets, and those whose body it leaves open.\<close>

definition responses :: "json_lib \<Rightarrow> (go_string \<Rightarrow> go_string + json) \<Rightarrow> attempt \<Rightarrow> nat" where
  "responses lib scan a =
     (if newRequestErr (tokenNet a) = None \<and> \<not> isl (doRequest (tokenNet a) (token_request (attemptConfig a))) then 1 else 0) +
     (if attempt_answer lib scan a \<noteq> None then 1 else 0)"

definition left_open :: "json_lib \<Rightarrow> (go_string \<Rightarrow> go_string + json) \<Rightarrow> attempt \<Rightarrow> nat" where
  "left_open lib scan a =
     (if \<exists>r. attempt_answer lib scan a = Some r \<and> statusCode r \<noteq> 200 then 1 else 0)"

lemma approve_closed:
  "count_list (fst (approveBackfillTicket lib (attemptConfig a) token (approveNet a))) BodyClosed =
     (if \<exists>r. approval_answer a token = Some r \<and> statusCode r = 200 then 1 else 0)"
  by (auto simp: approveBackfillTicket_def approval_answer_def split: option.splits sum.splits if_splits)

lemma token_closed:
  "count_list (fst (getJwtToken lib scan c env)) BodyClosed =
     (if newRequestErr env = None \<and> \<not> isl (doRequest env (token_request c)) then 1 else 0)"
  by (rule jwt.body_closed)

lemma count_list_append: "count_list (xs @ ys) x = count_list xs x + count_list ys x"
  by (induction xs) auto

lemma attempt_closed:
  "count_list (fst (run_attempt lib scan a)) BodyClosed + left_open lib scan a = responses lib scan a"
proof (cases "token_of lib scan a")
  case None
  then have "run_attempt lib scan a = (fst (getJwtToken lib scan (attemptConfig a) (tokenNet a)),
      Inl (projl (snd (getJwtToken lib scan (attemptConfig a) (tokenNet a)))))"
    by (auto simp: token_of_result run_attempt_unfold split: sum.splits)
  with None show ?thesis by (simp add: left_open_def responses_def attempt_answer_def token_closed)
next
  case (Some token)
  then have "snd (getJwtToken lib scan (attemptConfig a) (tokenNet a)) = Inr token"
    by (auto simp: token_of_result split: sum.splits)
  then have "fst (run_attempt lib scan a) = fst (getJwtToken lib scan (attemptConfig a) (tokenNet a)) @
      fst (approveBackfillTicket lib (attemptConfig a) token (approveNet a))"
    by (simp add: run_attempt_unfold)
  with Some show ?thesis
    by (cases "approval_answer a token")
      (auto simp: left_open_def responses_def attempt_answer_def token_closed approve_closed count_list_append)
qed

section \<open>A tick and the loop\<close>

lemma tick_cases:
  "backfill_tick lib scan a1 a2 =
     (let r1 = run_attempt lib scan a1; r2 = run_attempt lib scan a2
      in if throttled lib scan a1 then (fst r1 @ fst r2, error_of (snd r2)) else (fst r1, error_of (snd r1)))"
  using attempt_throttled [of lib scan a1]
  by (cases "run_attempt lib scan a1"; cases "run_attempt lib scan a2")
    (auto simp: backfill_tick_def Let_def error_of_def split: sum.split)

lemma tick_approvals: "approvals (fst (backfill_tick lib scan a1 a2)) \<le> 2"
  using attempt_approvals [of lib scan a1] attempt_approvals [of lib scan a2]
  by (simp add: tick_cases Let_def)

lemma error_of_attempt:
  "error_of (snd (run_attempt lib scan a)) = None \<longleftrightarrow> approved lib scan a"
  "error_of (snd (run_attempt lib scan a)) = Some ErrRetry \<longleftrightarrow> throttled lib scan a"
  using attempt_approved [of lib scan a] attempt_throttled [of lib scan a]
  by (cases "snd (run_attempt lib scan a)"; auto)+

fun ticks :: "keep_event list \<Rightarrow> nat" where
  "ticks [] = 0"
| "ticks (Tick a1 a2 # evs) = Suc (ticks evs)"
| "ticks (TakeError # evs) = ticks evs"
| "ticks (SeenDone # evs) = 0"

lemma keep_alive_approvals: "approvals (fst (keepAliveBackfill lib scan evs s)) \<le> 2 * ticks evs"
proof (induction evs arbitrary: s)
  case (Cons ev evs)
  show ?case
  proof (cases ev)
    case (Tick a1 a2)
    obtain effs err where t: "backfill_tick lib scan a1 a2 = (effs, err)" by fastforce
    obtain effs' s' ended where k: "keepAliveBackfill lib scan evs
        (case err of None \<Rightarrow> s | Some e \<Rightarrow> PushError (ApprovingBackfill e) s) = (effs', s', ended)"
      by (rule prod_cases3)
    have "approvals effs \<le> 2" using tick_approvals [of lib scan a1 a2] by (simp add: t)
    moreover have "approvals effs' \<le> 2 * ticks evs"
      using Cons [of "case err of None \<Rightarrow> s | Some e \<Rightarrow> PushError (ApprovingBackfill e) s"] by (simp add: k)
    ultimately show ?thesis by (simp add: Tick t k)
  qed (use Cons in simp_all)
qed simp

lemma keep_alive_done: "keepAliveBackfill lib scan (evs @ SeenDone # evs') s = keepAliveBackfill lib scan (evs @ [SeenDone]) s"
proof (induction evs arbitrary: s)
  case (Cons ev evs)
  then show ?case by (cases ev) simp_all
qed simp

lemma chanError_same: "\<exists>c. s = s\<lparr>chanError := c\<rparr>"
  by (rule exI [of _ "chanError s"]) simp

lemma keep_alive_frame: "\<exists>c. fst (snd (keepAliveBackfill lib scan evs s)) = s\<lparr>chanError := c\<rparr>"
proof (induction evs arbitrary: s)
  case (Cons ev evs)
  show ?case
  proof (cases ev)
    case (Tick a1 a2)
    obtain effs err where t: "backfill_tick lib scan a1 a2 = (effs, err)" by fastforce
    define s1 where "s1 = (case err of None \<Rightarrow> s | Some e \<Rightarrow> PushError (ApprovingBackfill e) s)"
    have "\<exists>c. s1 = s\<lparr>chanError := c\<rparr>"
      by (cases err) (auto simp: s1_def PushError_def chanError_same)
    with Cons [of s1] show ?thesis
      by (auto simp: Tick t s1_def [symmetric] split: prod.split)
  next
    case TakeError
    define s1 where "s1 = (case chan_recv (chanError s) of None \<Rightarrow> s | Some (e, c) \<Rightarrow> s\<lparr>chanError := c\<rparr>)"
    have "\<exists>c. s1 = s\<lparr>chanError := c\<rparr>"
      by (auto simp: s1_def chanError_same split: option.split)
    with Cons [of s1] show ?thesis by (auto simp: TakeError s1_def [symmetric])
  next
    case SeenDone
    then show ?thesis by (simp add: chanError_same)
  qed
qed (simp add: chanError_same)

lemma keep_alive_ended: "snd (snd (keepAliveBackfill lib scan (evs @ [SeenDone]) s))"
proof (induction evs arbitrary: s)
  case (Cons ev evs)
  then show ?case by (cases ev) (simp_all split: prod.split, metis prod.collapse snd_conv)
qed simp

lemma ticks_done: "ticks (evs @ SeenDone # evs') = ticks evs"
  by (induction evs rule: ticks.induct) simp_all

section \<open>Sample attempts\<close>

definition sample_scan :: "go_string \<Rightarrow> go_string + json" where
  "sample_scan text = Inr (JObject [(''token'', JString text)])"

definition answer :: "int \<Rightarrow> http_env" where
  "answer status = \<lparr>newRequestErr = None, newUUID = None,
     doRequest = \<lambda>req. Inr \<lparr>statusCode = status, bodyBytes = Inr ''jwt'', bodyJson = Inr (JObject [(''id'', JString ''t'')])\<rparr>\<rparr>"

definition sample_attempt :: "int \<Rightarrow> attempt" where
  "sample_attempt status = \<lparr>attemptConfig = zero_config\<lparr>AllocatedUUID := ''a''\<rparr>, tokenNet = answer 200,
     approveNet = answer status\<rparr>"

lemma sample_attempt_run:
  "run_attempt sample_json_lib sample_scan (sample_attempt 200) =
     ([Sent (token_request (zero_config\<lparr>AllocatedUUID := ''a''\<rparr>)), BodyClosed,
       Sent (approval_request (zero_config\<lparr>AllocatedUUID := ''a''\<rparr>) ''jwt''), BodyClosed],
      Inr (Some \<lparr>TicketID = ''t'', Connection = [], Attributes = []\<rparr>))"
  by (simp add: run_attempt_def wrapWithConfigAndJWT_def getJwtToken_def sample_attempt_def answer_def
      sample_scan_def decode_token_def decode_struct_def token_spec_def to_token_def select_field_def
      store_json_def approveBackfillTicket_def ticket_spec_def to_ticket_def Let_def)

section \<open>Properties of the backfill\<close>

text \<open>C31. The outcome of a tick in terms of the network, for every configuration and every answer: it reports
  nothing exactly when the ticket was approved at once, or approved at the second attempt after a 429; it
  reports the retry error exactly after two 429; a second approval is sent only after a 429.\<close>

theorem backfill_tick_outcome:
  "(snd (backfill_tick lib scan a1 a2) = None \<longleftrightarrow>
      approved lib scan a1 \<or> throttled lib scan a1 \<and> approved lib scan a2) \<and>
   (snd (backfill_tick lib scan a1 a2) = Some ErrRetry \<longleftrightarrow>
      throttled lib scan a1 \<and> throttled lib scan a2) \<and>
   approvals (fst (backfill_tick lib scan a1 a2)) \<le> (if throttled lib scan a1 then 2 else 1)"
proof -
  have "\<not> (approved lib scan a1 \<and> throttled lib scan a1)"
    by (auto simp: approved_def throttled_def split: option.splits)
  then show ?thesis
    using tick_approvals [of lib scan a1 a2] attempt_approvals [of lib scan a1]
    by (auto simp: tick_cases Let_def error_of_attempt simp del: error_of_simps)
qed

text \<open>A ticket comes out of an attempt only after both exchanges: the token was fetched, the server had an
  allocation, the approval of that allocation was sent with that token, and both bodies were closed.\<close>

theorem backfill_attempt_success:
  assumes "run_attempt lib scan a = (effs, Inr t)"
  shows "\<exists>token. token_of lib scan a = Some token \<and> AllocatedUUID (attemptConfig a) \<noteq> [] \<and>
    effs = [Sent (token_request (attemptConfig a)), BodyClosed,
            Sent (approval_request (attemptConfig a) token), BodyClosed]"
  using assms by (rule attempt_success)

theorem backfill_attempt_success_witness:
  "\<exists>token. token_of sample_json_lib sample_scan (sample_attempt 200) = Some token"
  using backfill_attempt_success [OF sample_attempt_run] by blast

text \<open>The response bodies of an attempt: all are closed but that of an approval that was not answered with
  200, whose body is left to the cancelled context.\<close>

theorem backfill_bodies_closed:
  "count_list (fst (run_attempt lib scan a)) BodyClosed + left_open lib scan a = responses lib scan a"
  by (rule attempt_closed)

text \<open>The loop ends at \<open>done\<close>: whatever would come after it is not done, at most two approvals were sent per
  tick before it, and the server is unchanged but for its error channel.\<close>

theorem keep_alive_ends_at_done:
  "keepAliveBackfill lib scan (evs @ SeenDone # evs') s = keepAliveBackfill lib scan (evs @ [SeenDone]) s \<and>
   snd (snd (keepAliveBackfill lib scan (evs @ SeenDone # evs') s)) \<and>
   approvals (fst (keepAliveBackfill lib scan (evs @ SeenDone # evs') s)) \<le> 2 * ticks evs \<and>
   (\<exists>c. fst (snd (keepAliveBackfill lib scan (evs @ SeenDone # evs') s)) = s\<lparr>chanError := c\<rparr>)"
  using keep_alive_done [of lib scan evs evs' s] keep_alive_ended [of lib scan evs s]
    keep_alive_approvals [of lib scan "evs @ SeenDone # evs'" s] ticks_done [of evs evs']
    keep_alive_frame [of lib scan "evs @ SeenDone # evs'" s]
  by simp

text \<open>Whether \<open>Start\<close> of the matchmaker server starts the keep-alive loop, from the configuration file: exactly
  when its last member \<open>enableBackfill\<close> is one of the spellings of true, case included.\<close>

theorem start_backfill_iff:
  assumes "mm_Start env m fds = Return (None, m', fds', backfill)" and "startFile env = FileValue (JObject ms)"
    and "queryBind (baseServer m) = None" and "0 \<le> queryReadBufferSizeBytes (baseServer m)"
  shows "backfill \<longleftrightarrow> (\<exists>v. extra_value ms ''enableBackfill'' = Some v \<and>
    v \<in> {''1'', ''t'', ''T'', ''true'', ''TRUE'', ''True''})"
proof -
  obtain s started where st: "Start env (baseServer m) fds = Return (None, s, fds', started)"
    "backfill = backfillEnabled (Config s)"
    using assms(1) by (auto simp: mm_Start_def obind_eq_Return split: option.splits)
  from start_config [OF st(1) assms(3,4)] have load: "newConfigFromFile (startFile env) = Return (Inr (Config s))" .
  then have "list_all member_ok ms"
    using newConfigFromFile_fails [of ms] assms(2) by fastforce
  from newConfigFromFile_object [OF this] load assms(2) have "Extra (Config s) = extra_value ms" by auto
  with st(2) show ?thesis
    by (cases "extra_value ms ''enableBackfill''") (auto simp: backfillEnabled_def extra_def ParseBool_def)
qed

theorem start_backfill_iff_witness:
  "\<exists>m' fds'. mm_Start (sample_start ''7'' ''sqp'') \<lparr>baseServer = fresh_server TypeAllocation ''f'', mmDone = make_chan 1\<rparr> {} =
     Return (None, m', fds', True)"
proof -
  let ?m = "\<lparr>baseServer = fresh_server TypeAllocation ''f'', mmDone = make_chan 1\<rparr>"
  have "snd (parse_int64 ''7'') = None"
    by (simp add: parse_int64_def parse_uint_def digit_value_def Let_def)
  then obtain s' fds' where "Start (sample_start ''7'' ''sqp'') (fresh_server TypeAllocation ''f'') {} = Return (None, s', fds', True)"
    using sample_start_run [of "''7''" "''sqp''"] by auto
  then have r: "mm_Start (sample_start ''7'' ''sqp'') ?m {} = Return (None, ?m\<lparr>baseServer := s'\<rparr>, fds', backfillEnabled (Config s'))"
    by (simp add: mm_Start_def)
    let ?ms = "sample_members ''7'' ''sqp''"
  have f: "startFile (sample_start ''7'' ''sqp'') = FileValue (JObject ?ms)" "queryBind (baseServer ?m) = None"
      "0 \<le> queryReadBufferSizeBytes (baseServer ?m)"
    by (simp_all add: sample_start_def fresh_server_def DefaultReadBufferSizeBytes_def)
  have "extra_value ?ms ''enableBackfill'' = Some ''true''" by code_simp
  with start_backfill_iff [OF r f] r show ?thesis by auto
qed

text \<open>The matchmaker server waits for the same signals; its \<open>Stop\<close> then closes its own \<open>done\<close> first.\<close>

theorem mm_wait_until_terminated:
  "mm_WaitUntilTerminated sigs m fds =
     (if SigInterrupt \<in> set sigs \<or> SigTerm \<in> set sigs then Some (mm_Stop m fds) else None)"
  using signal_received [of sigs] by (auto simp: mm_WaitUntilTerminated_def split: option.splits)

end
