(* ===== verification/Mock_Proxy.thy ===== *)
theory Mock_Proxy
  imports Matchmaker
begin

text \<open>
  The file \<open>internal/localproxytest/server.go\<close>: the mock of the local proxy that the SDK's tests
  talk to, as the other end of the HTTP operations. A mock answers a request by its path and method;
  the path of the websocket is left to the \<open>centrifuge\<close> library (\<open>None\<close>). The text of an encoded
  JSON value (\<open>show_json\<close>) and of a time (\<open>fmt\<close>) are parameters. The token is a literal of the
  source and a parameter here.
\<close>

section \<open>The mock and what it answers\<close>

record mock_proxy =
  mockHost :: go_string
  mockJWT :: go_string
  mockReserve :: ReserveResponse
  mockHold :: HoldStatus
  mockPatches :: "go_string \<rightharpoonup> PatchAllocationRequest"

text \<open>
  The construction: the errors of the broker node, the readings of the clock, the UUID and the
  URL of the test server. The address is taken by pointer before the URL is known, and assigned
  afterwards.
\<close>

record mock_env =
  newNodeErr :: "go_string option"
  runNodeErr :: "go_string option"
  createdNow :: time
  fulfilledNow :: time
  requestedNow :: time
  holdNow :: time
  mockUUID :: go_string
  mockURL :: go_string

definition unix_seconds :: "time \<Rightarrow> int" where
  "unix_seconds t = t div 10 ^ 9"

definition NewLocalProxy :: "go_string \<Rightarrow> mock_env \<Rightarrow> go_string + mock_proxy" where
  "NewLocalProxy token env =
     (case newNodeErr env of
        Some e \<Rightarrow> Inl e
      | None \<Rightarrow>
          (case runNodeErr env of
             Some e \<Rightarrow> Inl e
           | None \<Rightarrow> Inr
               \<lparr>mockHost = mockURL env, mockJWT = token,
                mockReserve = \<lparr>BuildConfigurationID = 1234, Created = createdNow env, Fulfilled = fulfilledNow env,
                  ReservedPort = 9000, Ipv4 = Some (mockURL env), Ipv6 = None, Requested = requestedNow env,
                  ReservationID = mockUUID env\<rparr>,
                mockHold = \<lparr>ExpiresAt = unix_seconds (holdNow env + 10 * Minute), Held = True\<rparr>,
                mockPatches = Map.empty\<rparr>))"

text \<open>Encoding: a nil pointer with \<open>omitempty\<close> is left out.\<close>

definition optional_member :: "go_string \<Rightarrow> go_string option \<Rightarrow> (go_string \<times> json) list" where
  "optional_member k v = (case v of None \<Rightarrow> [] | Some s \<Rightarrow> [(k, JString s)])"

definition reserve_json :: "(time \<Rightarrow> go_string) \<Rightarrow> ReserveResponse \<Rightarrow> (go_string \<times> json) list" where
  "reserve_json fmt r =
     [(''buildConfigurationId'', JNumber (int_dec (BuildConfigurationID r))),
      (''created'', JString (fmt (Created r))), (''fulfilled'', JString (fmt (Fulfilled r))),
      (''gamePort'', JNumber (int_dec (ReservedPort r)))] @
     optional_member ''ipv4'' (Ipv4 r) @ optional_member ''ipv6'' (Ipv6 r) @
     [(''requested'', JString (fmt (Requested r))), (''reservationId'', JString (ReservationID r))]"

definition token_json :: "go_string \<Rightarrow> json" where
  "token_json jwt = JObject [(''token'', JString jwt), (''error'', JString [])]"

definition patch_spec :: json_struct where
  "patch_spec = [(''ready'', JK_bool)]"

text \<open>The error of decoding is ignored; the fields decoded before it are kept only without one.\<close>

definition decode_patch :: "json_lib \<Rightarrow> json option \<Rightarrow> PatchAllocationRequest" where
  "decode_patch lib body =
     (case body of
        None \<Rightarrow> \<lparr>Ready = False\<rparr>
      | Some v \<Rightarrow>
          (case decode_struct lib patch_spec v of
             Inr (Some vals) \<Rightarrow> \<lparr>Ready = jv_bool (vals ! 0)\<rparr>
           | _ \<Rightarrow> \<lparr>Ready = False\<rparr>))"

definition json_answer :: "(json \<Rightarrow> go_string) \<Rightarrow> json \<Rightarrow> http_response" where
  "json_answer show_json v = \<lparr>statusCode = 200, bodyBytes = Inr (show_json v), bodyJson = Inr v\<rparr>"

definition status_answer :: "int \<Rightarrow> http_response" where
  "status_answer n = \<lparr>statusCode = n, bodyBytes = Inr [], bodyJson = Inl ''EOF''\<rparr>"

definition mock_allocation :: go_string where
  "mock_allocation = ''00000001-0000-0000-0000-000000000000''"

definition mock_handler ::
  "json_lib \<Rightarrow> (time \<Rightarrow> go_string) \<Rightarrow> (json \<Rightarrow> go_string) \<Rightarrow> go_string \<Rightarrow> http_request \<Rightarrow> mock_proxy \<Rightarrow>
   http_response option \<times> mock_proxy" where
  "mock_handler lib fmt show_json path req m =
     (if path = ''/v1/connection/websocket'' then (None, m)
      else if path = ''/token'' then (Some (json_answer show_json (token_json (mockJWT m))), m)
      else if path = ''/v1/servers/1/reservations'' then
        (Some (if reqMethod req = ''POST'' then json_answer show_json (JObject (reserve_json fmt (mockReserve m)))
               else if reqMethod req = ''DELETE'' then status_answer 204
               else status_answer 405), m)
      else if path = ''/v1/servers/1/hold'' then
        (Some (if reqMethod req = ''GET'' \<or> reqMethod req = ''POST''
               then json_answer show_json (JObject (hold_json (mockHold m)))
               else if reqMethod req = ''DELETE'' then status_answer 204
               else status_answer 405), m)
      else if path = ''/v1/servers/1/allocations/'' @ mock_allocation then
        (if reqMethod req = ''PATCH''
         then (Some (status_answer 204),
               m\<lparr>mockPatches := (mockPatches m)(mock_allocation \<mapsto> decode_patch lib (reqBody req))\<rparr>)
         else (Some (status_answer 405), m))
      else (Some (status_answer 200), m))"

section \<open>Talking to the mock\<close>

text \<open>
  The path of a request that is sent to a host: what comes after the host, up to a query or a fragment.
  A request for another host does not arrive. (Escapes with \<open>%\<close>, which are in none of the URLs the mock knows,
  are not decoded.)
\<close>

definition request_path :: "go_string \<Rightarrow> http_request \<Rightarrow> go_string option" where
  "request_path host req =
     (if take (length host) (reqURL req) = host
      then Some (takeWhile (\<lambda>ch. ch \<noteq> CHR ''?'' \<and> ch \<noteq> CHR ''#'') (drop (length host) (reqURL req)))
      else None)"

text \<open>What the mock does with a request, whoever sends it.\<close>

definition mock_serve ::
  "json_lib \<Rightarrow> (time \<Rightarrow> go_string) \<Rightarrow> (json \<Rightarrow> go_string) \<Rightarrow> http_request \<Rightarrow> mock_proxy \<Rightarrow>
   http_response option \<times> mock_proxy" where
  "mock_serve lib fmt show_json req m =
     (case request_path (mockHost m) req of
        None \<Rightarrow> (None, m)
      | Some path \<Rightarrow> mock_handler lib fmt show_json path req m)"

text \<open>The network of a client whose requests the mock answers, and the mock after the requests of a trace.\<close>

definition mock_net ::
  "json_lib \<Rightarrow> (time \<Rightarrow> go_string) \<Rightarrow> (json \<Rightarrow> go_string) \<Rightarrow> go_string option \<Rightarrow> mock_proxy \<Rightarrow> http_env" where
  "mock_net lib fmt show_json u m =
     \<lparr>newRequestErr = None, newUUID = u,
      doRequest = (\<lambda>req. case fst (mock_serve lib fmt show_json req m) of None \<Rightarrow> Inl [] | Some resp \<Rightarrow> Inr resp)\<rparr>"

primrec mock_sees ::
  "json_lib \<Rightarrow> (time \<Rightarrow> go_string) \<Rightarrow> (json \<Rightarrow> go_string) \<Rightarrow> http_effect \<Rightarrow> mock_proxy \<Rightarrow> mock_proxy" where
  "mock_sees lib fmt show_json (Sent req) m = snd (mock_serve lib fmt show_json req m)"
| "mock_sees lib fmt show_json BodyClosed m = m"

definition mock_after ::
  "json_lib \<Rightarrow> (time \<Rightarrow> go_string) \<Rightarrow> (json \<Rightarrow> go_string) \<Rightarrow> http_effect list \<Rightarrow> mock_proxy \<Rightarrow> mock_proxy" where
  "mock_after lib fmt show_json effs m = fold (mock_sees lib fmt show_json) effs m"

lemma int_dec_one: "int_dec 1 = ''1''"
  by code_simp

lemma reserve_names:
  "select_field reserve_spec ''buildConfigurationId'' = Some 0" "select_field reserve_spec ''created'' = Some 1"
  "select_field reserve_spec ''fulfilled'' = Some 2" "select_field reserve_spec ''gamePort'' = Some 3"
  "select_field reserve_spec ''ipv4'' = Some 4" "select_field reserve_spec ''ipv6'' = Some 5"
  "select_field reserve_spec ''requested'' = Some 6" "select_field reserve_spec ''reservationId'' = Some 7"
  by code_simp+

definition reserve_ok :: "json_lib \<Rightarrow> (time \<Rightarrow> go_string) \<Rightarrow> ReserveResponse \<Rightarrow> bool" where
  "reserve_ok lib fmt r \<longleftrightarrow> int64_range (BuildConfigurationID r) \<and> int64_range (ReservedPort r) \<and>
     (\<forall>t \<in> {Created r, Fulfilled r, Requested r}. parse_time lib (fmt t) = Some t)"

lemma decode_reserve:
  assumes "reserve_ok lib fmt r"
  shows "decode_body lib reserve_spec to_reserve_response (json_answer show_json (JObject (reserve_json fmt r)))
    = Inr (Some r)"
proof -
  obtain b cr fu po i4 i6 rq rid where r: "r = \<lparr>BuildConfigurationID = b, Created = cr, Fulfilled = fu,
      ReservedPort = po, Ipv4 = i4, Ipv6 = i6, Requested = rq, ReservationID = rid\<rparr>"
    by (cases r)
  have i: "parse_int64 (int_dec b) = (b, None)" "parse_int64 (int_dec po) = (po, None)"
    using assms by (simp_all add: r reserve_ok_def int64_range_def parse_int64_dec)
  have t: "parse_time lib (fmt cr) = Some cr" "parse_time lib (fmt fu) = Some fu" "parse_time lib (fmt rq) = Some rq"
    using assms by (simp_all add: r reserve_ok_def)
  have k: "map (zero_json \<circ> snd) reserve_spec = [JV_int 0, JV_time zero_time, JV_time zero_time, JV_int 0,
      JV_string_ptr None, JV_string_ptr None, JV_time zero_time, JV_string []]"
      "snd (reserve_spec ! 0) = JK_int64" "snd (reserve_spec ! 1) = JK_time" "snd (reserve_spec ! 2) = JK_time"
      "snd (reserve_spec ! 3) = JK_int64" "snd (reserve_spec ! 4) = JK_string_ptr" "snd (reserve_spec ! 5) = JK_string_ptr"
      "snd (reserve_spec ! 6) = JK_time" "snd (reserve_spec ! 7) = JK_string"
    by (simp_all add: reserve_spec_def)
  show ?thesis
    by (cases i4; cases i6)
      (simp_all add: r decode_body_def json_answer_def decode_struct_def reserve_json_def optional_member_def
        reserve_names i t k [simplified] store_json_def to_reserve_response_def)
qed

text \<open>Where the requests of a client of server 1 arrive.\<close>

lemma path_at_mock:
  "list_all (\<lambda>ch. ch \<noteq> CHR ''?'' \<and> ch \<noteq> CHR ''#'') path \<Longrightarrow> reqURL req = host @ path \<Longrightarrow>
   request_path host req = Some path"
  by (simp add: request_path_def list_all_iff takeWhile_eq_all_conv)

lemma server_path_at_mock:
  assumes "clientHost c = host" "clientServerID c = 1" "list_all (\<lambda>ch. ch \<noteq> CHR ''?'' \<and> ch \<noteq> CHR ''#'') path"
  shows "request_path host (make_request env meth (server_url c path) body) = Some (''/v1/servers/1'' @ path)"
  by (rule path_at_mock) (use assms in \<open>simp_all add: make_request_def server_url_def int_dec_one\<close>)

text \<open>One exchange of a client of server 1 with the mock.\<close>

lemma call_at_mock:
  assumes "clientHost c = mockHost m" "clientServerID c = 1" "list_all (\<lambda>ch. ch \<noteq> CHR ''?'' \<and> ch \<noteq> CHR ''#'') path"
    and "mock_handler lib fmt sj (''/v1/servers/1'' @ path)
      (make_request (mock_net lib fmt sj u m) meth (server_url c path) body) m = (Some resp, m')"
  shows "proxy_call (mock_net lib fmt sj u m) meth (server_url c path) body status finish =
      ([Sent (make_request (mock_net lib fmt sj u m) meth (server_url c path) body), BodyClosed],
       if statusCode resp \<noteq> status then Inl (unexpected_response (request_id (mock_net lib fmt sj u m)) resp)
       else finish resp)"
    and "mock_after lib fmt sj [Sent (make_request (mock_net lib fmt sj u m) meth (server_url c path) body), BodyClosed] m
      = m'"
proof -
  define net where "net = mock_net lib fmt sj u m"
  define req where "req = make_request net meth (server_url c path) body"
  have path: "request_path (mockHost m) req = Some (''/v1/servers/1'' @ path)"
    unfolding req_def by (rule server_path_at_mock [OF assms(1-3)])
  have serve: "mock_serve lib fmt sj req m = (Some resp, m')"
    unfolding mock_serve_def path option.case using assms(4) unfolding req_def net_def .
  then show "mock_after lib fmt sj [Sent (make_request (mock_net lib fmt sj u m) meth (server_url c path) body), BodyClosed] m
      = m'"
    by (simp add: mock_after_def req_def net_def)
  have "newRequestErr net = None" "doRequest net req = Inr resp"
    using serve by (simp_all add: net_def mock_net_def)
  then show "proxy_call (mock_net lib fmt sj u m) meth (server_url c path) body status finish =
      ([Sent (make_request (mock_net lib fmt sj u m) meth (server_url c path) body), BodyClosed],
       if statusCode resp \<noteq> status then Inl (unexpected_response (request_id (mock_net lib fmt sj u m)) resp)
       else finish resp)"
    unfolding net_def [symmetric] by (simp add: proxy_call_def Let_def req_def)
qed

text \<open>The answers of the mock to the requests of the operations.\<close>

lemma handler_answers:
  "mock_handler lib fmt sj (''/v1/servers/1'' @ ''/reservations'') (make_request env ''POST'' url body) m
    = (Some (json_answer sj (JObject (reserve_json fmt (mockReserve m)))), m)"
  "mock_handler lib fmt sj (''/v1/servers/1'' @ ''/reservations'') (make_request env ''DELETE'' url body) m
    = (Some (status_answer 204), m)"
  "mock_handler lib fmt sj (''/v1/servers/1'' @ ''/hold'') (make_request env ''POST'' url body) m
    = (Some (json_answer sj (JObject (hold_json (mockHold m)))), m)"
  "mock_handler lib fmt sj (''/v1/servers/1'' @ ''/hold'') (make_request env ''GET'' url body) m
    = (Some (json_answer sj (JObject (hold_json (mockHold m)))), m)"
  "mock_handler lib fmt sj (''/v1/servers/1'' @ ''/hold'') (make_request env ''DELETE'' url body) m
    = (Some (status_answer 204), m)"
  "mock_handler lib fmt sj (''/v1/servers/1'' @ ''/allocations/'' @ mock_allocation) (make_request env ''PATCH'' url body) m
    = (Some (status_answer 204), m\<lparr>mockPatches := (mockPatches m)(mock_allocation \<mapsto> decode_patch lib body)\<rparr>)"
  by (simp_all add: mock_handler_def make_request_def mock_allocation_def)

lemma decode_ready: "decode_patch lib (Some (JObject [(''ready'', JBool (Ready p))])) = p"
proof -
  have "select_field patch_spec ''ready'' = Some 0" by code_simp
  then show ?thesis by (cases p) (simp add: decode_patch_def decode_struct_def store_json_def patch_spec_def)
qed

lemma allocation_plain: "list_all (\<lambda>ch. ch \<noteq> CHR ''?'' \<and> ch \<noteq> CHR ''#'') (''/allocations/'' @ mock_allocation)"
  by (simp add: mock_allocation_def)

lemma patch_at_mock:
  assumes "clientHost c = mockHost m" "clientServerID c = 1"
  shows "snd (PatchAllocation (mock_net lib fmt sj u m) mock_allocation p c) = Inr ()"
    and "mock_after lib fmt sj (fst (PatchAllocation (mock_net lib fmt sj u m) mock_allocation p c)) m
      = m\<lparr>mockPatches := (mockPatches m)(mock_allocation \<mapsto> p)\<rparr>"
  unfolding PatchAllocation_def call_at_mock(1) [OF assms allocation_plain handler_answers(6)] fst_conv
    call_at_mock(2) [OF assms allocation_plain handler_answers(6)]
  by (simp_all add: decode_ready status_answer_def)

text \<open>The token request of the matchmaker server.\<close>

lemma token_at_mock:
  "LocalProxyURL cfg = mockHost m \<Longrightarrow>
   mock_serve lib fmt sj (token_request cfg) m = (Some (json_answer sj (token_json (mockJWT m))), m)"
  by (simp add: mock_serve_def path_at_mock [of "''/token''"] token_request_def mock_handler_def)

lemma token_names: "select_field token_spec ''token'' = Some 0" "select_field token_spec ''error'' = Some 1"
  by code_simp+

lemma decode_mock_token: "decode_token lib (Inr (token_json jwt)) = Inr jwt"
proof -
  have "map (zero_json \<circ> snd) token_spec = [JV_string [], JV_string []]"
      "snd (token_spec ! 0) = JK_string" "snd (token_spec ! Suc 0) = JK_string"
    by (simp_all add: token_spec_def)
  then show ?thesis
    by (simp add: decode_token_def token_json_def decode_struct_def token_names store_json_def to_token_def Let_def)
qed

text \<open>A library that reads a time back from its decimal form, for the sample run.\<close>

definition mock_lib :: json_lib where
  "mock_lib = sample_json_lib\<lparr>parse_time := \<lambda>s. Some (fst (parse_int64 s))\<rparr>"

section \<open>The two ends agree\<close>

text \<open>C40. The client and the mock proxy understand each other. A client of server 1 at the mock's address sends its
  requests, and the mock answers the requests it gets by their path and method: each of the six operations succeeds
  with what the mock was made with, the patch of its allocation is recorded there as it was given, and the
  matchmaker gets the token, provided that times and JSON text are read back as they were written.\<close>

theorem mock_serves_clients:
  assumes "clientHost c = mockHost m" and "clientServerID c = 1" and "LocalProxyURL cfg = mockHost m"
    and "reserve_ok lib fmt (mockReserve m)" and "int64_range (ExpiresAt (mockHold m))"
    and "scan (show_json (token_json (mockJWT m))) = Inr (token_json (mockJWT m))"
    and "net = mock_net lib fmt show_json u m"
  shows "snd (ReserveSelf lib net a c) = Inr (Some (mockReserve m)) \<and>
    snd (UnreserveSelf net c) = Inr () \<and>
    snd (HoldSelf lib net h c) = Inr (Some (mockHold m)) \<and>
    snd (proxy_HoldStatus lib net c) = Inr (Some (mockHold m)) \<and>
    snd (ReleaseSelf net c) = Inr () \<and>
    snd (PatchAllocation net mock_allocation p c) = Inr () \<and>
    mockPatches (mock_after lib fmt show_json (fst (PatchAllocation net mock_allocation p c)) m) mock_allocation = Some p \<and>
    snd (getJwtToken lib scan cfg net) = Inr (mockJWT m)"
proof -
  have h: "decode_body lib hold_spec to_hold_status (json_answer show_json (JObject (hold_json (mockHold m))))
      = Inr (Some (mockHold m))"
    by (rule decode_hold [OF assms(5), of "[]"]) (simp_all add: json_answer_def)
  have s: "statusCode (json_answer show_json v) = 200" "statusCode (status_answer n) = n" for v n
    by (simp_all add: json_answer_def status_answer_def)
  have plain: "list_all (\<lambda>ch. ch \<noteq> CHR ''?'' \<and> ch \<noteq> CHR ''#'') ''/reservations''"
    "list_all (\<lambda>ch. ch \<noteq> CHR ''?'' \<and> ch \<noteq> CHR ''#'') ''/hold''"
    by simp_all
  note call = call_at_mock(1) [OF assms(1,2), where lib = lib and fmt = fmt and sj = show_json and u = u, folded assms(7)]
  note reservations = call [OF plain(1)] and hold = call [OF plain(2)]
  have "snd (ReserveSelf lib net a c) = Inr (Some (mockReserve m))"
    unfolding ReserveSelf_def reservations [OF handler_answers(1)] by (simp add: s decode_reserve [OF assms(4)])
  moreover have "snd (UnreserveSelf net c) = Inr ()"
    unfolding UnreserveSelf_def reservations [OF handler_answers(2)] by (simp add: s)
  moreover have "snd (HoldSelf lib net h c) = Inr (Some (mockHold m))"
    unfolding HoldSelf_def hold [OF handler_answers(3)] by (simp add: s h)
  moreover have "snd (proxy_HoldStatus lib net c) = Inr (Some (mockHold m))"
    unfolding proxy_HoldStatus_def hold [OF handler_answers(4)] by (simp add: s h)
  moreover have "snd (ReleaseSelf net c) = Inr ()"
    unfolding ReleaseSelf_def hold [OF handler_answers(5)] by (simp add: s)
  moreover have "snd (getJwtToken lib scan cfg net) = Inr (mockJWT m)"
    using assms(6)
    by (simp add: getJwtToken_def assms(7) mock_net_def token_at_mock [OF assms(3)] json_answer_def decode_mock_token)
  ultimately show ?thesis by (simp add: assms(7) patch_at_mock [OF assms(1,2)])
qed

theorem mock_serves_clients_witness:
  "\<exists>m. NewLocalProxy ''jwt'' \<lparr>newNodeErr = None, runNodeErr = None, createdNow = 1, fulfilledNow = 2, requestedNow = 3,
      holdNow = 4, mockUUID = ''u'', mockURL = ''http://h''\<rparr> = Inr m \<and>
    snd (proxy_HoldStatus mock_lib (mock_net mock_lib int_dec (\<lambda>v. ''jwt'') None m)
        (New_client ''http://h'' 1 :: callback client)) = Inr (Some \<lparr>ExpiresAt = 600, Held = True\<rparr>) \<and>
    snd (getJwtToken mock_lib (\<lambda>s. Inr (token_json s)) (zero_config\<lparr>LocalProxyURL := ''http://h''\<rparr>)
      (mock_net mock_lib int_dec (\<lambda>v. ''jwt'') None m)) = Inr ''jwt''"
proof -
  let ?e = "\<lparr>newNodeErr = None, runNodeErr = None, createdNow = 1, fulfilledNow = 2, requestedNow = 3,
      holdNow = 4, mockUUID = ''u'', mockURL = ''http://h''\<rparr>"
  let ?c = "New_client ''http://h'' 1 :: callback client"
  obtain m where m: "NewLocalProxy ''jwt'' ?e = Inr m" by (simp add: NewLocalProxy_def)
  then have f: "mockJWT m = ''jwt''" "mockHold m = \<lparr>ExpiresAt = 600, Held = True\<rparr>" "mockHost m = ''http://h''"
      "Created (mockReserve m) = 1" "Fulfilled (mockReserve m) = 2" "Requested (mockReserve m) = 3"
      "BuildConfigurationID (mockReserve m) = 1234" "ReservedPort (mockReserve m) = 9000"
    by (auto simp: NewLocalProxy_def unix_seconds_def Minute_def)
  have c: "clientHost ?c = mockHost m" "clientServerID ?c = 1"
      "LocalProxyURL (zero_config\<lparr>LocalProxyURL := ''http://h''\<rparr>) = mockHost m"
    by (simp_all add: New_client_def f)
  have ok: "reserve_ok mock_lib int_dec (mockReserve m)" "int64_range (ExpiresAt (mockHold m))"
    by (simp_all add: reserve_ok_def f int64_range_def parse_int64_dec mock_lib_def)
  have scan: "(\<lambda>s. Inr (token_json s)) ((\<lambda>v. ''jwt'') (token_json (mockJWT m))) = Inr (token_json (mockJWT m))"
    by (simp add: f)
  note mock_serves_clients [where scan = "\<lambda>s. Inr (token_json s)" and show_json = "\<lambda>v. ''jwt''"
      and u = None, OF c ok scan refl]
  then have "snd (proxy_HoldStatus mock_lib (mock_net mock_lib int_dec (\<lambda>v. ''jwt'') None m) ?c) = Inr (Some (mockHold m))"
    "snd (getJwtToken mock_lib (\<lambda>s. Inr (token_json s)) (zero_config\<lparr>LocalProxyURL := ''http://h''\<rparr>)
      (mock_net mock_lib int_dec (\<lambda>v. ''jwt'') None m)) = Inr (mockJWT m)"
    by blast+
  with m f(1,2) show ?thesis by metis
qed

end
