(* ===== verification/Run_Contract.thy ===== *)
theory Run_Contract
  imports Main
begin

text \<open>
  Infinite runs of a transition system and the fairness of its schedules. The Go runtime does
  not promise more of its scheduler than that a goroutine that can go on is not passed over
  for ever; the theorems that something happens eventually assume just that, in the two usual
  strengths.

  The locale \<open>measured_system\<close> is what makes such proofs short: the control points of the
  goroutines move down a measure, so that in every run they come to rest, and it is enough to
  find, in a state at rest, somebody who could move.
\<close>

section \<open>Runs\<close>

text \<open>A run may pause at any point, and it may stop for good by pausing for ever.\<close>

definition is_run :: "('s \<Rightarrow> 's \<Rightarrow> bool) \<Rightarrow> (nat \<Rightarrow> 's) \<Rightarrow> bool" where
  "is_run step r \<longleftrightarrow> (\<forall>i. step (r i) (r (Suc i)) \<or> r (Suc i) = r i)"

text \<open>
  What is fair is said of an observation \<open>f\<close> of the state (the control point of a goroutine, the
  content of a channel) and of the states where it is able to change, \<open>able\<close>. Weak fairness:
  an observation that is always able to change does change. Strong fairness: so does one
  that is able to again and again.
\<close>

definition weakly_fair :: "('s \<Rightarrow> bool) \<Rightarrow> ('s \<Rightarrow> 'p) \<Rightarrow> (nat \<Rightarrow> 's) \<Rightarrow> bool" where
  "weakly_fair able f r \<longleftrightarrow>
     (\<forall>i. (\<forall>j\<ge>i. able (r j)) \<longrightarrow> (\<exists>j\<ge>i. f (r (Suc j)) \<noteq> f (r j)))"

definition strongly_fair :: "('s \<Rightarrow> bool) \<Rightarrow> ('s \<Rightarrow> 'p) \<Rightarrow> (nat \<Rightarrow> 's) \<Rightarrow> bool" where
  "strongly_fair able f r \<longleftrightarrow>
     (\<forall>i. (\<forall>j\<ge>i. \<exists>k\<ge>j. able (r k)) \<longrightarrow> (\<exists>j\<ge>i. f (r (Suc j)) \<noteq> f (r j)))"

text \<open>A step can change the observation.\<close>

definition can_change :: "('s \<Rightarrow> 's \<Rightarrow> bool) \<Rightarrow> ('s \<Rightarrow> 'p) \<Rightarrow> 's \<Rightarrow> bool" where
  "can_change step f s \<longleftrightarrow> (\<exists>t. step s t \<and> f t \<noteq> f s)"

lemma can_changeI [intro]: "step s t \<Longrightarrow> f t \<noteq> f s \<Longrightarrow> can_change step f s"
  by (auto simp: can_change_def)

lemma strongly_fair_weakly: "strongly_fair able f r \<Longrightarrow> weakly_fair able f r"
  unfolding strongly_fair_def weakly_fair_def by (meson order_refl)

text \<open>How fairness is used: where the observation rests, it is in the end unable to change.\<close>

lemma strongly_fair_rest:
  assumes "strongly_fair able f r" and "\<And>j. n \<le> j \<Longrightarrow> f (r j) = x"
  obtains j where "n \<le> j" "\<And>k. j \<le> k \<Longrightarrow> \<not> able (r k)"
  using assms unfolding strongly_fair_def by (metis le_SucI order_trans)

lemma weakly_fair_rest:
  assumes "weakly_fair able f r" and "\<And>j. n \<le> j \<Longrightarrow> f (r j) = x"
  obtains j where "n \<le> j" "\<not> able (r j)"
  using assms unfolding weakly_fair_def by (metis le_SucI)

lemma run_reaches: "is_run step r \<Longrightarrow> i \<le> j \<Longrightarrow> step\<^sup>*\<^sup>* (r i) (r j)"
proof (induction j)
  case (Suc j)
  then have "step (r j) (r (Suc j)) \<or> r (Suc j) = r j" by (simp add: is_run_def)
  with Suc show ?case by (cases "i \<le> j") (auto simp: le_Suc_eq intro: rtranclp.rtrancl_into_rtrancl)
qed simp

section \<open>Runs that end\<close>

text \<open>The run that goes through the states of a list and stays in the last one.\<close>

definition run_of :: "'s list \<Rightarrow> nat \<Rightarrow> 's" where
  "run_of ss i = ss ! min i (length ss - 1)"

lemma run_of_late: "ss \<noteq> [] \<Longrightarrow> length ss \<le> Suc i \<Longrightarrow> run_of ss i = last ss"
  by (simp add: run_of_def last_conv_nth min_absorb2)

lemma run_of_in: "ss \<noteq> [] \<Longrightarrow> run_of ss i \<in> set ss"
  by (simp add: run_of_def less_imp_diff_less min_less_iff_disj)

lemma run_of_map: "ss \<noteq> [] \<Longrightarrow> run_of (map f ss) i = f (run_of ss i)"
  by (simp add: run_of_def nth_map less_imp_diff_less min.strict_coboundedI2)

lemma is_run_of:
  assumes "successively step ss"
  shows "is_run step (run_of ss)"
  unfolding is_run_def
proof
  fix i
  show "step (run_of ss i) (run_of ss (Suc i)) \<or> run_of ss (Suc i) = run_of ss i"
  proof (cases "Suc i < length ss")
    case True
    with assms have "step (ss ! i) (ss ! Suc i)" by (simp add: successively_conv_nth)
    with True show ?thesis by (simp add: run_of_def min_absorb1)
  next
    case False
    then show ?thesis by (simp add: run_of_def min_absorb2)
  qed
qed

lemma strongly_fair_run_of: "ss \<noteq> [] \<Longrightarrow> \<not> able (last ss) \<Longrightarrow> strongly_fair able f (run_of ss)"
  unfolding strongly_fair_def by (metis le_SucI nat_le_linear order_trans run_of_late)

section \<open>Systems with a measure\<close>

locale measured_system =
  fixes step :: "'s \<Rightarrow> 's \<Rightarrow> bool"
    and pcs :: "'s \<Rightarrow> 'p"
    and work :: "'s \<Rightarrow> nat"
  assumes step_work: "step s t \<Longrightarrow> pcs t = pcs s \<or> work t < work s"
    and work_of_pcs: "pcs t = pcs s \<Longrightarrow> work t = work s"
begin

lemma work_le: "step s t \<Longrightarrow> work t \<le> work s"
  using step_work [of s t] work_of_pcs [of t s] by auto

lemma run_work: "is_run step r \<Longrightarrow> i \<le> j \<Longrightarrow> work (r j) \<le> work (r i)"
proof (induction j)
  case (Suc j)
  then have "step (r j) (r (Suc j)) \<or> r (Suc j) = r j" by (simp add: is_run_def)
  with Suc show ?case using work_le [of "r j" "r (Suc j)"] by (cases "i \<le> j") (auto simp: le_Suc_eq)
qed simp

text \<open>From any point of a run on, the control points come to rest.\<close>

lemma run_settles:
  assumes "is_run step r"
  obtains n where "i \<le> n" "\<And>j. n \<le> j \<Longrightarrow> pcs (r j) = pcs (r n)"
proof -
  obtain n where n: "i \<le> n" "\<And>j. i \<le> j \<Longrightarrow> work (r n) \<le> work (r j)"
    using ex_has_least_nat [of "\<lambda>j. i \<le> j" i "\<lambda>j. work (r j)"] by auto
  have "pcs (r j) = pcs (r n)" if "n \<le> j" for j
    using that
  proof (induction rule: dec_induct)
    case (step j)
    then have j: "step (r j) (r (Suc j)) \<or> r (Suc j) = r j" using assms by (simp add: is_run_def)
    have "work (r j) \<le> work (r n)" "work (r n) \<le> work (r (Suc j))"
      using run_work [OF assms step(1)] n step(1) by auto
    then have "\<not> work (r (Suc j)) < work (r j)" by simp
    with j step_work [of "r j" "r (Suc j)"] step(3) show ?case by auto
  qed simp
  with n(1) show thesis by (rule that)
qed

end

end
