(* ===== verification/Gsh_Shutdown.thy ===== *)
theory Gsh_Shutdown
  imports Go_Chan Run_Contract
begin

text \<open>
  The synchronisation of \<open>Start\<close> and \<open>Stop\<close> (\<open>server.go\<close>) with the goroutines they start: the
  goroutines as program counters, with the wait group, the ready channels, \<open>done\<close> and
  \<open>chanDeallocated\<close>, as a step relation in which they interleave freely. \<open>Close\<close> (\<open>bind.go\<close>) takes its three
  steps one by one, as do \<open>Read\<close> and \<open>Write\<close> in the query loop; the listener waits for its
  subscription (\<open>client.go\<close>), which the broker may refuse any number of times. A panic that nobody recovers
  ends the process: there is no step after it. The lemmas give the invariant of the system, what it
  means for the end of \<open>Stop\<close>, and when \<open>Close\<close> makes the query loop panic.
\<close>

section \<open>The goroutines\<close>

text \<open>
  The caller (\<open>Start\<close>, then \<open>Stop\<close>, once), the query loop, the configuration watcher and the event
  listener. Each adds itself to the wait group at its beginning, that is some time after the
  \<open>go\<close> statement. The listener either fails, reports and returns, or gets ready and waits for
  \<open>done\<close>; its \<open>wg.Done()\<close> is in the function it defers only after it has got ready.
\<close>

datatype caller =
    InStart            \<comment> \<open>the goroutines are started, wait for \<open>internalEventProcessorReady\<close>\<close>
  | AwaitWatcher       \<comment> \<open>wait for \<open>eventWatcherReady\<close>\<close>
  | RunningServer      \<comment> \<open>\<open>Start\<close> has returned nil\<close>
  | StartFailed        \<comment> \<open>\<open>Start\<close> has returned the error of the event watcher\<close>
  | StopSocket         \<comment> \<open>\<open>Close\<close> has closed the \<open>done\<close> of the binding, is to close the socket\<close>
  | StopConn           \<comment> \<open>is to set \<open>b.conn\<close> to nil\<close>
  | StopSend           \<comment> \<open>\<open>Stop\<close> has closed the binding, is to send on \<open>chanDeallocated\<close>\<close>
  | StopClose          \<comment> \<open>is to close \<open>done\<close>\<close>
  | StopWait           \<comment> \<open>\<open>wg.Wait()\<close>\<close>
  | Stopped

datatype looper = Spawned | Counted | Looping | LoopExited

text \<open>Where the query loop is, when it loops.\<close>

datatype query_point =
    QTop               \<comment> \<open>calls \<open>Read\<close>, which looks at the \<open>done\<close> of the binding\<close>
  | QReadChecked       \<comment> \<open>not done: calls \<open>b.conn.SetReadDeadline\<close>\<close>
  | QReadArmed         \<comment> \<open>calls \<open>b.conn.ReadFromUDP\<close>\<close>
  | QReading           \<comment> \<open>is in that call\<close>
  | QAnswer            \<comment> \<open>has a datagram, calls \<open>Respond\<close>\<close>
  | QWrite             \<comment> \<open>has a response, calls \<open>Write\<close>, which looks at \<open>done\<close>\<close>
  | QWriteChecked      \<comment> \<open>not done: calls \<open>b.conn.SetWriteDeadline\<close>\<close>
  | QWriteArmed        \<comment> \<open>calls \<open>b.conn.WriteTo\<close>\<close>
  | QFailed            \<comment> \<open>has an error of \<open>Read\<close> or \<open>Write\<close>, asks whether the binding is done\<close>

datatype listener =
    LSpawned
  | LSetup             \<comment> \<open>makes the client, subscribes and connects\<close>
  | LFailed            \<comment> \<open>has returned with an error\<close>
  | LSubscribing       \<comment> \<open>waits on \<open>chanSubscribed\<close>\<close>
  | LSubscribed        \<comment> \<open>is to report that it is ready\<close>
  | LReady             \<comment> \<open>waits for \<open>done\<close>\<close>
  | LTearDown
  | LExited

datatype subscription =
    NoSubscription
  | SubRequested       \<comment> \<open>the broker is to answer\<close>
  | SubRefused         \<comment> \<open>\<open>OnSubscribeError\<close> runs, sleeps before it subscribes again\<close>
  | SubAbandoned       \<comment> \<open>it has returned without a new request\<close>
  | SubConfirmed

datatype panic_site =
    NilConn            \<comment> \<open>\<open>Read\<close> or \<open>Write\<close> uses \<open>b.conn\<close> after \<open>Close\<close> has set it to nil\<close>
  | ShortBuffer        \<comment> \<open>\<open>Respond\<close> on a buffer of less than five bytes\<close>
  | NoWatcher          \<comment> \<open>the nil result of a failed \<open>NewWatcher\<close>\<close>
  | NullConfig         \<comment> \<open>the watcher loads the configuration \<open>null\<close>\<close>
  | NullEvent          \<comment> \<open>the client decodes the event \<open>null\<close>\<close>

record life =
  caller :: caller
  queryPc :: looper
  queryAt :: query_point
  watchPc :: looper
  listenPc :: listener
  subscription :: subscription
  successes :: nat                 \<comment> \<open>how often the broker has confirmed the subscription\<close>
  subSending :: nat                \<comment> \<open>the \<open>OnSubscribeSuccess\<close> that wait in their send\<close>
  wg :: nat
  procReady :: "unit chan"
  watcherReady :: "bool chan"      \<comment> \<open>\<open>True\<close>: nil, \<open>False\<close>: an error\<close>
  bindClosed :: bool               \<comment> \<open>the \<open>done\<close> of the binding is closed\<close>
  socketOpen :: bool
  connNil :: bool
  doneChan :: "unit chan"
  deallocChan :: "unit chan"
  panicked :: "panic_site option"

definition init_life :: life where
  "init_life = \<lparr>caller = InStart, queryPc = Spawned, queryAt = QTop, watchPc = Spawned, listenPc = LSpawned,
     subscription = NoSubscription, successes = 0, subSending = 0, wg = 0,
     procReady = make_chan 1, watcherReady = make_chan 1, bindClosed = False, socketOpen = True, connNil = False,
     doneChan = make_chan 1, deallocChan = make_chan 1, panicked = None\<rparr>"

abbreviation alive :: "life \<Rightarrow> bool" where
  "alive s \<equiv> panicked s = None"

text \<open>The query loop has looked at \<open>done\<close>, found the binding open, and is to use \<open>b.conn\<close>.\<close>

definition using_conn :: "query_point \<Rightarrow> bool" where
  "using_conn q \<longleftrightarrow> q \<in> {QReadChecked, QReadArmed, QWriteChecked, QWriteArmed}"

inductive life_step :: "life \<Rightarrow> life \<Rightarrow> bool" where
  query_add:
    "alive s \<Longrightarrow> queryPc s = Spawned \<Longrightarrow> life_step s (s\<lparr>queryPc := Looping, wg := Suc (wg s)\<rparr>)"
| read_check:
    "alive s \<Longrightarrow> queryPc s = Looping \<Longrightarrow> queryAt s = QTop \<Longrightarrow>
     life_step s (s\<lparr>queryAt := (if bindClosed s then QFailed else QReadChecked)\<rparr>)"
| read_arm:
    "alive s \<Longrightarrow> queryPc s = Looping \<Longrightarrow> queryAt s = QReadChecked \<Longrightarrow> \<not> connNil s \<Longrightarrow> socketOpen s \<Longrightarrow>
     life_step s (s\<lparr>queryAt := QReadArmed\<rparr>)"
| read_enter:
    "alive s \<Longrightarrow> queryPc s = Looping \<Longrightarrow> queryAt s = QReadArmed \<Longrightarrow> \<not> connNil s \<Longrightarrow>
     life_step s (s\<lparr>queryAt := QReading\<rparr>)"
| read_got:
    "alive s \<Longrightarrow> queryPc s = Looping \<Longrightarrow> queryAt s = QReading \<Longrightarrow> socketOpen s \<Longrightarrow>
     life_step s (s\<lparr>queryAt := QAnswer\<rparr>)"
| read_fails:
    "alive s \<Longrightarrow> queryPc s = Looping \<Longrightarrow> queryAt s = QReadChecked \<and> \<not> connNil s \<or> queryAt s = QReading \<Longrightarrow>
     life_step s (s\<lparr>queryAt := QFailed\<rparr>)"
| respond:
    "alive s \<Longrightarrow> queryPc s = Looping \<Longrightarrow> queryAt s = QAnswer \<Longrightarrow> q = QWrite \<or> q = QTop \<Longrightarrow>
     life_step s (s\<lparr>queryAt := q\<rparr>)"
| respond_panics:
    "alive s \<Longrightarrow> queryPc s = Looping \<Longrightarrow> queryAt s = QAnswer \<Longrightarrow> life_step s (s\<lparr>panicked := Some ShortBuffer\<rparr>)"
| write_check:
    "alive s \<Longrightarrow> queryPc s = Looping \<Longrightarrow> queryAt s = QWrite \<Longrightarrow>
     life_step s (s\<lparr>queryAt := (if bindClosed s then QFailed else QWriteChecked)\<rparr>)"
| write_arm:
    "alive s \<Longrightarrow> queryPc s = Looping \<Longrightarrow> queryAt s = QWriteChecked \<Longrightarrow> \<not> connNil s \<Longrightarrow> socketOpen s \<Longrightarrow>
     life_step s (s\<lparr>queryAt := QWriteArmed\<rparr>)"
| write_sent:
    "alive s \<Longrightarrow> queryPc s = Looping \<Longrightarrow> queryAt s = QWriteArmed \<Longrightarrow> \<not> connNil s \<Longrightarrow> socketOpen s \<Longrightarrow>
     life_step s (s\<lparr>queryAt := QTop\<rparr>)"
| write_fails:
    "alive s \<Longrightarrow> queryPc s = Looping \<Longrightarrow> queryAt s = QWriteChecked \<or> queryAt s = QWriteArmed \<Longrightarrow> \<not> connNil s \<Longrightarrow>
     life_step s (s\<lparr>queryAt := QFailed\<rparr>)"
| conn_panics:
    "alive s \<Longrightarrow> queryPc s = Looping \<Longrightarrow> using_conn (queryAt s) \<Longrightarrow> connNil s \<Longrightarrow>
     life_step s (s\<lparr>panicked := Some NilConn\<rparr>)"
| query_again:
    "alive s \<Longrightarrow> queryPc s = Looping \<Longrightarrow> queryAt s = QFailed \<Longrightarrow> \<not> bindClosed s \<Longrightarrow>
     life_step s (s\<lparr>queryAt := QTop\<rparr>)"
| query_exit:
    "alive s \<Longrightarrow> queryPc s = Looping \<Longrightarrow> queryAt s = QFailed \<Longrightarrow> bindClosed s \<Longrightarrow>
     life_step s (s\<lparr>queryPc := LoopExited, wg := wg s - 1\<rparr>)"
| watch_add:
    "alive s \<Longrightarrow> watchPc s = Spawned \<Longrightarrow> life_step s (s\<lparr>watchPc := Counted, wg := Suc (wg s)\<rparr>)"
| watch_none:
    "alive s \<Longrightarrow> watchPc s = Spawned \<Longrightarrow> life_step s (s\<lparr>panicked := Some NoWatcher\<rparr>)"
| watch_ready:
    "alive s \<Longrightarrow> watchPc s = Counted \<Longrightarrow> chan_send () (procReady s) = Some c \<Longrightarrow>
     life_step s (s\<lparr>watchPc := Looping, procReady := c\<rparr>)"
| watch_event:
    "alive s \<Longrightarrow> watchPc s = Looping \<Longrightarrow> life_step s s"
| watch_null:
    "alive s \<Longrightarrow> watchPc s = Looping \<Longrightarrow> life_step s (s\<lparr>panicked := Some NullConfig\<rparr>)"
| watch_exit:
    "alive s \<Longrightarrow> watchPc s = Looping \<Longrightarrow> isClosed (doneChan s) \<Longrightarrow> chan_close (procReady s) = Return c \<Longrightarrow>
     life_step s (s\<lparr>watchPc := LoopExited, procReady := c, wg := wg s - 1\<rparr>)"
| listen_add:
    "alive s \<Longrightarrow> listenPc s = LSpawned \<Longrightarrow> life_step s (s\<lparr>listenPc := LSetup, wg := Suc (wg s)\<rparr>)"
| listen_fail:
    "alive s \<Longrightarrow> listenPc s = LSetup \<Longrightarrow> chan_send False (watcherReady s) = Some c \<Longrightarrow>
     life_step s (s\<lparr>listenPc := LFailed, watcherReady := c\<rparr>)"
| listen_connect:
    "alive s \<Longrightarrow> listenPc s = LSetup \<Longrightarrow>
     life_step s (s\<lparr>listenPc := LSubscribing, subscription := SubRequested\<rparr>)"
| listen_subscribed:
    "alive s \<Longrightarrow> listenPc s = LSubscribing \<Longrightarrow> subSending s = Suc n \<Longrightarrow>
     life_step s (s\<lparr>listenPc := LSubscribed, subSending := n\<rparr>)"
| listen_ready:
    "alive s \<Longrightarrow> listenPc s = LSubscribed \<Longrightarrow> chan_send True (watcherReady s) = Some c \<Longrightarrow>
     life_step s (s\<lparr>listenPc := LReady, watcherReady := c\<rparr>)"
| listen_message:
    "alive s \<Longrightarrow> listenPc s \<in> {LSubscribed, LReady, LTearDown, LExited} \<Longrightarrow>
     chan_send () (deallocChan s) = Some c \<Longrightarrow> life_step s (s\<lparr>deallocChan := c\<rparr>)"
| listen_null:
    "alive s \<Longrightarrow> listenPc s \<in> {LSubscribed, LReady, LTearDown} \<Longrightarrow> life_step s (s\<lparr>panicked := Some NullEvent\<rparr>)"
| listen_done:
    "alive s \<Longrightarrow> listenPc s = LReady \<Longrightarrow> isClosed (doneChan s) \<Longrightarrow> life_step s (s\<lparr>listenPc := LTearDown\<rparr>)"
| listen_exit:
    "alive s \<Longrightarrow> listenPc s = LTearDown \<Longrightarrow> life_step s (s\<lparr>listenPc := LExited, wg := wg s - 1\<rparr>)"
| sub_success:
    "alive s \<Longrightarrow> subscription s = SubRequested \<Longrightarrow>
     life_step s (s\<lparr>subscription := SubConfirmed, successes := Suc (successes s), subSending := Suc (subSending s)\<rparr>)"
| sub_refused:
    "alive s \<Longrightarrow> subscription s = SubRequested \<Longrightarrow> life_step s (s\<lparr>subscription := SubRefused\<rparr>)"
| sub_retry:
    "alive s \<Longrightarrow> subscription s = SubRefused \<Longrightarrow> q = SubRequested \<or> q = SubAbandoned \<Longrightarrow>
     life_step s (s\<lparr>subscription := q\<rparr>)"
| sub_again:
    "alive s \<Longrightarrow> subscription s = SubConfirmed \<or> subscription s = SubAbandoned \<Longrightarrow> listenPc s \<noteq> LExited \<Longrightarrow>
     life_step s (s\<lparr>subscription := SubRequested\<rparr>)"
| start_processor:
    "alive s \<Longrightarrow> caller s = InStart \<Longrightarrow> chan_recv (procReady s) = Some (u, c) \<Longrightarrow>
     life_step s (s\<lparr>caller := AwaitWatcher, procReady := c\<rparr>)"
| start_watcher:
    "alive s \<Longrightarrow> caller s = AwaitWatcher \<Longrightarrow> chan_recv (watcherReady s) = Some (ok, c) \<Longrightarrow>
     life_step s (s\<lparr>caller := (if ok then RunningServer else StartFailed), watcherReady := c\<rparr>)"
| stop_bind:
    "alive s \<Longrightarrow> caller s = RunningServer \<or> caller s = StartFailed \<Longrightarrow>
     life_step s (s\<lparr>caller := StopSocket, bindClosed := True\<rparr>)"
| stop_socket:
    "alive s \<Longrightarrow> caller s = StopSocket \<Longrightarrow> life_step s (s\<lparr>caller := StopConn, socketOpen := False\<rparr>)"
| stop_conn:
    "alive s \<Longrightarrow> caller s = StopConn \<Longrightarrow> life_step s (s\<lparr>caller := StopSend, connNil := True\<rparr>)"
| stop_send:
    "alive s \<Longrightarrow> caller s = StopSend \<Longrightarrow> chan_send () (deallocChan s) = Some c \<Longrightarrow>
     life_step s (s\<lparr>caller := StopClose, deallocChan := c\<rparr>)"
| stop_close:
    "alive s \<Longrightarrow> caller s = StopClose \<Longrightarrow> chan_close (doneChan s) = Return c \<Longrightarrow>
     life_step s (s\<lparr>caller := StopWait, doneChan := c\<rparr>)"
| stop_wait:
    "alive s \<Longrightarrow> caller s = StopWait \<Longrightarrow> wg s = 0 \<Longrightarrow> life_step s (s\<lparr>caller := Stopped\<rparr>)"
| consume:
    "alive s \<Longrightarrow> chan_recv (deallocChan s) = Some (u, c) \<Longrightarrow> life_step s (s\<lparr>deallocChan := c\<rparr>)"

text \<open>The relation is executable: the successors of a state can be enumerated.\<close>

code_pred life_step .

inductive_cases life_stepE: "life_step s t"

text \<open>After a panic nothing moves.\<close>

lemma life_step_alive: "life_step s t \<Longrightarrow> alive s"
  by (induction rule: life_step.induct)

lemma dead_rests: "life_step\<^sup>*\<^sup>* s t \<Longrightarrow> \<not> alive s \<Longrightarrow> t = s"
  by (induction rule: converse_rtranclp_induct) (auto dest: life_step_alive)

text \<open>The wait group counts the goroutines that have added themselves and not left it.\<close>

definition counted :: "life \<Rightarrow> nat" where
  "counted s =
     (if queryPc s = Looping then 1 else 0) + (if watchPc s \<in> {Counted, Looping} then 1 else 0) +
     (if listenPc s \<in> {LSetup, LFailed, LSubscribing, LSubscribed, LReady, LTearDown} then 1 else 0)"

definition stopping :: "caller \<Rightarrow> bool" where
  "stopping c \<longleftrightarrow> c \<in> {StopSocket, StopConn, StopSend, StopClose, StopWait, Stopped}"

lemma stopping_simps [simp]:
  "\<not> stopping InStart" "\<not> stopping AwaitWatcher" "\<not> stopping RunningServer" "\<not> stopping StartFailed"
  "stopping StopSocket" "stopping StopConn" "stopping StopSend" "stopping StopClose" "stopping StopWait" "stopping Stopped"
  by (simp_all add: stopping_def)

section \<open>The invariant, part by part\<close>

definition count_inv :: "life \<Rightarrow> bool" where
  "count_inv s \<longleftrightarrow> wg s = counted s \<and> queryPc s \<noteq> Counted"

definition flag_inv :: "life \<Rightarrow> bool" where
  "flag_inv s \<longleftrightarrow>
     (bindClosed s \<longleftrightarrow> stopping (caller s)) \<and>
     (isClosed (doneChan s) \<longleftrightarrow> caller s \<in> {StopWait, Stopped}) \<and>
     chanCap (deallocChan s) = 1 \<and> length (waitingVals (deallocChan s)) \<le> 1"

text \<open>\<open>Close\<close>, step by step, and the panic it can cause.\<close>

definition conn_inv :: "life \<Rightarrow> bool" where
  "conn_inv s \<longleftrightarrow>
     (socketOpen s \<longleftrightarrow> \<not> stopping (caller s) \<or> caller s = StopSocket) \<and>
     (connNil s \<longleftrightarrow> stopping (caller s) \<and> caller s \<notin> {StopSocket, StopConn}) \<and>
     (queryPc s \<noteq> Looping \<longrightarrow> \<not> using_conn (queryAt s)) \<and>
     (panicked s = Some NilConn \<longrightarrow> using_conn (queryAt s) \<and> connNil s)"

text \<open>The successes of the subscription are those that still wait and the one \<open>Start\<close> has received.\<close>

fun received :: "listener \<Rightarrow> nat" where
  "received LSubscribed = 1" | "received LReady = 1" | "received LTearDown = 1" | "received LExited = 1"
| "received _ = 0"

definition sub_inv :: "life \<Rightarrow> bool" where
  "sub_inv s \<longleftrightarrow>
     (listenPc s \<in> {LSpawned, LSetup, LFailed} \<longrightarrow> subscription s = NoSubscription \<and> successes s = 0) \<and>
     subSending s + received (listenPc s) = successes s"

definition watch_inv :: "life \<Rightarrow> bool" where
  "watch_inv s \<longleftrightarrow>
     (isClosed (procReady s) \<longleftrightarrow> watchPc s = LoopExited) \<and> chanCap (procReady s) = 1 \<and>
     waitingVals (procReady s) = (if caller s = InStart \<and> watchPc s \<in> {Looping, LoopExited} then [()] else []) \<and>
     (caller s \<noteq> InStart \<longrightarrow> watchPc s \<in> {Looping, LoopExited}) \<and>
     (watchPc s = LoopExited \<longrightarrow> isClosed (doneChan s))"

definition listen_inv :: "life \<Rightarrow> bool" where
  "listen_inv s \<longleftrightarrow>
     chanCap (watcherReady s) = 1 \<and>
     waitingVals (watcherReady s) =
       (if caller s \<in> {InStart, AwaitWatcher} \<and> listenPc s \<notin> {LSpawned, LSetup, LSubscribing, LSubscribed}
        then [listenPc s \<noteq> LFailed] else []) \<and>
     (caller s \<notin> {InStart, AwaitWatcher} \<longrightarrow> listenPc s \<notin> {LSpawned, LSetup, LSubscribing, LSubscribed}) \<and>
     (listenPc s \<in> {LTearDown, LExited} \<longrightarrow> isClosed (doneChan s)) \<and>
     (caller s = RunningServer \<longrightarrow> listenPc s \<noteq> LFailed) \<and>
     (caller s = StartFailed \<longrightarrow> listenPc s = LFailed)"

definition life_inv :: "life \<Rightarrow> bool" where
  "life_inv s \<longleftrightarrow> count_inv s \<and> flag_inv s \<and> conn_inv s \<and> sub_inv s \<and> watch_inv s \<and> listen_inv s"

lemma chan_send_Some: "chan_send x c = Some c' \<longleftrightarrow>
    length (waitingVals c) < chanCap c \<and> c' = c\<lparr>waitingVals := waitingVals c @ [x]\<rparr>"
  by (auto simp: chan_send_def)

lemma chan_recv_Some: "chan_recv c = Some (x, c') \<longleftrightarrow>
    (\<exists>xs. waitingVals c = x # xs \<and> c' = c\<lparr>waitingVals := xs\<rparr>)"
  by (auto simp: chan_recv_def split: list.splits)

lemma chan_close_Return: "chan_close c = Return c' \<longleftrightarrow> \<not> isClosed c \<and> c' = c\<lparr>isClosed := True\<rparr>"
  by (auto simp: chan_close_def)

lemmas chan_some = chan_send_Some chan_recv_Some chan_close_Return

lemma count_inv_step: "life_step s t \<Longrightarrow> count_inv s \<Longrightarrow> count_inv t"
  by (induction rule: life_step.induct) (auto simp: count_inv_def counted_def)

lemma flag_inv_step: "life_step s t \<Longrightarrow> flag_inv s \<Longrightarrow> flag_inv t"
  by (induction rule: life_step.induct) (auto simp: flag_inv_def chan_some)

lemma conn_inv_step: "life_step s t \<Longrightarrow> conn_inv s \<Longrightarrow> conn_inv t"
  by (induction rule: life_step.induct) (auto simp: conn_inv_def using_conn_def)

lemma sub_inv_step: "life_step s t \<Longrightarrow> sub_inv s \<Longrightarrow> sub_inv t"
  by (induction rule: life_step.induct) (simp_all add: sub_inv_def, auto)

lemma watch_inv_step: "life_step s t \<Longrightarrow> watch_inv s \<Longrightarrow> watch_inv t"
  by (induction rule: life_step.induct) (auto simp: watch_inv_def chan_some split: if_splits)

lemma listen_inv_step: "life_step s t \<Longrightarrow> listen_inv s \<Longrightarrow> listen_inv t"
  by (induction rule: life_step.induct) (auto simp: listen_inv_def chan_some split: if_splits)

lemma life_inv_step: "life_step s t \<Longrightarrow> life_inv s \<Longrightarrow> life_inv t"
  unfolding life_inv_def
  using count_inv_step flag_inv_step conn_inv_step sub_inv_step watch_inv_step listen_inv_step by simp

lemma life_inv_init: "life_inv init_life"
  by (simp add: life_inv_def count_inv_def flag_inv_def conn_inv_def sub_inv_def watch_inv_def listen_inv_def
      init_life_def counted_def make_chan_def using_conn_def)

lemma life_inv_reachable: "life_step\<^sup>*\<^sup>* init_life s \<Longrightarrow> life_inv s"
  by (induction rule: rtranclp_induct) (auto simp: life_inv_init intro: life_inv_step)

section \<open>What Stop leaves behind\<close>

definition stopped_inv :: "life \<Rightarrow> bool" where
  "stopped_inv s \<longleftrightarrow> (caller s = Stopped \<longrightarrow> watchPc s = LoopExited \<and> listenPc s = LExited)"

lemma stopped_inv_step: "life_step s t \<Longrightarrow> life_inv s \<Longrightarrow> stopped_inv s \<Longrightarrow> stopped_inv t"
proof (induction rule: life_step.induct)
  case (stop_wait s)
  then have "counted s = 0" "listenPc s \<notin> {LSpawned, LSetup, LSubscribing, LSubscribed}" "watchPc s \<in> {Looping, LoopExited}"
    by (auto simp: life_inv_def count_inv_def listen_inv_def watch_inv_def)
  then show ?case
    by (cases "listenPc s") (auto simp: stopped_inv_def counted_def split: if_splits)
qed (auto simp: stopped_inv_def)

lemma stopped_inv_reachable: "life_step\<^sup>*\<^sup>* init_life s \<Longrightarrow> life_inv s \<and> stopped_inv s"
proof (induction rule: rtranclp_induct)
  case base
  show ?case by (simp add: life_inv_init) (simp add: stopped_inv_def init_life_def)
next
  case (step s t)
  then show ?case by (blast intro: life_inv_step stopped_inv_step)
qed

section \<open>Every run makes finitely many moves\<close>

text \<open>
  The work that is left, by program counter. A step of a goroutine or of the caller either is
  one of the idle turns of a loop (a query, a file event, a message, a consumer, the answers of the
  broker) or uses up work.
\<close>

fun caller_work :: "caller \<Rightarrow> nat" where
  "caller_work InStart = 8" | "caller_work AwaitWatcher = 7" | "caller_work RunningServer = 6"
| "caller_work StartFailed = 6" | "caller_work StopSocket = 5" | "caller_work StopConn = 4"
| "caller_work StopSend = 3" | "caller_work StopClose = 2" | "caller_work StopWait = 1" | "caller_work Stopped = 0"

fun looper_work :: "looper \<Rightarrow> nat" where
  "looper_work Spawned = 3" | "looper_work Counted = 2" | "looper_work Looping = 1"
| "looper_work LoopExited = 0"

fun listener_work :: "listener \<Rightarrow> nat" where
  "listener_work LSpawned = 6" | "listener_work LSetup = 5" | "listener_work LSubscribing = 4"
| "listener_work LSubscribed = 3" | "listener_work LReady = 2"
| "listener_work LTearDown = 1" | "listener_work LFailed = 0" | "listener_work LExited = 0"

definition work :: "life \<Rightarrow> nat" where
  "work s = caller_work (caller s) + looper_work (queryPc s) + looper_work (watchPc s) +
     listener_work (listenPc s)"

definition program_counters :: "life \<Rightarrow> caller \<times> looper \<times> looper \<times> listener" where
  "program_counters s = (caller s, queryPc s, watchPc s, listenPc s)"

lemma work_step:
  "life_step s t \<Longrightarrow> program_counters t = program_counters s \<or> work t < work s"
  by (induction rule: life_step.induct) (auto simp: work_def program_counters_def)

text \<open>So the control points of a run come to rest.\<close>

interpretation life_run: measured_system life_step program_counters work
  by unfold_locales (use work_step in \<open>auto simp: work_def program_counters_def\<close>)

section \<open>Runs with a given outcome\<close>

definition running_life :: life where
  "running_life = \<lparr>caller = RunningServer, queryPc = Looping, queryAt = QTop, watchPc = Looping, listenPc = LReady,
     subscription = SubConfirmed, successes = 1, subSending = 0, wg = 3,
     procReady = make_chan 1, watcherReady = make_chan 1, bindClosed = False, socketOpen = True, connNil = False,
     doneChan = make_chan 1, deallocChan = make_chan 1, panicked = None\<rparr>"

definition failed_life :: life where
  "failed_life = \<lparr>caller = StartFailed, queryPc = Looping, queryAt = QTop, watchPc = Looping, listenPc = LFailed,
     subscription = NoSubscription, successes = 0, subSending = 0, wg = 3,
     procReady = make_chan 1, watcherReady = make_chan 1, bindClosed = False, socketOpen = True, connNil = False,
     doneChan = make_chan 1, deallocChan = make_chan 1, panicked = None\<rparr>"

text \<open>\<open>Stop\<close> has returned before the query loop added itself to the wait group.\<close>

definition overtaken_life :: life where
  "overtaken_life = \<lparr>caller = Stopped, queryPc = Looping, queryAt = QTop, watchPc = LoopExited, listenPc = LExited,
     subscription = SubConfirmed, successes = 1, subSending = 0, wg = 1,
     procReady = (make_chan 1)\<lparr>isClosed := True\<rparr>, watcherReady = make_chan 1, bindClosed = True,
     socketOpen = False, connNil = True,
     doneChan = (make_chan 1)\<lparr>isClosed := True\<rparr>, deallocChan = (make_chan 1)\<lparr>waitingVals := [()]\<rparr>, panicked = None\<rparr>"

lemma sample_alive [simp]:
  "panicked running_life = None" "panicked failed_life = None" "panicked overtaken_life = None"
  by (simp_all add: running_life_def failed_life_def overtaken_life_def)

lemma life_first: "life_step s t \<Longrightarrow> life_step\<^sup>*\<^sup>* t u \<Longrightarrow> life_step\<^sup>*\<^sup>* s u"
  by (rule converse_rtranclp_into_rtranclp)

lemma life_last: "s = t \<Longrightarrow> life_step\<^sup>*\<^sup>* s t"
  by simp

lemmas life_eval = init_life_def make_chan_def chan_send_def chan_recv_def chan_close_def

lemma running_reachable: "life_step\<^sup>*\<^sup>* init_life running_life"
  apply (rule life_first, rule query_add, simp add: life_eval, simp add: life_eval)
  apply (rule life_first, rule watch_add, simp add: life_eval, simp add: life_eval)
  apply (rule life_first, rule watch_ready, simp add: life_eval, simp add: life_eval, simp add: life_eval)
  apply (rule life_first, rule listen_add, simp add: life_eval, simp add: life_eval)
  apply (rule life_first, rule listen_connect, simp add: life_eval, simp add: life_eval)
  apply (rule life_first, rule sub_success, simp add: life_eval, simp add: life_eval)
  apply (rule life_first, rule listen_subscribed, simp add: life_eval, simp add: life_eval, simp add: life_eval)
  apply (rule life_first, rule listen_ready, simp add: life_eval, simp add: life_eval, simp add: life_eval)
  apply (rule life_first, rule start_processor, simp add: life_eval, simp add: life_eval, simp add: life_eval)
  apply (rule life_first, rule start_watcher, simp add: life_eval, simp add: life_eval, simp add: life_eval)
  apply (rule life_last, simp add: running_life_def life_eval)
  done

lemma failed_reachable: "life_step\<^sup>*\<^sup>* init_life failed_life"
  apply (rule life_first, rule query_add, simp add: life_eval, simp add: life_eval)
  apply (rule life_first, rule watch_add, simp add: life_eval, simp add: life_eval)
  apply (rule life_first, rule watch_ready, simp add: life_eval, simp add: life_eval, simp add: life_eval)
  apply (rule life_first, rule listen_add, simp add: life_eval, simp add: life_eval)
  apply (rule life_first, rule listen_fail, simp add: life_eval, simp add: life_eval, simp add: life_eval)
  apply (rule life_first, rule start_processor, simp add: life_eval, simp add: life_eval, simp add: life_eval)
  apply (rule life_first, rule start_watcher [where ok = False], simp add: life_eval, simp add: life_eval, simp add: life_eval)
  apply (rule life_last, simp add: failed_life_def life_eval)
  done

lemma overtaken_reachable: "life_step\<^sup>*\<^sup>* init_life overtaken_life"
  apply (rule life_first, rule watch_add, simp add: life_eval, simp add: life_eval)
  apply (rule life_first, rule watch_ready, simp add: life_eval, simp add: life_eval, simp add: life_eval)
  apply (rule life_first, rule listen_add, simp add: life_eval, simp add: life_eval)
  apply (rule life_first, rule listen_connect, simp add: life_eval, simp add: life_eval)
  apply (rule life_first, rule sub_success, simp add: life_eval, simp add: life_eval)
  apply (rule life_first, rule listen_subscribed, simp add: life_eval, simp add: life_eval, simp add: life_eval)
  apply (rule life_first, rule listen_ready, simp add: life_eval, simp add: life_eval, simp add: life_eval)
  apply (rule life_first, rule start_processor, simp add: life_eval, simp add: life_eval, simp add: life_eval)
  apply (rule life_first, rule start_watcher, simp add: life_eval, simp add: life_eval, simp add: life_eval)
  apply (rule life_first, rule stop_bind, simp add: life_eval, simp add: life_eval)
  apply (rule life_first, rule stop_socket, simp add: life_eval, simp add: life_eval)
  apply (rule life_first, rule stop_conn, simp add: life_eval, simp add: life_eval)
  apply (rule life_first, rule stop_send, simp add: life_eval, simp add: life_eval, simp add: life_eval)
  apply (rule life_first, rule stop_close, simp add: life_eval, simp add: life_eval, simp add: life_eval)
  apply (rule life_first, rule watch_exit, simp add: life_eval, simp add: life_eval, simp add: life_eval, simp add: life_eval)
  apply (rule life_first, rule listen_done, simp add: life_eval, simp add: life_eval, simp add: life_eval)
  apply (rule life_first, rule listen_exit, simp add: life_eval, simp add: life_eval)
  apply (rule life_first, rule stop_wait, simp add: life_eval, simp add: life_eval, simp add: life_eval)
  apply (rule life_first, rule query_add, simp add: life_eval, simp add: life_eval)
  apply (rule life_last, simp add: overtaken_life_def life_eval)
  done

lemma failed_forever: "life_step\<^sup>*\<^sup>* s t \<Longrightarrow> listenPc s = LFailed \<Longrightarrow> listenPc t = LFailed"
proof (induction rule: rtranclp_induct)
  case (step t u)
  then show ?case by (elim life_stepE) auto
qed

text \<open>The steps in which nobody receives from \<open>chanDeallocated\<close>.\<close>

definition unread_step :: "life \<Rightarrow> life \<Rightarrow> bool" where
  "unread_step s t \<longleftrightarrow> life_step s t \<and>
     length (waitingVals (deallocChan s)) \<le> length (waitingVals (deallocChan t))"

lemma unread_stuck:
  assumes "unread_step s t" "caller s = StopSend" "length (waitingVals (deallocChan s)) = chanCap (deallocChan s)"
  shows "caller t = StopSend \<and> length (waitingVals (deallocChan t)) = chanCap (deallocChan t)"
proof -
  from assms(1) have "life_step s t" "length (waitingVals (deallocChan s)) \<le> length (waitingVals (deallocChan t))"
    by (auto simp: unread_step_def)
  then show ?thesis using assms(2,3) by (elim life_stepE) (auto simp: chan_some)
qed

section \<open>Properties\<close>

text \<open>C18. After \<open>Start\<close> has returned the error of the event watcher, \<open>Stop\<close> never returns: the listener
  left without \<open>wg.Done()\<close>, so the wait group stays positive.\<close>

theorem stop_hangs_after_failed_start:
  assumes "life_step\<^sup>*\<^sup>* init_life s" and "caller s = StartFailed" and "life_step\<^sup>*\<^sup>* s t"
  shows "1 \<le> wg t \<and> caller t \<noteq> Stopped"
proof -
  have inv: "life_inv s" using assms(1) by (rule life_inv_reachable)
  with assms(2) have "listenPc s = LFailed" by (simp add: life_inv_def listen_inv_def)
  with assms(3) have failed: "listenPc t = LFailed" by (rule failed_forever)
  have "life_inv t \<and> stopped_inv t" using assms(1,3) by (intro stopped_inv_reachable) simp
  with failed show ?thesis
    by (auto simp: life_inv_def count_inv_def counted_def stopped_inv_def)
qed

theorem stop_hangs_after_failed_start_witness:
  "1 \<le> wg failed_life \<and> caller failed_life \<noteq> Stopped"
  by (rule stop_hangs_after_failed_start [OF failed_reachable])
    (simp_all add: failed_life_def)

text \<open>C19. The synchronisation is sound on every reachable state: no channel is closed twice, no goroutine
  leaves a wait group that is zero, \<open>Start\<close> returns nil only when the watcher and the listener are ready,
  and when \<open>Stop\<close> has returned they have left their loops; only the query loop may still be counted.\<close>

theorem life_sound:
  assumes "life_step\<^sup>*\<^sup>* init_life s"
  shows "(watchPc s = Looping \<longrightarrow> chan_close (procReady s) \<noteq> Panic CloseOfClosedChannel) \<and>
    (caller s = StopClose \<longrightarrow> chan_close (doneChan s) \<noteq> Panic CloseOfClosedChannel) \<and>
    (queryPc s = Looping \<or> watchPc s = Looping \<or> listenPc s = LTearDown \<longrightarrow> 0 < wg s) \<and>
    (caller s = RunningServer \<longrightarrow> watchPc s = Looping \<and> listenPc s = LReady) \<and>
    (caller s = Stopped \<longrightarrow> watchPc s = LoopExited \<and> listenPc s = LExited \<and> bindClosed s \<and>
       wg s = (if queryPc s = Looping then 1 else 0))"
proof -
  have "life_inv s \<and> stopped_inv s" using assms by (rule stopped_inv_reachable)
  then have inv: "count_inv s" "flag_inv s" "watch_inv s" "listen_inv s" "stopped_inv s"
    by (simp_all add: life_inv_def)
  show ?thesis
  proof (intro conjI)
    show "watchPc s = Looping \<longrightarrow> chan_close (procReady s) \<noteq> Panic CloseOfClosedChannel"
      using inv(3) by (simp add: watch_inv_def chan_close_def)
    show "caller s = StopClose \<longrightarrow> chan_close (doneChan s) \<noteq> Panic CloseOfClosedChannel"
      using inv(2) by (simp add: flag_inv_def chan_close_def)
    show "queryPc s = Looping \<or> watchPc s = Looping \<or> listenPc s = LTearDown \<longrightarrow> 0 < wg s"
      using inv(1) by (auto simp: count_inv_def counted_def)
    show "caller s = RunningServer \<longrightarrow> watchPc s = Looping \<and> listenPc s = LReady"
      using inv(2-4) by (cases "listenPc s") (auto simp: flag_inv_def watch_inv_def listen_inv_def)
    show "caller s = Stopped \<longrightarrow> watchPc s = LoopExited \<and> listenPc s = LExited \<and> bindClosed s \<and>
       wg s = (if queryPc s = Looping then 1 else 0)"
      using inv(1,2,5) by (auto simp: stopped_inv_def count_inv_def counted_def flag_inv_def)
  qed
qed

theorem life_sound_witness:
  "watchPc overtaken_life = LoopExited \<and> listenPc overtaken_life = LExited \<and> wg overtaken_life = 1"
  using life_sound [OF overtaken_reachable] by (simp add: overtaken_life_def)

text \<open>\<open>Stop\<close> can return while the query loop of \<open>Start\<close> is still to run.\<close>

theorem stop_overtakes_query_loop:
  "\<exists>s. life_step\<^sup>*\<^sup>* init_life s \<and> caller s = Stopped \<and> queryPc s = Looping"
  by (intro exI conjI) (rule overtaken_reachable, simp_all add: overtaken_life_def)

text \<open>\<open>Stop\<close> does not get past its send while nobody reads a full \<open>chanDeallocated\<close>.\<close>

theorem stop_blocks_unread:
  assumes "unread_step\<^sup>*\<^sup>* s t" "caller s = StopSend" "length (waitingVals (deallocChan s)) = chanCap (deallocChan s)"
  shows "caller t = StopSend"
proof -
  have "caller t = StopSend \<and> length (waitingVals (deallocChan t)) = chanCap (deallocChan t)"
    using assms(1) by (induction rule: rtranclp_induct) (use assms(2,3) unread_stuck in auto)
  then show ?thesis by simp
qed

section \<open>Close and the query loop\<close>

text \<open>A loop that is not about to use \<open>b.conn\<close> when the binding is closed never will be.\<close>

lemma not_using_step:
  "life_step s t \<Longrightarrow> bindClosed s \<and> \<not> using_conn (queryAt s) \<and> panicked s \<noteq> Some NilConn \<Longrightarrow>
   bindClosed t \<and> \<not> using_conn (queryAt t) \<and> panicked t \<noteq> Some NilConn"
  by (induction rule: life_step.induct) (auto simp: using_conn_def)

lemma not_using_later:
  "life_step\<^sup>*\<^sup>* s t \<Longrightarrow> bindClosed s \<and> \<not> using_conn (queryAt s) \<and> panicked s \<noteq> Some NilConn \<Longrightarrow>
   panicked t \<noteq> Some NilConn"
proof -
  assume "life_step\<^sup>*\<^sup>* s t" "bindClosed s \<and> \<not> using_conn (queryAt s) \<and> panicked s \<noteq> Some NilConn"
  then have "bindClosed t \<and> \<not> using_conn (queryAt t) \<and> panicked t \<noteq> Some NilConn"
    by (induction rule: rtranclp_induct) (use not_using_step in blast)+
  then show ?thesis by simp
qed

text \<open>\<open>Close\<close> itself cannot be stopped, so it overtakes a loop that is.\<close>

lemma using_panics:
  assumes "alive s" "queryPc s = Looping" "using_conn (queryAt s)" "caller s \<in> {StopSocket, StopConn} \<or> connNil s"
  shows "\<exists>t. life_step\<^sup>*\<^sup>* s t \<and> panicked t = Some NilConn"
proof -
  have nil: "\<exists>t. life_step\<^sup>*\<^sup>* s t \<and> panicked t = Some NilConn"
    if "alive s" "queryPc s = Looping" "using_conn (queryAt s)" "connNil s" for s
    using conn_panics [OF that] by (intro exI [of _ "s\<lparr>panicked := Some NilConn\<rparr>"]) auto
  have conn: "\<exists>t. life_step\<^sup>*\<^sup>* s t \<and> panicked t = Some NilConn"
    if "alive s" "queryPc s = Looping" "using_conn (queryAt s)" "caller s = StopConn" for s
    using nil [of "s\<lparr>caller := StopSend, connNil := True\<rparr>"] stop_conn [OF that(1,4)] that
    by (auto intro: life_first)
  from assms(4) consider (socket) "caller s = StopSocket" | (conn) "caller s = StopConn" | (nil) "connNil s"
    by auto
  then show ?thesis
  proof cases
    case socket
    show ?thesis
      using conn [of "s\<lparr>caller := StopConn, socketOpen := False\<rparr>"] stop_socket [OF assms(1) socket] assms(1-3)
      by (auto intro: life_first)
  qed (use conn nil assms(1-3) in blast)+
qed

text \<open>\<open>Stop\<close> has begun between the check of \<open>Read\<close> and its use of the connection.\<close>

definition caught_life :: life where
  "caught_life = running_life\<lparr>queryAt := QReadChecked, caller := StopSocket, bindClosed := True\<rparr>"

lemma caught_reachable: "life_step\<^sup>*\<^sup>* init_life caught_life"
proof -
  have "life_step running_life (running_life\<lparr>queryAt := QReadChecked\<rparr>)"
    using read_check [of running_life] by (simp add: running_life_def)
  moreover have "life_step (running_life\<lparr>queryAt := QReadChecked\<rparr>) caught_life"
    using stop_bind [of "running_life\<lparr>queryAt := QReadChecked\<rparr>"] by (simp add: caught_life_def running_life_def)
  ultimately show ?thesis using running_reachable by (meson rtranclp.rtrancl_into_rtrancl)
qed

text \<open>C20. When \<open>Stop\<close> kills the process. From the moment \<open>Close\<close> has closed the binding's \<open>done\<close>, the query loop can still
  panic on the nil connection exactly if it is then between a check of \<open>done\<close>, in \<open>Read\<close> or in \<open>Write\<close>, and the use
  of \<open>b.conn\<close> after it; a loop that is anywhere else, or has not begun, never will.\<close>

theorem close_panic_window:
  assumes "life_step\<^sup>*\<^sup>* init_life s" and "alive s" and "bindClosed s"
  shows "(\<exists>t. life_step\<^sup>*\<^sup>* s t \<and> panicked t = Some NilConn) \<longleftrightarrow> queryPc s = Looping \<and> using_conn (queryAt s)"
proof -
  have "life_inv s" using assms(1) by (rule life_inv_reachable)
  then have inv: "conn_inv s" "flag_inv s" by (simp_all add: life_inv_def)
  have "caller s \<in> {StopSocket, StopConn} \<or> connNil s"
    using inv assms(3) unfolding conn_inv_def flag_inv_def by blast
  moreover have "using_conn (queryAt s) \<longrightarrow> queryPc s = Looping" using inv(1) unfolding conn_inv_def by blast
  moreover have "using_conn (queryAt s)" if "life_step\<^sup>*\<^sup>* s t" "panicked t = Some NilConn" for t
    using not_using_later [OF that(1)] that(2) assms(2,3) by auto
  ultimately show ?thesis using using_panics [OF assms(2)] by blast
qed

theorem close_panic_window_witness:
  "\<exists>t. life_step\<^sup>*\<^sup>* caught_life t \<and> panicked t = Some NilConn"
  using close_panic_window [OF caught_reachable]
  by (simp add: caught_life_def running_life_def using_conn_def)

end
