(* ===== verification/Gsh_Liveness.thy ===== *)
theory Gsh_Liveness
  imports Gsh_Shutdown
begin

text \<open>
  What happens eventually when a game server is started and stopped: the infinite runs of the
  system of \<open>Gsh_Shutdown\<close> under every fair schedule. The assumptions on the schedule are those of
  the Go runtime: a goroutine that can pass a point of its program again and again passes it
  (the waiting senders and receivers of a channel are served in turn, and a \<open>select\<close> with
  several ready cases does not always choose the same). Of the world around the process it is
  assumed that the calls that make the client, subscribe, connect and close it return, that a read or a write
  of the query loop returns once the binding is closed (its deadline passes, or the socket is closed), and
  that the game reads \<open>chanDeallocated\<close>. Nothing is
  assumed of the broker, which may refuse the subscription for ever or not answer at all, and whether the game
  calls \<open>Stop\<close> is left open. A panic is not excluded: it ends the run, which then rests in that state.
\<close>

section \<open>Fair runs\<close>

datatype goroutine = TheCaller | QueryLoop | ConfigWatcher | EventListener

datatype location = AtCaller caller | AtLoop looper | AtListener listener

fun location_of :: "goroutine \<Rightarrow> life \<Rightarrow> location" where
  "location_of TheCaller s = AtCaller (caller s)"
| "location_of QueryLoop s = AtLoop (queryPc s)"
| "location_of ConfigWatcher s = AtLoop (watchPc s)"
| "location_of EventListener s = AtListener (listenPc s)"

text \<open>The game does not have to call \<open>Stop\<close>.\<close>

definition able :: "goroutine \<Rightarrow> life \<Rightarrow> bool" where
  "able g s \<longleftrightarrow> can_change life_step (location_of g) s \<and>
     (g = TheCaller \<longrightarrow> caller s \<notin> {RunningServer, StartFailed})"

definition fair_life :: "(nat \<Rightarrow> life) \<Rightarrow> bool" where
  "fair_life r \<longleftrightarrow> is_run life_step r \<and> (\<forall>g. strongly_fair (able g) (location_of g) r) \<and>
     weakly_fair (\<lambda>s. alive s \<and> queryPc s = Looping \<and> bindClosed s) queryAt r \<and>
     weakly_fair (\<lambda>s. alive s \<and> waitingVals (deallocChan s) \<noteq> []) (\<lambda>s. waitingVals (deallocChan s)) r"

lemma location_of_counters:
  "program_counters t = program_counters s \<Longrightarrow> location_of g t = location_of g s"
  by (cases g) (simp_all add: program_counters_def)

section \<open>Somebody can always move\<close>

text \<open>The goroutine whose turn it is, by the control points alone.\<close>

definition mover :: "life \<Rightarrow> goroutine" where
  "mover s =
     (if caller s = InStart then (if watchPc s \<in> {Spawned, Counted} then ConfigWatcher else TheCaller)
      else if caller s = AwaitWatcher then (if listenPc s \<in> {LSpawned, LSetup, LSubscribing, LSubscribed} then EventListener
         else TheCaller)
      else if caller s \<in> {StopSocket, StopConn, StopSend, StopClose} then TheCaller
      else if queryPc s \<noteq> LoopExited then QueryLoop
      else if watchPc s \<noteq> LoopExited then ConfigWatcher
      else if listenPc s \<noteq> LExited then EventListener
      else TheCaller)"

text \<open>
  Where the system may come to rest: after a panic, in the game, at the end, in the \<open>Stop\<close> after a failed
  start, and in a \<open>Start\<close> whose subscription nobody has confirmed.
\<close>

definition unconfirmed :: "life \<Rightarrow> bool" where
  "unconfirmed s \<longleftrightarrow> caller s = AwaitWatcher \<and> listenPc s = LSubscribing \<and> subSending s = 0"

definition settled :: "life \<Rightarrow> bool" where
  "settled s \<longleftrightarrow> caller s \<in> {RunningServer, StartFailed} \<or> caller s = Stopped \<and> queryPc s = LoopExited \<or>
     stopping (caller s) \<and> listenPc s = LFailed"

definition at_rest :: "life \<Rightarrow> bool" where
  "at_rest s \<longleftrightarrow> \<not> alive s \<or> unconfirmed s \<or> settled s"

lemma mover_counters: "program_counters t = program_counters s \<Longrightarrow> mover t = mover s"
  by (simp add: program_counters_def mover_def)

lemma settled_counters: "program_counters t = program_counters s \<Longrightarrow> settled t = settled s"
  by (simp add: program_counters_def settled_def)

lemma able_caller:
  "life_step s t \<Longrightarrow> caller t \<noteq> caller s \<Longrightarrow> caller s \<notin> {RunningServer, StartFailed} \<Longrightarrow> able TheCaller s"
  unfolding able_def by (auto intro: can_changeI)

lemma able_query: "life_step s t \<Longrightarrow> queryPc t \<noteq> queryPc s \<Longrightarrow> able QueryLoop s"
  unfolding able_def by (auto intro: can_changeI)

lemma able_watcher: "life_step s t \<Longrightarrow> watchPc t \<noteq> watchPc s \<Longrightarrow> able ConfigWatcher s"
  unfolding able_def by (auto intro: can_changeI)

lemma able_listener: "life_step s t \<Longrightarrow> listenPc t \<noteq> listenPc s \<Longrightarrow> able EventListener s"
  unfolding able_def by (auto intro: can_changeI)

lemma watcher_starts:
  assumes "alive s" "life_inv s" "watchPc s \<in> {Spawned, Counted}"
  shows "able ConfigWatcher s"
proof (cases "watchPc s = Spawned")
  case True
  from able_watcher [OF watch_add [OF assms(1) this]] True show ?thesis by simp
next
  case False
  with assms obtain c where c: "watchPc s = Counted" "chan_send () (procReady s) = Some c"
    by (auto simp: life_inv_def watch_inv_def chan_send_Some split: if_splits)
  from able_watcher [OF watch_ready [OF assms(1) this]] c(1) show ?thesis by simp
qed

lemma listener_starts:
  assumes "alive s" "life_inv s" "listenPc s \<in> {LSpawned, LSetup, LSubscribed} \<or> listenPc s = LSubscribing \<and> subSending s \<noteq> 0"
  shows "able EventListener s"
proof -
  from assms(3) consider (spawned) "listenPc s = LSpawned" | (connects) "listenPc s = LSetup"
    | (waits) n where "listenPc s = LSubscribing" "subSending s = Suc n" | (subscribed) "listenPc s = LSubscribed"
    using not0_implies_Suc by blast
  then show ?thesis
  proof cases
    case spawned
    from able_listener [OF listen_add [OF assms(1) this]] spawned show ?thesis by simp
  next
    case connects
    from able_listener [OF listen_connect [OF assms(1) this]] connects show ?thesis by simp
  next
    case waits
    from able_listener [OF listen_subscribed [OF assms(1) this]] waits(1) show ?thesis by simp
  next
    case subscribed
    with assms(2) obtain c where "chan_send True (watcherReady s) = Some c"
      by (auto simp: life_inv_def listen_inv_def chan_send_Some split: if_splits)
    from able_listener [OF listen_ready [OF assms(1) subscribed this]] subscribed show ?thesis by simp
  qed
qed

lemma start_goes_on:
  assumes "alive s" "life_inv s" "caller s \<in> {InStart, AwaitWatcher}" "\<not> unconfirmed s"
  shows "able (mover s) s"
proof (cases "mover s = TheCaller")
  case caller: True
  show ?thesis
  proof (cases "caller s = InStart")
    case True
    with caller assms obtain u c where c: "chan_recv (procReady s) = Some (u, c)"
      by (cases "watchPc s") (auto simp: mover_def life_inv_def watch_inv_def chan_recv_Some)
    from able_caller [OF start_processor [OF assms(1) True this]] True caller show ?thesis by simp
  next
    case False
    with caller assms obtain ok c where c: "caller s = AwaitWatcher" "chan_recv (watcherReady s) = Some (ok, c)"
      by (cases "listenPc s") (auto simp: mover_def life_inv_def listen_inv_def chan_recv_Some)
    from able_caller [OF start_watcher [OF assms(1) this]] c(1) caller show ?thesis by simp
  qed
next
  case False
  with assms watcher_starts listener_starts show ?thesis
    by (auto simp: mover_def unconfirmed_def split: if_splits)
qed

lemma goroutines_leave:
  assumes "alive s" "life_inv s" "caller s \<in> {StopWait, Stopped}" "listenPc s \<noteq> LFailed" "mover s \<noteq> TheCaller"
    and "queryPc s \<noteq> Looping"
  shows "able (mover s) s"
proof -
  from assms(2) have inv: "count_inv s" "flag_inv s" "watch_inv s" "listen_inv s"
    by (simp_all add: life_inv_def)
  have closed: "isClosed (doneChan s)" "queryPc s \<noteq> Counted"
    using inv(1,2) assms(3) by (auto simp: count_inv_def flag_inv_def)
  have started: "caller s \<noteq> InStart" "caller s \<notin> {InStart, AwaitWatcher}" using assms(3) by auto
  have watch: "watchPc s \<in> {Looping, LoopExited}" using inv(3) started(1) unfolding watch_inv_def by blast
  have listen: "listenPc s \<notin> {LSpawned, LSetup, LSubscribing, LSubscribed}"
    using inv(4) started(2) unfolding listen_inv_def by blast
  from assms(3,5) consider (query) "queryPc s \<noteq> LoopExited" "mover s = QueryLoop"
    | (watcher) "watchPc s \<noteq> LoopExited" "mover s = ConfigWatcher"
    | (listener) "listenPc s \<noteq> LExited" "mover s = EventListener"
    by (auto simp: mover_def split: if_splits)
  then show ?thesis
  proof cases
    case query
    with closed(2) assms(6) have "queryPc s = Spawned" by (cases "queryPc s") auto
    from able_query [OF query_add [OF assms(1) this]] this query(2) show ?thesis by simp
  next
    case watcher
    with watch have c: "watchPc s = Looping" by simp
    with inv(3) have "\<not> isClosed (procReady s)" unfolding watch_inv_def by simp
    then obtain c where "chan_close (procReady s) = Return c" by (auto simp: chan_close_Return)
    from able_watcher [OF watch_exit [OF assms(1) c closed(1) this]] c watcher(2) show ?thesis by simp
  next
    case listener
    with assms(4) listen consider (ready) "listenPc s = LReady" | (down) "listenPc s = LTearDown"
      by (cases "listenPc s") auto
    then have "able EventListener s"
    proof cases
      case ready
      from able_listener [OF listen_done [OF assms(1) this closed(1)]] ready show ?thesis by simp
    next
      case down
      from able_listener [OF listen_exit [OF assms(1) this]] down show ?thesis by simp
    qed
    with listener(2) show ?thesis by simp
  qed
qed

lemma stop_goes_on:
  assumes "alive s" "life_inv s" "caller s \<in> {StopSocket, StopConn, StopSend, StopClose, StopWait}"
    and "listenPc s \<noteq> LFailed" "mover s = TheCaller" "caller s = StopSend \<longrightarrow> waitingVals (deallocChan s) = []"
  shows "able TheCaller s"
proof -
  from assms(3) consider (socket) "caller s = StopSocket" | (conn) "caller s = StopConn"
    | (send) "caller s = StopSend" | (close) "caller s = StopClose" | (wait) "caller s = StopWait"
    by auto
  then show ?thesis
  proof cases
    case socket
    from able_caller [OF stop_socket [OF assms(1) socket]] socket show ?thesis by simp
  next
    case conn
    from able_caller [OF stop_conn [OF assms(1) conn]] conn show ?thesis by simp
  next
    case send
    with assms(2,6) obtain c where "chan_send () (deallocChan s) = Some c"
      by (auto simp: life_inv_def flag_inv_def chan_send_Some)
    from able_caller [OF stop_send [OF assms(1) send this]] send show ?thesis by simp
  next
    case close
    with assms(2) obtain c where "chan_close (doneChan s) = Return c"
      by (auto simp: life_inv_def flag_inv_def chan_close_Return)
    from able_caller [OF stop_close [OF assms(1) close this]] close show ?thesis by simp
  next
    case wait
    with assms(2,5) have "wg s = 0"
      by (auto simp: mover_def life_inv_def count_inv_def counted_def split: if_splits)
    from able_caller [OF stop_wait [OF assms(1) wait this]] wait show ?thesis by simp
  qed
qed

lemma mover_able:
  assumes "life_inv s" "stopped_inv s" "\<not> at_rest s" "caller s = StopSend \<longrightarrow> waitingVals (deallocChan s) = []"
    and "mover s = QueryLoop \<longrightarrow> queryPc s \<noteq> Looping"
  shows "able (mover s) s"
proof -
  from assms(3) have alive: "alive s" by (simp add: at_rest_def)
  show ?thesis
  proof (cases "stopping (caller s)")
    case True
    with assms(3) have ok: "listenPc s \<noteq> LFailed" "caller s = Stopped \<longrightarrow> queryPc s \<noteq> LoopExited"
      by (auto simp: at_rest_def settled_def)
    show ?thesis
    proof (cases "mover s = TheCaller")
      case caller: True
      with True ok assms(2) have "caller s \<in> {StopSocket, StopConn, StopSend, StopClose, StopWait}"
        by (auto simp: stopping_def mover_def split: if_splits)
      from stop_goes_on [OF alive assms(1) this ok(1) caller assms(4)] caller show ?thesis by simp
    next
      case False
      with True have "caller s \<in> {StopWait, Stopped}" by (auto simp: stopping_def mover_def)
      moreover from this False assms(5) have "queryPc s \<noteq> Looping" by (auto simp: mover_def split: if_splits)
      ultimately show ?thesis using alive assms(1) ok(1) False by (intro goroutines_leave) auto
    qed
  next
    case False
    with assms(3) have "caller s \<in> {InStart, AwaitWatcher}" by (cases "caller s") (auto simp: at_rest_def settled_def)
    with alive assms(1,3) show ?thesis by (intro start_goes_on) (auto simp: at_rest_def)
  qed
qed

section \<open>The query loop ends\<close>

text \<open>How far a loop whose binding is closed is from finding out.\<close>

fun points_left :: "query_point \<Rightarrow> nat" where
  "points_left QReadChecked = 7" | "points_left QReadArmed = 6" | "points_left QReading = 5"
| "points_left QAnswer = 4" | "points_left QWrite = 3" | "points_left QWriteChecked = 4"
| "points_left QWriteArmed = 3" | "points_left QTop = 2" | "points_left QFailed = 1"

lemma closed_points:
  "life_step s t \<Longrightarrow> bindClosed s \<Longrightarrow> queryAt t = queryAt s \<or> points_left (queryAt t) < points_left (queryAt s)"
  by (induction rule: life_step.induct) auto

lemma closed_loop_leaves:
  assumes "is_run life_step r" "weakly_fair (\<lambda>s. alive s \<and> queryPc s = Looping \<and> bindClosed s) queryAt r"
    and "\<And>j. n \<le> j \<Longrightarrow> bindClosed (r j)" "\<And>j. n \<le> j \<Longrightarrow> alive (r j)"
  shows "\<exists>j\<ge>n. queryPc (r j) \<noteq> Looping"
proof (rule ccontr)
  assume "\<not> (\<exists>j\<ge>n. queryPc (r j) \<noteq> Looping)"
  with assms(3,4) have loop: "\<And>j. n \<le> j \<Longrightarrow> alive (r j) \<and> queryPc (r j) = Looping \<and> bindClosed (r j)" by blast
  let ?left = "\<lambda>j. points_left (queryAt (r j))"
  obtain m where m: "n \<le> m" "\<And>j. n \<le> j \<Longrightarrow> ?left m \<le> ?left j"
    using ex_has_least_nat [of "\<lambda>j. n \<le> j" n ?left] by auto
  have still: "queryAt (r j) = queryAt (r m)" if "m \<le> j" for j
    using that
  proof (induction rule: dec_induct)
    case (step j)
    then have "life_step (r j) (r (Suc j)) \<or> r (Suc j) = r j" using assms(1) by (simp add: is_run_def)
    then have "queryAt (r (Suc j)) = queryAt (r j) \<or> ?left (Suc j) < ?left j"
      using closed_points assms(3) [of j] m(1) step(1) by auto
    moreover have "?left m \<le> ?left (Suc j)" using m step(1) by simp
    ultimately show ?case using step(3) by auto
  qed simp
  from weakly_fair_rest [OF assms(2), of m "queryAt (r m)"] still
  obtain j where "m \<le> j" "\<not> (alive (r j) \<and> queryPc (r j) = Looping \<and> bindClosed (r j))" by metis
  with loop [of j] m(1) show False by simp
qed

section \<open>Every fair run comes to rest\<close>

lemma fair_run: "fair_life r \<Longrightarrow> is_run life_step r"
  by (simp add: fair_life_def)

lemma run_inv:
  assumes "is_run life_step r" "life_step\<^sup>*\<^sup>* init_life (r 0)"
  shows "life_inv (r i) \<and> stopped_inv (r i)"
proof -
  have "life_step\<^sup>*\<^sup>* (r 0) (r i)" by (rule run_reaches [OF assms(1)]) simp
  with assms(2) have "life_step\<^sup>*\<^sup>* init_life (r i)" by simp
  then show ?thesis by (rule stopped_inv_reachable)
qed

text \<open>What stays as it is.\<close>

lemma dead_later: "is_run life_step r \<Longrightarrow> \<not> alive (r i) \<Longrightarrow> i \<le> j \<Longrightarrow> \<not> alive (r j)"
  using dead_rests run_reaches by metis

lemma run_dies:
  assumes "is_run life_step r" "life_step\<^sup>*\<^sup>* init_life (r 0)" "\<not> alive (r n)"
  shows "\<exists>n site. \<forall>j\<ge>n. panicked (r j) = Some site \<and> (site = NilConn \<longrightarrow> using_conn (queryAt (r j)) \<and> connNil (r j))"
proof -
  from assms(3) obtain site where n: "panicked (r n) = Some site" by auto
  have rest: "r j = r n" if "n \<le> j" for j
    using dead_rests [OF run_reaches [OF assms(1) that] assms(3)] .
  have "site = NilConn \<longrightarrow> using_conn (queryAt (r n)) \<and> connNil (r n)"
    using run_inv [OF assms(1,2), of n] n unfolding life_inv_def conn_inv_def by blast
  with n have "panicked (r j) = Some site \<and> (site = NilConn \<longrightarrow> using_conn (queryAt (r j)) \<and> connNil (r j))"
    if "n \<le> j" for j unfolding rest [OF that] by blast
  then show ?thesis by blast
qed

lemma sending_step:
  "life_step s t \<Longrightarrow> listenPc s = LSubscribing \<Longrightarrow> listenPc t = LSubscribing \<Longrightarrow> subSending s \<le> subSending t"
  by (induction rule: life_step.induct) auto

lemma sending_later:
  assumes "is_run life_step r" "\<And>j. n \<le> j \<Longrightarrow> listenPc (r j) = LSubscribing" "n \<le> i" "i \<le> j"
  shows "subSending (r i) \<le> subSending (r j)"
  using assms(4)
proof (induction rule: dec_induct)
  case (step j)
  then have "life_step (r j) (r (Suc j)) \<or> r (Suc j) = r j" using assms(1) by (simp add: is_run_def)
  with sending_step [of "r j" "r (Suc j)"] assms(2) [of j] assms(2) [of "Suc j"] assms(3) step show ?case by auto
qed simp

lemma stopping_step: "life_step s t \<Longrightarrow> stopping (caller s) \<Longrightarrow> stopping (caller t)"
  by (elim life_stepE) auto

text \<open>The control points rest, somebody is not at rest again and again, and could move: a contradiction.\<close>

lemma busy_stuck:
  assumes fair: "fair_life r" and inv: "\<And>j. life_inv (r j) \<and> stopped_inv (r j)"
    and alive: "\<And>j. n \<le> j \<Longrightarrow> alive (r j)"
    and rest: "\<And>j. n \<le> j \<Longrightarrow> program_counters (r j) = program_counters (r n)"
    and busy: "\<And>j. n \<le> j \<Longrightarrow> \<not> at_rest (r j)"
  shows False
proof -
  note run = fair_run [OF fair]
  have still: "location_of g (r j) = location_of g (r n)" "mover (r j) = mover (r n)"
      "caller (r j) = caller (r n)" "queryPc (r j) = queryPc (r n)" if "n \<le> j" for g j
    using location_of_counters [OF rest [OF that]] mover_counters [OF rest [OF that]] rest [OF that]
    unfolding program_counters_def by blast+
  have left: "mover (r n) = QueryLoop \<longrightarrow> queryPc (r n) \<noteq> Looping"
  proof
    assume mover: "mover (r n) = QueryLoop"
    have "caller (r n) \<notin> {RunningServer, StartFailed}" using busy [of n] by (simp add: at_rest_def settled_def)
    with mover have "stopping (caller (r n))"
      unfolding mover_def stopping_def by (cases "caller (r n)") (simp_all split: if_splits)
    then have "bindClosed (r j)" if "n \<le> j" for j
      using inv [of j] unfolding life_inv_def flag_inv_def still(3) [OF that] by blast
    moreover have "weakly_fair (\<lambda>s. alive s \<and> queryPc s = Looping \<and> bindClosed s) queryAt r" using fair by (simp add: fair_life_def)
    ultimately obtain j where "n \<le> j" "queryPc (r j) \<noteq> Looping" using closed_loop_leaves [OF run] alive by blast
    with still(4) [of j] show "queryPc (r n) \<noteq> Looping" by simp
  qed
  have "strongly_fair (able (mover (r n))) (location_of (mover (r n))) r"
    using fair by (simp add: fair_life_def)
  from strongly_fair_rest [OF this, of n "location_of (mover (r n)) (r n)"] still(1)
  obtain m where m: "n \<le> m" "\<And>k. m \<le> k \<Longrightarrow> \<not> able (mover (r n)) (r k)" by metis
  have full: "caller (r k) = StopSend \<and> waitingVals (deallocChan (r k)) \<noteq> []" if "m \<le> k" for k
  proof -
    have k: "n \<le> k" using m(1) that by simp
    from mover_able [of "r k"] inv [of k] busy [OF k] left m(2) [OF that] show ?thesis
      unfolding still(2) [OF k] still(4) [OF k] by blast
  qed
  have same: "waitingVals (deallocChan (r k)) = [()]" if "m \<le> k" for k
  proof -
    have "length (waitingVals (deallocChan (r k))) \<le> 1"
      using inv [of k] by (simp add: life_inv_def flag_inv_def)
    with full [OF that] show ?thesis by (cases "waitingVals (deallocChan (r k))") auto
  qed
  have "weakly_fair (\<lambda>s. alive s \<and> waitingVals (deallocChan s) \<noteq> []) (\<lambda>s. waitingVals (deallocChan s)) r"
    using fair by (simp add: fair_life_def)
  from weakly_fair_rest [OF this, of m "[()]"] same
  obtain j where "m \<le> j" "\<not> (alive (r j) \<and> waitingVals (deallocChan (r j)) \<noteq> [])" by metis
  with same [of j] alive [of j] m(1) show False by simp
qed

text \<open>Being at rest is a matter of the control points, but for the subscription, which is confirmed or not.\<close>

lemma fair_life_rests:
  assumes fair: "fair_life r" and start: "life_step\<^sup>*\<^sup>* init_life (r 0)"
  obtains n where "i \<le> n" "\<And>j. n \<le> j \<Longrightarrow> at_rest (r j)"
proof -
  note run = fair_run [OF fair]
  obtain n where n: "i \<le> n" "\<And>j. n \<le> j \<Longrightarrow> program_counters (r j) = program_counters (r n)"
    using life_run.run_settles [OF run, of i] by blast
  note inv = run_inv [OF run start]
  consider (dead) m where "n \<le> m" "\<not> alive (r m)" | (alive) "\<And>j. n \<le> j \<Longrightarrow> alive (r j)" by blast
  then show thesis
  proof cases
    case dead
    with dead_later [OF run dead(2)] n(1) show thesis by (intro that [of m]) (auto simp: at_rest_def)
  next
    case alive
    obtain m where m: "n \<le> m" "at_rest (r m)"
      using busy_stuck [OF fair inv alive n(2)] by blast
    show thesis
    proof (cases "settled (r m)")
      case True
      then have "at_rest (r j)" if "m \<le> j" for j
        using settled_counters [of "r j" "r m"] n(2) [of j] n(2) [of m] m(1) that by (simp add: at_rest_def)
      with m(1) n(1) show thesis by (intro that [of m]) auto
    next
      case False
      with m alive have un: "unconfirmed (r m)" by (simp add: at_rest_def)
      have wait: "caller (r j) = AwaitWatcher" "listenPc (r j) = LSubscribing" if "m \<le> j" for j
        using un n(2) [of j] n(2) [of m] m(1) that by (simp_all add: unconfirmed_def program_counters_def)
      have "subSending (r j) = 0" if j: "m \<le> j" for j
      proof (rule ccontr)
        assume "subSending (r j) \<noteq> 0"
        then have "subSending (r k) \<noteq> 0" if "j \<le> k" for k
          using sending_later [OF run wait(2), of m j k] j that by simp
        then have "\<not> at_rest (r k)" if "j \<le> k" for k
          using wait(1) [of k] alive [of k] m(1) j that by (simp add: at_rest_def unconfirmed_def settled_def)
        moreover have "program_counters (r k) = program_counters (r j)" if "j \<le> k" for k
          using n(2) [of k] n(2) [of j] m(1) j that by simp
        ultimately show False using busy_stuck [OF fair inv, of j] alive m(1) j by (meson order_trans)
      qed
      with wait have "at_rest (r j)" if "m \<le> j" for j using that by (simp add: at_rest_def unconfirmed_def)
      with m(1) n(1) show thesis by (intro that [of m]) auto
    qed
  qed
qed

section \<open>From one phase to the next\<close>

lemma stopping_from: "life_step s t \<Longrightarrow> stopping (caller t) \<Longrightarrow> stopping (caller s) \<or> caller s \<in> {RunningServer, StartFailed}"
  by (elim life_stepE) (auto split: if_splits)

lemma not_failed_step:
  "life_step s t \<Longrightarrow> listenPc s \<notin> {LSpawned, LSetup, LSubscribing, LSubscribed, LFailed} \<Longrightarrow> listenPc t \<notin> {LSpawned, LSetup, LSubscribing, LSubscribed, LFailed}"
  by (elim life_stepE) auto

lemma stopping_later: "life_step\<^sup>*\<^sup>* s t \<Longrightarrow> stopping (caller s) \<Longrightarrow> stopping (caller t)"
  by (induction rule: rtranclp_induct) (auto intro: stopping_step)

lemma not_failed_later:
  "life_step\<^sup>*\<^sup>* s t \<Longrightarrow> listenPc s \<notin> {LSpawned, LSetup, LSubscribing, LSubscribed, LFailed} \<Longrightarrow> listenPc t \<notin> {LSpawned, LSetup, LSubscribing, LSubscribed, LFailed}"
  by (induction rule: rtranclp_induct) (use not_failed_step in blast)+

text \<open>The runs in which \<open>Stop\<close> is under way have passed the end of \<open>Start\<close>.\<close>

lemma stopping_passed_start:
  assumes "is_run life_step r" "\<not> stopping (caller (r 0))" "stopping (caller (r n))"
  shows "\<exists>i\<le>n. caller (r i) \<in> {RunningServer, StartFailed}"
  using assms(3)
proof (induction n)
  case (Suc n)
  have "life_step (r n) (r (Suc n)) \<or> r (Suc n) = r n" using assms(1) by (simp add: is_run_def)
  with Suc stopping_from [of "r n" "r (Suc n)"] have "stopping (caller (r n)) \<or> caller (r n) \<in> {RunningServer, StartFailed}"
    by auto
  with Suc.IH show ?case by (auto intro: le_SucI)
qed (use assms(2) in simp)

text \<open>The successes are counted once the client is connected, and never again forgotten.\<close>

lemma successes_step: "life_step s t \<Longrightarrow> successes s \<le> successes t"
  by (induction rule: life_step.induct) auto

lemma successes_later: "life_step\<^sup>*\<^sup>* s t \<Longrightarrow> successes s \<le> successes t"
  by (induction rule: rtranclp_induct) (auto dest: successes_step)

text \<open>A live run gets out of \<open>Start\<close>, or waits for the subscription for ever.\<close>

lemma fair_start:
  assumes "fair_life r" "r 0 = init_life" "\<And>i. alive (r i)"
  shows "(\<exists>i. caller (r i) \<in> {RunningServer, StartFailed}) \<or> (\<exists>n. \<forall>j\<ge>n. unconfirmed (r j))"
proof -
  note run = fair_run [OF assms(1)]
  from assms have start: "life_step\<^sup>*\<^sup>* init_life (r 0)" by simp
  obtain n where n: "0 \<le> n" "\<And>j. n \<le> j \<Longrightarrow> at_rest (r j)" using fair_life_rests [OF assms(1) start, of 0] by blast
  show ?thesis
  proof (cases "\<exists>j\<ge>n. settled (r j)")
    case True
    then obtain j where "caller (r j) \<in> {RunningServer, StartFailed} \<or> stopping (caller (r j))"
      unfolding settled_def using stopping_simps(10) by metis
    moreover have "\<not> stopping (caller (r 0))" by (simp add: assms(2) init_life_def)
    ultimately show ?thesis using stopping_passed_start [OF run] by blast
  next
    case False
    with n(2) assms(3) have "unconfirmed (r j)" if "n \<le> j" for j using that by (auto simp: at_rest_def)
    then show ?thesis by blast
  qed
qed

lemma never_confirmed:
  assumes "is_run life_step r" "life_step\<^sup>*\<^sup>* init_life (r 0)" "\<And>j. n \<le> j \<Longrightarrow> unconfirmed (r j)"
  shows "listenPc (r i) \<noteq> LFailed \<and> successes (r i) = 0"
proof -
  let ?k = "max i n"
  have to: "life_step\<^sup>*\<^sup>* (r i) (r ?k)" by (rule run_reaches [OF assms(1)]) simp
  have un: "unconfirmed (r ?k)" using assms(3) by simp
  with run_inv [OF assms(1,2), of ?k] have "successes (r ?k) = 0"
    by (simp add: unconfirmed_def life_inv_def sub_inv_def)
  with successes_later [OF to] failed_forever [OF to] un show ?thesis by (auto simp: unconfirmed_def)
qed

text \<open>What the end of \<open>Start\<close> says about the listener.\<close>

lemma failed_listener: "life_inv s \<Longrightarrow> caller s = StartFailed \<Longrightarrow> listenPc s = LFailed"
  by (simp add: life_inv_def listen_inv_def)

lemma running_listener: "life_inv s \<Longrightarrow> caller s = RunningServer \<Longrightarrow> 0 < successes s"
proof -
  assume "life_inv s" "caller s = RunningServer"
  then have "listenPc s \<notin> {LSpawned, LSetup, LSubscribing, LSubscribed}" "listenPc s \<noteq> LFailed"
    "subSending s + received (listenPc s) = successes s"
    by (simp_all add: life_inv_def listen_inv_def sub_inv_def)
  then show ?thesis by (cases "listenPc s") auto
qed

text \<open>Everything has ended.\<close>

definition all_ended :: "life \<Rightarrow> bool" where
  "all_ended s \<longleftrightarrow> caller s = Stopped \<and> queryPc s = LoopExited \<and> watchPc s = LoopExited \<and>
     listenPc s = LExited \<and> wg s = 0 \<and> \<not> socketOpen s"

lemma fair_stop:
  assumes "fair_life r" "life_step\<^sup>*\<^sup>* init_life (r 0)"
    and "caller (r h) = RunningServer" "h \<le> i" "stopping (caller (r i))" "\<And>j. alive (r j)"
  shows "\<exists>n\<ge>i. \<forall>j\<ge>n. all_ended (r j)"
proof -
  note run = fair_run [OF assms(1)]
  obtain n where n: "i \<le> n" "\<And>j. n \<le> j \<Longrightarrow> at_rest (r j)" using fair_life_rests [OF assms(1,2), of i] by blast
  have "listenPc (r h) \<notin> {LSpawned, LSetup, LSubscribing, LSubscribed, LFailed}"
    using run_inv [OF run assms(2), of h] assms(3) by (auto simp: life_inv_def listen_inv_def)
  have "all_ended (r j)" if "n \<le> j" for j
  proof -
    have stop: "stopping (caller (r j))"
      using stopping_later [OF run_reaches [OF run] assms(5)] n(1) that by simp
    moreover have "listenPc (r j) \<noteq> LFailed"
      using not_failed_later [OF run_reaches [OF run] \<open>listenPc (r h) \<notin> _\<close>] assms(4) n(1) that
      by (metis insertCI order_trans)
    ultimately have "caller (r j) = Stopped" "queryPc (r j) = LoopExited"
      using n(2) [OF that] assms(6) by (auto simp: at_rest_def settled_def unconfirmed_def)
    with run_inv [OF run assms(2), of j] show ?thesis
      by (auto simp: all_ended_def stopped_inv_def life_inv_def count_inv_def counted_def conn_inv_def)
  qed
  with n(1) show ?thesis by blast
qed

section \<open>Two fair runs\<close>

definition start_trace :: "life list" where
  "start_trace =
     (let s1 = init_life\<lparr>queryPc := Looping, wg := 1\<rparr>;
          s2 = s1\<lparr>watchPc := Counted, wg := 2\<rparr>;
          s3 = s2\<lparr>watchPc := Looping, procReady := (make_chan 1)\<lparr>waitingVals := [()]\<rparr>\<rparr>;
          s4 = s3\<lparr>caller := AwaitWatcher, procReady := make_chan 1\<rparr>;
          s5 = s4\<lparr>listenPc := LSetup, wg := 3\<rparr>;
          s6 = s5\<lparr>listenPc := LSubscribing, subscription := SubRequested\<rparr>;
          s7 = s6\<lparr>subscription := SubRefused\<rparr>;
          s8 = s7\<lparr>subscription := SubRequested\<rparr>;
          s9 = s8\<lparr>subscription := SubConfirmed, successes := 1, subSending := 1\<rparr>;
          s10 = s9\<lparr>listenPc := LSubscribed, subSending := 0\<rparr>;
          s11 = s10\<lparr>listenPc := LReady, watcherReady := (make_chan 1)\<lparr>waitingVals := [True]\<rparr>\<rparr>
      in [init_life, s1, s2, s3, s4, s5, s6, s7, s8, s9, s10, s11, running_life])"

definition ended_life :: life where
  "ended_life = overtaken_life\<lparr>queryPc := LoopExited, queryAt := QFailed, wg := 0, deallocChan := make_chan 1\<rparr>"

lemma ended_alive [simp]: "panicked ended_life = None"
  by (simp add: ended_life_def)

definition stop_trace :: "life list" where
  "stop_trace =
     (let s1 = running_life\<lparr>caller := StopSocket, bindClosed := True\<rparr>;
          s2 = s1\<lparr>caller := StopConn, socketOpen := False\<rparr>;
          s3 = s2\<lparr>caller := StopSend, connNil := True\<rparr>;
          s4 = s3\<lparr>queryAt := QFailed\<rparr>;
          s5 = s4\<lparr>queryPc := LoopExited, wg := 2\<rparr>;
          s6 = s5\<lparr>caller := StopClose, deallocChan := (make_chan 1)\<lparr>waitingVals := [()]\<rparr>\<rparr>;
          s7 = s6\<lparr>caller := StopWait, doneChan := (make_chan 1)\<lparr>isClosed := True\<rparr>\<rparr>;
          s8 = s7\<lparr>watchPc := LoopExited, procReady := (make_chan 1)\<lparr>isClosed := True\<rparr>, wg := 1\<rparr>;
          s9 = s8\<lparr>listenPc := LTearDown\<rparr>;
          s10 = s9\<lparr>listenPc := LExited, wg := 0\<rparr>;
          s11 = s10\<lparr>caller := Stopped\<rparr>
      in [running_life, s1, s2, s3, s4, s5, s6, s7, s8, s9, s10, s11, ended_life])"

lemma start_trace_steps: "successively life_step start_trace"
  unfolding start_trace_def Let_def successively.simps
  by (intro conjI TrueI)
    (simp_all add: life_step.simps life_eval running_life_def ex_bool_eq)

lemma stop_trace_steps: "successively life_step stop_trace"
  unfolding stop_trace_def Let_def successively.simps
  by (intro conjI TrueI)
    (simp_all add: life_step.simps life_eval running_life_def ended_life_def overtaken_life_def)

lemma stop_trace_ends: "life_step\<^sup>*\<^sup>* running_life ended_life"
proof -
  have "run_of stop_trace 0 = running_life" "run_of stop_trace 12 = ended_life"
    by (simp_all add: run_of_def stop_trace_def Let_def)
  with run_reaches [OF is_run_of [OF stop_trace_steps], of 0 12] show ?thesis by simp
qed

text \<open>In a state at rest nobody could move, and the schedule owes nothing.\<close>

definition quiet :: "life \<Rightarrow> bool" where
  "quiet s \<longleftrightarrow> (\<forall>g. \<not> able g s) \<and> waitingVals (deallocChan s) = [] \<and> \<not> (queryPc s = Looping \<and> bindClosed s)"

lemma running_quiet: "quiet running_life"
  unfolding quiet_def
proof (intro conjI allI)
  show "\<not> able g running_life" for g
    unfolding able_def can_change_def
    by (cases g) (auto simp: running_life_def life_eval elim!: life_stepE)
qed (simp_all add: running_life_def life_eval)

lemma ended_quiet: "quiet ended_life"
  unfolding quiet_def
proof (intro conjI allI)
  show "\<not> able g ended_life" for g
    unfolding able_def can_change_def
    by (cases g) (auto simp: ended_life_def overtaken_life_def life_eval elim!: life_stepE)
qed (simp_all add: ended_life_def life_eval)

lemma fair_run_of:
  assumes "successively life_step ss" "ss \<noteq> []" "quiet (last ss)"
  shows "fair_life (run_of ss)"
  unfolding fair_life_def
  using assms by (intro conjI allI is_run_of strongly_fair_run_of strongly_fair_weakly) (simp_all add: quiet_def)

lemma trace_ends:
  "start_trace \<noteq> []" "last start_trace = running_life" "stop_trace \<noteq> []" "last stop_trace = ended_life"
  by (simp_all add: start_trace_def stop_trace_def Let_def)

lemma trace_alive:
  "\<forall>s\<in>set start_trace. alive s" "\<forall>s\<in>set stop_trace. alive s"
  by (simp_all add: start_trace_def stop_trace_def Let_def init_life_def running_life_def ended_life_def
      overtaken_life_def)

lemma start_run_fair: "fair_life (run_of start_trace)"
  by (rule fair_run_of [OF start_trace_steps]) (simp_all add: trace_ends running_quiet)

lemma stop_run_fair: "fair_life (run_of stop_trace)"
  by (rule fair_run_of [OF stop_trace_steps]) (simp_all add: trace_ends ended_quiet)

section \<open>Properties\<close>

text \<open>A broker that does not answer: a fair run in which \<open>Start\<close> never returns.\<close>

theorem start_may_block:
  "\<exists>r. fair_life r \<and> r 0 = init_life \<and> (\<forall>i. alive (r i) \<and> caller (r i) \<notin> {RunningServer, StartFailed})"
proof -
  let ?ss = "take 7 start_trace"
  have ss: "?ss \<noteq> []" "?ss ! 0 = init_life" by (simp_all add: start_trace_def Let_def)
  have "start_trace = ?ss @ drop 7 start_trace" by simp
  then have "successively life_step ?ss" using start_trace_steps by (metis successively_append_iff)
  moreover have "quiet (last ?ss)"
    unfolding quiet_def
  proof (intro conjI allI)
    show "\<not> able g (last ?ss)" for g
      unfolding able_def can_change_def
      by (cases g) (auto simp: start_trace_def Let_def life_eval elim!: life_stepE)
  qed (simp_all add: start_trace_def Let_def life_eval)
  ultimately have "fair_life (run_of ?ss)" by (intro fair_run_of ss)
  moreover have "\<forall>s\<in>set ?ss. alive s \<and> caller s \<notin> {RunningServer, StartFailed}"
    by (simp add: start_trace_def Let_def init_life_def)
  ultimately show ?thesis using run_of_in [OF ss(1)] ss(2) by (intro exI [of _ "run_of ?ss"]) (auto simp: run_of_def)
qed

text \<open>C15. When \<open>Start\<close> returns. Under every fair schedule in which the process does not panic, \<open>Start\<close> returns nil exactly if the
  broker at some time confirms the subscription, after however many refusals, and an error exactly if the
  listener fails before it has subscribed; in the runs where neither happens it blocks for ever.\<close>

theorem start_returns:
  assumes "fair_life r" and "r 0 = init_life" and "\<And>i. alive (r i)"
  shows "((\<exists>i. caller (r i) = RunningServer) \<longleftrightarrow> (\<exists>i. 0 < successes (r i))) \<and>
    ((\<exists>i. caller (r i) = StartFailed) \<longleftrightarrow> (\<exists>i. listenPc (r i) = LFailed))"
proof -
  note run = fair_run [OF assms(1)]
  from assms have start: "life_step\<^sup>*\<^sup>* init_life (r 0)" by simp
  have inv: "life_inv (r i)" for i using run_inv [OF run start] by simp
  have failed: "successes (r j) = 0" if "listenPc (r i) = LFailed" for i j
  proof -
    have "listenPc (r (max i j)) = LFailed"
      by (rule failed_forever [OF run_reaches [OF run] that]) simp
    with inv [of "max i j"] have "successes (r (max i j)) = 0" by (simp add: life_inv_def sub_inv_def)
    with successes_later [OF run_reaches [OF run, of j "max i j"]] show ?thesis by simp
  qed
  have "\<exists>i. caller (r i) \<in> {RunningServer, StartFailed}" if "0 < successes (r i) \<or> listenPc (r i) = LFailed" for i
    using fair_start [OF assms] never_confirmed [OF run start] that by fastforce
  then show ?thesis using failed_listener [OF inv] running_listener [OF inv] failed by (metis insertE less_irrefl singletonD)
qed

theorem start_returns_witness:
  "(\<exists>i. caller (run_of start_trace i) = RunningServer) \<and> (\<forall>i. caller (run_of start_trace i) \<noteq> StartFailed)"
proof -
  have alive: "alive (run_of start_trace i)" for i using run_of_in trace_ends(1) trace_alive(1) by metis
  have "run_of start_trace 0 = init_life" "0 < successes (run_of start_trace 12)"
    by (simp_all add: run_of_def start_trace_def Let_def running_life_def)
  moreover have "\<forall>s\<in>set start_trace. listenPc s \<noteq> LFailed"
    by (simp add: start_trace_def Let_def init_life_def running_life_def)
  then have "\<forall>i. listenPc (run_of start_trace i) \<noteq> LFailed" using run_of_in trace_ends(1) by metis
  ultimately show ?thesis using start_returns [OF start_run_fair _ alive] by metis
qed

text \<open>C14. \<open>Stop\<close> returns and nothing is left behind, unless the process dies: under every fair schedule, when \<open>Start\<close> had
  returned nil and \<open>Stop\<close> has been called, either a goroutine panics, or there comes a moment from which on \<open>Stop\<close> has
  returned, the query loop, the watcher and the listener have all ended, the wait group is zero and the query
  port is closed. The panic on the nil connection is one of those possible only where the query loop had passed
  a check of \<open>done\<close> before \<open>Close\<close>.\<close>

theorem stop_returns:
  assumes "fair_life r" and "life_step\<^sup>*\<^sup>* init_life (r 0)"
    and "caller (r h) = RunningServer" and "h \<le> i" and "stopping (caller (r i))"
  shows "(\<exists>n\<ge>i. \<forall>j\<ge>n. caller (r j) = Stopped \<and> queryPc (r j) = LoopExited \<and> watchPc (r j) = LoopExited \<and>
      listenPc (r j) = LExited \<and> wg (r j) = 0 \<and> \<not> socketOpen (r j)) \<or>
    (\<exists>n site. \<forall>j\<ge>n. panicked (r j) = Some site \<and> (site = NilConn \<longrightarrow> using_conn (queryAt (r j)) \<and> connNil (r j)))"
proof (cases "\<forall>j. alive (r j)")
  case True
  then show ?thesis using fair_stop [OF assms] by (auto simp: all_ended_def)
next
  case False
  then show ?thesis using run_dies [OF fair_run [OF assms(1)] assms(2)] by blast
qed

theorem stop_returns_witness:
  "\<exists>n\<ge>1. \<forall>j\<ge>n. caller (run_of stop_trace j) = Stopped \<and> wg (run_of stop_trace j) = 0"
proof -
  have alive: "alive (run_of stop_trace i)" for i using run_of_in trace_ends(3) trace_alive(2) by metis
  have "run_of stop_trace 0 = running_life" "caller (run_of stop_trace 1) = StopSocket"
    by (simp_all add: run_of_def stop_trace_def Let_def)
  with stop_returns [OF stop_run_fair, of 0 1] running_reachable alive show ?thesis
    by (auto simp: running_life_def)
qed

end
