(* ===== verification/Gsh_Simulation.thy ===== *)
theory Gsh_Simulation
  imports Gsh_Lifecycle Gsh_Liveness
begin

text \<open>
  The two models of \<open>Start\<close> and \<open>Stop\<close> agree. \<open>Gsh_Lifecycle\<close> has them as functions on the server with all
  its data, for one goroutine; \<open>Gsh_Shutdown\<close> as the steps of a caller among goroutines, with the
  synchronisation only. Here a server and a state of the transition system match when they have the same
  channels and the same endpoint; the functions are then simulated by steps, so that the theorems on
  the transition system are about the server that \<open>Start\<close> returns.
\<close>

definition matches :: "server \<Rightarrow> life \<Rightarrow> bool" where
  "matches s l \<longleftrightarrow>
     (\<forall>b. queryBind s = Some b \<longrightarrow> IsDone b = bindClosed l \<and> (conn b = None) = connNil l) \<and>
     isClosed (srvDone s) = isClosed (doneChan l) \<and>
     chanCap (chanDeallocated s) = chanCap (deallocChan l) \<and>
     length (waitingVals (chanDeallocated s)) = length (waitingVals (deallocChan l))"

section \<open>Start\<close>

text \<open>\<open>Start\<close> does not touch the channels that \<open>Stop\<close> uses, nor the current allocation and its channel.\<close>

definition untouched :: "server \<Rightarrow> unit chan \<times> go_string chan \<times> go_string chan \<times> go_string" where
  "untouched s = (srvDone s, chanDeallocated s, chanAllocated s, allocatedUUID s)"

lemma setters_untouched [simp]:
  "untouched (setConfig c s) = untouched s" "untouched (start_defaults c s) = untouched s"
  "untouched (s\<lparr>queryProto := p\<rparr>) = untouched s" "untouched (s\<lparr>queryBind := b\<rparr>) = untouched s"
  "untouched (s\<lparr>state := q\<rparr>) = untouched s" "untouched (s\<lparr>localProxyClient := k\<rparr>) = untouched s"
  by (simp_all add: untouched_def setConfig_def start_defaults_def SetServerName_def SetGameMap_def Let_def)

lemma restart_untouched:
  assumes "restartQueryEndpoint env c s fds = Return (err, s', fds', started)"
  shows "untouched s' = untouched s"
proof -
  from assms obtain s1 fds1 where s1: "untouched s1 = untouched s"
    and r: "(case newUDPBinding env ('':'' @ QueryPort c) (queryReadBufferSizeBytes s1)
        (queryWriteBufferSizeBytes s1) (queryReadDeadlineDuration s1) (queryWriteDeadlineDuration s1) fds1 of
       (fds', Inl e) \<Rightarrow> Return (Some (BindError e), s1\<lparr>queryBind := None\<rparr>, fds', False)
     | (fds', Inr b) \<Rightarrow> Return (None, s1\<lparr>queryBind := Some b\<rparr>, fds', True)) = Return (err, s', fds', started)"
    by (cases "queryBind s") (force simp: restartQueryEndpoint_def obind_eq_Return)+
  from r s1 show ?thesis by (auto split: prod.split_asm sum.split_asm)
qed

lemma switch_untouched:
  assumes "switchQueryProtocol env c s fds = Return (err, s', fds', started)"
  shows "untouched s' = untouched s"
proof -
  from assms consider (none) "s' = s" | (some) p where "restartQueryEndpoint env c (s\<lparr>queryProto := p\<rparr>) fds = Return (err, s', fds', started)"
    by (auto simp: switchQueryProtocol_def split: if_splits)
  then show ?thesis by cases (auto dest: restart_untouched)
qed

lemma with_config_untouched:
  assumes "Start_with_config c env s fds = Return (err, s', fds', started)"
  shows "untouched s' = untouched s"
proof (cases "mkdirAll env (ServerLogDir c)")
  case None
  with assms obtain err1 s1 where
    "switchQueryProtocol (startListen env) c (start_defaults c (setConfig c s)) fds = Return (err1, s1, fds', started)"
    "untouched s' = untouched s1"
    by (auto simp: Start_with_config_def Let_def obind_eq_Return split: option.splits)
  with switch_untouched [OF this(1)] show ?thesis by simp
qed (use assms in \<open>auto simp: Start_with_config_def Let_def\<close>)

lemma prepare_untouched:
  assumes "Start_prepare env s fds = Return (err, s', fds', started)"
  shows "untouched s' = untouched s"
proof (cases "newConfigFromFile (startFile env)")
  case (Return r)
  with assms with_config_untouched show ?thesis by (cases r) (auto simp: Start_prepare_def)
qed (use assms in \<open>simp add: Start_prepare_def\<close>)

lemma start_untouched:
  assumes "Start env s fds = Return (err, s', fds', started)"
  shows "untouched s' = untouched s"
  using assms
proof (cases rule: Start_cases)
  case (late s1 r)
  obtain k where "s' = s1\<lparr>localProxyClient := k\<rparr>" using listenForEvents_frame [OF late(2)] by blast
  with prepare_untouched [OF late(1)] show ?thesis by simp
qed (rule prepare_untouched)

lemma matches_fresh:
  assumes "srvDone s = make_chan 1" "chanDeallocated s = make_chan 1"
    and "pred_option (\<lambda>b. \<not> IsDone b \<and> conn b \<noteq> None) (queryBind s)"
  shows "matches s running_life" "matches s failed_life"
  using assms
  by (auto simp: matches_def running_life_def failed_life_def make_chan_def)

text \<open>A server that has started, or whose event watcher has failed, is matched by a reachable state.\<close>

lemma start_matches:
  assumes "Start env s fds = Return (err, s', fds', started)" "err = None \<or> (\<exists>e. err = Some (EventWatcherError e))"
    and "queryBind s = None" "0 \<le> queryReadBufferSizeBytes s" "srvDone s = make_chan 1" "chanDeallocated s = make_chan 1"
  obtains l where "life_step\<^sup>*\<^sup>* init_life l" "caller l = (if err = None then RunningServer else StartFailed)" "matches s' l"
    "pred_option (binding_ok fds') (queryBind s')" "alive l"
  using assms(1)
proof (cases rule: Start_cases)
  case (early e)
  with Start_prepare_failure [OF early(2) assms(3)] assms(2) show thesis by auto
next
  case (late s1 r)
  have bind: "pred_option (\<lambda>b. \<not> IsDone b) (queryBind s1)" "endpoint_ok fds' s1"
    by (rule Start_prepare_success [OF late(1) assms(3,4)], assumption)+
  have "queryBind s' = queryBind s1" using listenForEvents_keeps [OF late(2)] by simp
  with bind have b: "pred_option (\<lambda>b. \<not> IsDone b \<and> conn b \<noteq> None) (queryBind s')"
      "pred_option (binding_ok fds') (queryBind s')"
    by (auto simp: endpoint_ok_def binding_ok_def pred_option_def split: option.splits)
  have c: "srvDone s' = make_chan 1" "chanDeallocated s' = make_chan 1"
    using start_untouched [OF assms(1)] assms(5,6) by (simp_all add: untouched_def)
  note m = matches_fresh [OF c b(1)]
  show thesis
  proof (cases "err = None")
    case True
    then show thesis using that [OF running_reachable _ m(1) b(2)] by simp (simp add: running_life_def)
  next
    case False
    then show thesis using that [OF failed_reachable _ m(2) b(2)] by simp (simp add: failed_life_def)
  qed
qed

section \<open>Stop\<close>

text \<open>
  \<open>Stop\<close> as a function is the steps of the caller up to the wait; where the function is blocked in its
  send, so is the caller.
\<close>

lemma stop_matches:
  assumes "matches s l" "life_inv l" "caller l = RunningServer \<or> caller l = StartFailed"
    and "pred_option (binding_ok fds) (queryBind s)" "alive l"
  shows "\<exists>s' fds' p l'. Stop s fds = Return (s', fds', p) \<and> life_step\<^sup>*\<^sup>* l l' \<and> matches s' l' \<and>
    caller l' = (case p of StopBlocked \<Rightarrow> StopSend | StopWaits \<Rightarrow> StopWait) \<and>
    (p = StopBlocked \<longleftrightarrow> chan_send () (deallocChan l) = None)"
proof -
  have inv: "\<not> isClosed (doneChan l)" using assms(2,3) by (auto simp: life_inv_def flag_inv_def)
  let ?l1 = "l\<lparr>bindClosed := True, socketOpen := False, caller := StopSend, connNil := True\<rparr>"
  have l1: "life_step\<^sup>*\<^sup>* l ?l1"
    using stop_bind [OF assms(5,3)] stop_socket [of "l\<lparr>caller := StopSocket, bindClosed := True\<rparr>"]
      stop_conn [of "l\<lparr>bindClosed := True, caller := StopConn, socketOpen := False\<rparr>"] assms(5)
    by (auto intro!: life_first [OF _ life_first [OF _ life_first]])
  from assms(4) obtain s1 fds1 where s1: "pred_option (\<lambda>b. IsDone b \<and> binding_ok fds1 b) (queryBind s1)"
    "s1 = s\<lparr>queryBind := queryBind s1\<rparr>"
    and st: "Stop s fds =
       (if chanCap (chanDeallocated s) \<le> length (waitingVals (chanDeallocated s)) then Return (s1, fds1, StopBlocked)
        else if isClosed (srvDone s) then Panic CloseOfClosedChannel
        else Return (s1\<lparr>chanDeallocated := (chanDeallocated s)\<lparr>waitingVals := waitingVals (chanDeallocated s) @ [[]]\<rparr>,
               srvDone := (srvDone s)\<lparr>isClosed := True\<rparr>\<rparr>, fds1, StopWaits))"
    by (rule Stop_cases)
  have shut: "IsDone b \<and> conn b = None" if "queryBind s1 = Some b" for b
    using s1(1) that by (auto simp: binding_ok_def split: option.splits)
  have same: "srvDone s1 = srvDone s" "chanDeallocated s1 = chanDeallocated s" by (subst s1(2), simp)+
  have m1: "matches s1 ?l1" using assms(1) shut by (simp add: matches_def same)
  show ?thesis
  proof (cases "chan_send () (deallocChan l)")
    case None
    then have "Stop s fds = Return (s1, fds1, StopBlocked)"
      using assms(1) by (simp add: st matches_def chan_send_def split: if_splits)
    with m1 l1 None show ?thesis
      by (intro exI [of _ s1] exI [of _ fds1] exI [of _ StopBlocked] exI [of _ ?l1]) auto
  next
    case (Some c)
    let ?s = "s1\<lparr>chanDeallocated := (chanDeallocated s)\<lparr>waitingVals := waitingVals (chanDeallocated s) @ [[]]\<rparr>,
               srvDone := (srvDone s)\<lparr>isClosed := True\<rparr>\<rparr>"
    let ?l2 = "?l1\<lparr>caller := StopClose, deallocChan := c\<rparr>"
    let ?l3 = "?l2\<lparr>caller := StopWait, doneChan := (doneChan l)\<lparr>isClosed := True\<rparr>\<rparr>"
    have "Stop s fds = Return (?s, fds1, StopWaits)"
      using assms(1) Some inv by (simp add: st matches_def chan_send_def split: if_splits)
    moreover have "life_step ?l1 ?l2" using stop_send [of ?l1 c] Some assms(5) by simp
    moreover have "life_step ?l2 ?l3"
      using stop_close [of ?l2 "(doneChan l)\<lparr>isClosed := True\<rparr>"] inv assms(5) by (simp add: chan_close_def)
    moreover have "matches ?s ?l3"
      using assms(1) shut Some by (auto simp: matches_def chan_send_Some)
    ultimately show ?thesis
      using l1 Some
      by (intro exI [of _ ?s] exI [of _ fds1] exI [of _ StopWaits] exI [of _ ?l3])
        (auto intro: rtranclp.rtrancl_into_rtrancl)
  qed
qed

section \<open>Properties\<close>

text \<open>C24. The server that \<open>Start\<close> returns is a server of the transition system: it matches a reachable state, in which the
  caller has the result of \<open>Start\<close>, and \<open>Stop\<close> on it does what the steps of the caller do, up to its wait or up
  to the send it is blocked in.\<close>

theorem start_stop_simulated:
  assumes "Start env s fds = Return (err, s1, fds1, started)" and "err = None \<or> (\<exists>e. err = Some (EventWatcherError e))"
    and "queryBind s = None" and "0 \<le> queryReadBufferSizeBytes s"
    and "srvDone s = make_chan 1" and "chanDeallocated s = make_chan 1"
  shows "\<exists>l. life_step\<^sup>*\<^sup>* init_life l \<and> caller l = (if err = None then RunningServer else StartFailed) \<and> matches s1 l \<and>
    (\<exists>s2 fds2 l'. Stop s1 fds1 = Return (s2, fds2, StopWaits) \<and> life_step\<^sup>*\<^sup>* l l' \<and> caller l' = StopWait \<and> matches s2 l')"
proof -
  obtain l where l: "life_step\<^sup>*\<^sup>* init_life l" "caller l = (if err = None then RunningServer else StartFailed)"
      "matches s1 l" "pred_option (binding_ok fds1) (queryBind s1)" "alive l"
    by (rule start_matches [OF assms])
  have "caller l = RunningServer \<or> caller l = StartFailed" using l(2) by auto
  from stop_matches [OF l(3) life_inv_reachable [OF l(1)] this l(4,5)] obtain s2 fds2 p l' where
    st: "Stop s1 fds1 = Return (s2, fds2, p)" "life_step\<^sup>*\<^sup>* l l'" "matches s2 l'"
      "caller l' = (case p of StopBlocked \<Rightarrow> StopSend | StopWaits \<Rightarrow> StopWait)"
      "p = StopBlocked \<longleftrightarrow> chan_send () (deallocChan l) = None"
    by (elim exE conjE) (rule that)
  have "chanDeallocated s1 = make_chan 1" using start_untouched [OF assms(1)] by (simp add: untouched_def assms(5,6))
  with l(3) have "chan_send () (deallocChan l) \<noteq> None"
    by (simp add: matches_def chan_send_None_iff make_chan_def)
  with st(5) have "p = StopWaits" by (cases p) auto
  with l st show ?thesis by auto
qed

theorem start_stop_simulated_witness:
  "\<exists>s1 fds1 l. Start (sample_start ''7'' ''sqp'') (fresh_server TypeAllocation ''f'') {} = Return (None, s1, fds1, True) \<and>
    life_step\<^sup>*\<^sup>* init_life l \<and> caller l = RunningServer \<and> matches s1 l"
proof -
  obtain s1 fds1 where r: "Start (sample_start ''7'' ''sqp'') (fresh_server TypeAllocation ''f'') {} = Return (None, s1, fds1, True)"
    by (rule sample_started [of "''sqp''"]) simp
  have "queryBind (fresh_server TypeAllocation ''f'') = None" "0 \<le> queryReadBufferSizeBytes (fresh_server TypeAllocation ''f'')"
    "srvDone (fresh_server TypeAllocation ''f'') = make_chan 1" "chanDeallocated (fresh_server TypeAllocation ''f'') = make_chan 1"
    by (simp_all add: fresh_server_def DefaultReadBufferSizeBytes_def)
  from start_stop_simulated [OF r _ this] r show ?thesis by auto
qed

end
