(* ===== verification/Allocation_Flow.thy ===== *)
theory Allocation_Flow
  imports Mock_Proxy Gsh_Simulation
begin

text \<open>
  An allocation on its way through the components: the local proxy publishes an event, the client decodes it, the
  callback of the server records it and tells the game, the game calls \<open>ReadyForPlayers\<close>, and the client
  patches the allocation at the proxy, which here is the mock of the tests.
\<close>

section \<open>The client of a started server\<close>

lemma listenForEvents_client:
  "listenForEvents env connect s = (s', None) \<Longrightarrow> localProxyClient s' =
     Some (register_callbacks (serverType s) (New_client (LocalProxyURL (Config s)) (fst (parse_int64 (ServerID (Config s))))))"
  by (auto simp: listenForEvents_def Let_def split: prod.splits option.splits sum.splits)

lemma register_server [simp]:
  "clientServerID (register_callbacks t c) = clientServerID c" "clientHost (register_callbacks t c) = clientHost c"
  by (simp_all add: register_callbacks_def RegisterCallback_def)

lemma start_client:
  assumes "Start env s fds = Return (None, s', fds', started)" "queryBind s = None" "0 \<le> queryReadBufferSizeBytes s"
  obtains c where "localProxyClient s' = Some c" "clientServerID c = fst (parse_int64 (ServerID (Config s')))"
    "clientHost c = LocalProxyURL (Config s')"
    "serverType s = TypeAllocation \<Longrightarrow> listening s'"
  using assms(1)
proof (cases rule: Start_cases)
  case (late s1 r)
  then have r: "listenForEvents (startCentrifuge env) (startConnect env) s1 = (s', None)" by simp
  have t: "serverType s1 = serverType s" using Start_prepare_success [OF late(1) assms(2,3)] by blast
  show thesis
    by (rule that [OF listenForEvents_client [OF r]])
      (use listenForEvents_keeps [OF r] listenForEvents_listening [OF r] t in \<open>auto simp: New_client_def\<close>)
qed simp

lemma event_keeps_client: "ev_step lib x op y \<Longrightarrow> localProxyClient (srv y) = localProxyClient (srv x)"
  by (induction rule: ev_step.induct)
    (auto simp: publish_def obind_eq_Return run_callback_def watchAllocation_def watchDeallocation_def Let_def
      split: callback.splits event.splits option.splits)

lemma events_keep_client: "ev_trace lib x ops y \<Longrightarrow> localProxyClient (srv y) = localProxyClient (srv x)"
  by (induction rule: ev_trace.induct) (simp_all add: event_keeps_client)

section \<open>A message arrives\<close>

lemma allocate_step:
  assumes "localProxyClient s = Some c" "listening s" "chan_send i (chanAllocated s) = Some ch"
    and "event_typed (AllocateEvent b i)" "int64_range (EventServerID b)"
  shows "ev_step lib \<lparr>srv = s, stuck = None, tookAllocated = ta, tookDeallocated = td\<rparr>
    (Message (Inr (event_json (AllocateEvent b i))))
    \<lparr>srv = s\<lparr>allocatedUUID := i, chanAllocated := ch\<rparr>, stuck = None, tookAllocated = ta, tookDeallocated = td\<rparr>"
proof -
  let ?d = "Inr (event_json (AllocateEvent b i)) :: go_string + json"
  have dec: "unmarshalEvent lib ?d = Return (Inr (AllocateEvent b i))"
    by (rule unmarshal_encoded) (use assms(4,5) in simp_all)
  have "callbacks c (Typ b) = Some WatchAllocation"
    using assms(1,2,4) by (simp add: listening_def event_typed_def event_types_differ [symmetric])
  with dec have "publish lib ?d c s = Return (s, Some (WatchAllocation, AllocateEvent b i))"
    by (simp add: publish_def OnPublish_def)
  moreover have "run_callback WatchAllocation (AllocateEvent b i) s = (True, s\<lparr>allocatedUUID := i, chanAllocated := ch\<rparr>)"
    using assms(3) by (simp add: run_callback_def watchAllocation_def Let_def)
  ultimately show ?thesis
    using message_sent [of "\<lparr>srv = s, stuck = None, tookAllocated = ta, tookDeallocated = td\<rparr>" c lib ?d] assms(1) by simp
qed

section \<open>Telling the proxy\<close>

text \<open>The patch for an allocation of a server, as the proxy is to get it.\<close>

definition ready_request :: "http_env \<Rightarrow> config \<Rightarrow> go_string \<Rightarrow> http_request" where
  "ready_request net cfg u =
     \<lparr>reqMethod = ''PATCH'',
      reqURL = LocalProxyURL cfg @ ''/v1/servers/'' @ int_dec (fst (parse_int64 (ServerID cfg))) @ ''/allocations/'' @ u,
      reqHeaders = [(''X-Request-ID'', request_id net)], reqBody = Some (JObject [(''ready'', JBool True)])\<rparr>"

lemma ready_exchange:
  assumes "localProxyClient s = Some c" "clientServerID c = fst (parse_int64 (ServerID cfg))"
    and "clientHost c = LocalProxyURL cfg" "allocatedUUID s = u" "u \<noteq> []"
    and "newRequestErr net = None" "doRequest net (ready_request net cfg u) = Inr resp"
  shows "ReadyForPlayers net (Some ()) s = Return ([Sent (ready_request net cfg u), BodyClosed],
    if statusCode resp = 204 then Inr () else Inl (ProxyError (unexpected_response (request_id net) resp)))"
proof -
  have "make_request net ''PATCH'' (server_url c (''/allocations/'' @ u)) (Some (JObject [(''ready'', JBool True)]))
      = ready_request net cfg u"
    using assms(2,3) by (simp add: make_request_def ready_request_def server_url_def)
  then have "PatchAllocation net u \<lparr>Ready = True\<rparr> c = ([Sent (ready_request net cfg u), BodyClosed],
      if statusCode resp = 204 then Inr () else Inl (unexpected_response (request_id net) resp))"
    using assms(6,7) by (simp add: PatchAllocation_def proxy_call_def Let_def)
  with assms(1,4,5) show ?thesis by (simp add: ReadyForPlayers_def with_client_def)
qed

lemma ready_at_mock:
  assumes "localProxyClient s = Some c" "clientServerID c = 1" "clientHost c = mockHost m" "allocatedUUID s = mock_allocation"
  shows "\<exists>effs. ReadyForPlayers (mock_net lib fmt show_json uid m) (Some ()) s = Return (effs, Inr ()) \<and>
    mockPatches (mock_after lib fmt show_json effs m) mock_allocation = Some \<lparr>Ready = True\<rparr>"
proof -
  note patch = patch_at_mock [OF assms(3,2), of lib fmt show_json uid "\<lparr>Ready = True\<rparr>"]
  have "mock_allocation \<noteq> []" by (simp add: mock_allocation_def)
  with assms(1,4) patch show ?thesis
    by (cases "PatchAllocation (mock_net lib fmt show_json uid m) mock_allocation \<lparr>Ready = True\<rparr> c")
      (simp add: ReadyForPlayers_def with_client_def)
qed

section \<open>Properties\<close>

text \<open>C4. From the event to the proxy. An allocation server has started, any messages have been published and any of its
  notifications taken. Then every identifier that was announced has been taken by the game, waits in the
  channel, or is held by the callback that sends it, in this order; and with \<open>u\<close> the allocation of the last
  message, \<open>ReadyForPlayers\<close> refuses and sends nothing if there is none, and otherwise sends the proxy one
  patch that makes exactly \<open>u\<close> of this server ready, and succeeds exactly if that is answered with 204. The mock
  proxy, for its server 1 and the one allocation it knows, then holds that allocation as ready.\<close>

theorem allocation_reaches_proxy:
  assumes "Start env s fds = Return (None, s1, fds1, started)" and "queryBind s = None"
    and "0 \<le> queryReadBufferSizeBytes s" and "serverType s = TypeAllocation" and "allocatedUUID s = []"
    and "waitingVals (chanAllocated s) = []" and "waitingVals (chanDeallocated s) = []"
    and "ev_trace lib \<lparr>srv = s1, stuck = None, tookAllocated = [], tookDeallocated = []\<rparr> ops y"
    and "u = fold (allocation_after lib) ops []"
  shows "concat (map (allocated_id lib) ops) =
      tookAllocated y @ waitingVals (chanAllocated (srv y)) @ stuck_on WatchAllocation y \<and>
    (u = [] \<longrightarrow> ReadyForPlayers net (Some ()) (srv y) = Return ([], Inl ErrNotAllocated)) \<and>
    (u \<noteq> [] \<and> newRequestErr net = None \<and> doRequest net (ready_request net (Config s1) u) = Inr resp \<longrightarrow>
      ReadyForPlayers net (Some ()) (srv y) = Return ([Sent (ready_request net (Config s1) u), BodyClosed],
        if statusCode resp = 204 then Inr () else Inl (ProxyError (unexpected_response (request_id net) resp)))) \<and>
    (u = mock_allocation \<and> LocalProxyURL (Config s1) = mockHost m \<and> fst (parse_int64 (ServerID (Config s1))) = 1 \<longrightarrow>
      (\<exists>effs. ReadyForPlayers (mock_net lib fmt show_json uid m) (Some ()) (srv y) = Return (effs, Inr ()) \<and>
        mockPatches (mock_after lib fmt show_json effs m) u = Some \<lparr>Ready = True\<rparr>))"
proof -
  obtain c where c: "localProxyClient s1 = Some c" "clientServerID c = fst (parse_int64 (ServerID (Config s1)))"
      "clientHost c = LocalProxyURL (Config s1)" "listening s1"
    using start_client [OF assms(1-3)] assms(4) by metis
  have s1: "allocatedUUID s1 = []" "waitingVals (chanAllocated s1) = []" "waitingVals (chanDeallocated s1) = []"
    using start_untouched [OF assms(1)] assms(5-7) by (simp_all add: untouched_def)
  have "ev_inv lib [] [] \<lparr>srv = s1, stuck = None, tookAllocated = [], tookDeallocated = []\<rparr>"
    using c(4) s1 by (simp add: ev_inv_def stuck_on_def)
  from ev_inv_trace [OF assms(8) this] have y: "allocatedUUID (srv y) = u"
    "concat (map (allocated_id lib) ops) = tookAllocated y @ waitingVals (chanAllocated (srv y)) @ stuck_on WatchAllocation y"
    by (simp_all add: ev_inv_def assms(9))
  have cy: "localProxyClient (srv y) = Some c" using events_keep_client [OF assms(8)] c(1) by simp
  have "ReadyForPlayers net (Some ()) (srv y) = Return ([], Inl ErrNotAllocated)" if "u = []"
    using y(1) that by (simp add: ReadyForPlayers_def)
  moreover note ready_exchange [OF cy c(2,3) y(1)]
  moreover note ready_at_mock [OF cy, of m lib fmt show_json uid]
  ultimately show ?thesis using y c(2,3) by metis
qed

theorem allocation_reaches_proxy_witness:
  "\<exists>s1 fds1 y. Start (sample_start ''1'' ''sqp'') (fresh_server TypeAllocation ''f'') {} = Return (None, s1, fds1, True) \<and>
    ev_trace sample_json_lib \<lparr>srv = s1, stuck = None, tookAllocated = [], tookDeallocated = []\<rparr>
      [Message (sample_message mock_allocation)] y \<and>
    (\<forall>m. mockHost m = LocalProxyURL (Config s1) \<longrightarrow>
      (\<exists>effs. ReadyForPlayers (mock_net sample_json_lib int_dec (\<lambda>v. []) None m) (Some ()) (srv y) = Return (effs, Inr ()) \<and>
        mockPatches (mock_after sample_json_lib int_dec (\<lambda>v. []) effs m) mock_allocation = Some \<lparr>Ready = True\<rparr>))"
proof -
  let ?s = "fresh_server TypeAllocation ''f''" and ?msg = "Message (sample_message mock_allocation)"
  have id: "parse_int64 ''1'' = (1, None)"
    by (simp add: parse_int64_def parse_uint_def digit_value_def Let_def)
  obtain s1 fds1 where r: "Start (sample_start ''1'' ''sqp'') ?s {} = Return (None, s1, fds1, True)" "ServerID (Config s1) = ''1''"
    using sample_start_run [of "''1''" "''sqp''"] id by auto
  have f: "queryBind ?s = None" "0 \<le> queryReadBufferSizeBytes ?s" "serverType ?s = TypeAllocation" "allocatedUUID ?s = []"
    "waitingVals (chanAllocated ?s) = []" "waitingVals (chanDeallocated ?s) = []"
    by (simp_all add: fresh_server_def DefaultReadBufferSizeBytes_def make_chan_def)
  have one: "fst (parse_int64 (ServerID (Config s1))) = 1" by (simp add: r(2) id)
  obtain c where c: "localProxyClient s1 = Some c" "listening s1"
    using start_client [OF r(1) f(1,2)] f(3) by metis
  have "chanAllocated s1 = make_chan 1"
    using start_untouched [OF r(1)] by (simp add: untouched_def fresh_server_def)
  then obtain ch where "chan_send mock_allocation (chanAllocated s1) = Some ch"
    by (simp add: chan_send_def make_chan_def)
  from allocate_step [OF c this, of "\<lparr>Typ = AllocateEventType, EventID = ''e'', EventServerID = 1\<rparr>" sample_json_lib "[]" "[]"]
  obtain y where y: "ev_step sample_json_lib \<lparr>srv = s1, stuck = None, tookAllocated = [], tookDeallocated = []\<rparr> ?msg y"
    by (auto simp: event_typed_def int64_range_def sample_message_def)
  from ev_trace.ev_next [OF ev_trace.ev_start y] have tr:
    "ev_trace sample_json_lib \<lparr>srv = s1, stuck = None, tookAllocated = [], tookDeallocated = []\<rparr> [?msg] y" by simp
  have u: "mock_allocation = fold (allocation_after sample_json_lib) [?msg] []"
    by (simp add: allocation_after_def message_event_def sample_unmarshal)
  from allocation_reaches_proxy [OF r(1) f tr u, where fmt = int_dec and show_json = "\<lambda>v. []" and uid = None] one
  have "\<forall>m. mockHost m = LocalProxyURL (Config s1) \<longrightarrow>
      (\<exists>effs. ReadyForPlayers (mock_net sample_json_lib int_dec (\<lambda>v. []) None m) (Some ()) (srv y) = Return (effs, Inr ()) \<and>
        mockPatches (mock_after sample_json_lib int_dec (\<lambda>v. []) effs m) mock_allocation = Some \<lparr>Ready = True\<rparr>)"
    by metis
  with r(1) tr show ?thesis by blast
qed

end
