(* ===== verification/Matchmaker_Shutdown.thy ===== *)
theory Matchmaker_Shutdown
  imports Gsh_Liveness
begin

text \<open>
  The synchronisation of the matchmaker server (\<open>matchmaker/server/server.go\<close> and the goroutine of
  \<open>backfill_internal.go\<close>): its own \<open>done\<close> and wait group around those of the game server it
  embeds. Its transition system contains the one of \<open>Gsh_Shutdown\<close> as a component, of which every run of
  the whole is a run, so what holds of the game server carries over.
\<close>

section \<open>The keep-alive goroutine around the game server\<close>

text \<open>
  \<open>Start\<close> calls the game server's \<open>Start\<close>, then starts the goroutine if backfill is enabled. \<open>Stop\<close> closes \<open>done\<close>,
  waits for the goroutine, then calls the game server's \<open>Stop\<close>; it has returned when that has.
\<close>

datatype mm_caller =
    MmStarting          \<comment> \<open>in the game server's \<open>Start\<close>\<close>
  | MmRunning           \<comment> \<open>\<open>Start\<close> has returned nil\<close>
  | MmStartFailed       \<comment> \<open>\<open>Start\<close> has returned an error\<close>
  | MmWait              \<comment> \<open>\<open>Stop\<close> has closed \<open>done\<close>, \<open>wg.Wait()\<close>\<close>
  | MmBaseStop          \<comment> \<open>in the game server's \<open>Stop\<close>, or after it\<close>

text \<open>The goroutine waits in its \<open>select\<close>, or is busy with the two exchanges of a tick.\<close>

datatype keeper = NoKeeper | KSpawned | KWaiting | KApproving | KExited

record mm_life =
  gsh :: life
  mmCaller :: mm_caller
  keeper :: keeper
  mmWg :: nat
  keepDone :: "unit chan"
  backfill :: bool          \<comment> \<open>\<open>backfillEnabled(s.Config())\<close>\<close>

definition init_mm :: "bool \<Rightarrow> mm_life" where
  "init_mm b = \<lparr>gsh = init_life, mmCaller = MmStarting, keeper = NoKeeper, mmWg = 0,
     keepDone = make_chan 1, backfill = b\<rparr>"

text \<open>
  The game server runs on its own, but its \<open>Stop\<close> begins only when the matchmaker's calls it. A panic in one
  of its goroutines ends the process, and with it the keep-alive goroutine.
\<close>

inductive mm_step :: "mm_life \<Rightarrow> mm_life \<Rightarrow> bool" where
  game_server:
    "life_step (gsh s) l \<Longrightarrow> stopping (caller l) \<longrightarrow> mmCaller s = MmBaseStop \<Longrightarrow>
     mm_step s (s\<lparr>gsh := l\<rparr>)"
| mm_started:
    "alive (gsh s) \<Longrightarrow> mmCaller s = MmStarting \<Longrightarrow> caller (gsh s) = RunningServer \<Longrightarrow>
     mm_step s (s\<lparr>mmCaller := MmRunning, keeper := (if backfill s then KSpawned else NoKeeper)\<rparr>)"
| mm_failed:
    "alive (gsh s) \<Longrightarrow> mmCaller s = MmStarting \<Longrightarrow> caller (gsh s) = StartFailed \<Longrightarrow>
     mm_step s (s\<lparr>mmCaller := MmStartFailed\<rparr>)"
| mm_close:
    "alive (gsh s) \<Longrightarrow> mmCaller s = MmRunning \<or> mmCaller s = MmStartFailed \<Longrightarrow> chan_close (keepDone s) = Return c \<Longrightarrow>
     mm_step s (s\<lparr>mmCaller := MmWait, keepDone := c\<rparr>)"
| mm_wait:
    "alive (gsh s) \<Longrightarrow> mmCaller s = MmWait \<Longrightarrow> mmWg s = 0 \<Longrightarrow> mm_step s (s\<lparr>mmCaller := MmBaseStop\<rparr>)"
| keep_add:
    "alive (gsh s) \<Longrightarrow> keeper s = KSpawned \<Longrightarrow> mm_step s (s\<lparr>keeper := KWaiting, mmWg := Suc (mmWg s)\<rparr>)"
| keep_tick:
    "alive (gsh s) \<Longrightarrow> keeper s = KWaiting \<Longrightarrow> mm_step s (s\<lparr>keeper := KApproving\<rparr>)"
| keep_answer:
    "alive (gsh s) \<Longrightarrow> keeper s = KApproving \<Longrightarrow> mm_step s (s\<lparr>keeper := KWaiting\<rparr>)"
| keep_exit:
    "alive (gsh s) \<Longrightarrow> keeper s = KWaiting \<Longrightarrow> isClosed (keepDone s) \<Longrightarrow>
     mm_step s (s\<lparr>keeper := KExited, mmWg := mmWg s - 1\<rparr>)"

code_pred mm_step .

inductive_cases mm_stepE: "mm_step s t"

section \<open>The game server as a component\<close>

lemma mm_projects: "mm_step s t \<Longrightarrow> gsh t = gsh s \<or> life_step (gsh s) (gsh t)"
  by (elim mm_stepE) auto

lemma mm_reachable_projects: "mm_step\<^sup>*\<^sup>* s t \<Longrightarrow> life_step\<^sup>*\<^sup>* (gsh s) (gsh t)"
proof (induction rule: rtranclp_induct)
  case (step t u)
  from mm_projects [OF step(2)] step(3) show ?case
    by (auto intro: rtranclp.rtrancl_into_rtrancl)
qed simp

lemma mm_run_projects: "is_run mm_step r \<Longrightarrow> is_run life_step (\<lambda>i. gsh (r i))"
  unfolding is_run_def using mm_projects by metis

section \<open>The invariant\<close>

definition keep_inv :: "mm_life \<Rightarrow> bool" where
  "keep_inv s \<longleftrightarrow>
     mmWg s = (if keeper s \<in> {KWaiting, KApproving} then 1 else 0) \<and>
     (isClosed (keepDone s) \<longleftrightarrow> mmCaller s \<in> {MmWait, MmBaseStop}) \<and>
     (keeper s = KExited \<longrightarrow> isClosed (keepDone s)) \<and>
     (keeper s \<noteq> NoKeeper \<longrightarrow> backfill s \<and> mmCaller s \<notin> {MmStarting, MmStartFailed})"

text \<open>How far the game server is, by where the matchmaker server is.\<close>

definition order_inv :: "mm_life \<Rightarrow> bool" where
  "order_inv s \<longleftrightarrow>
     (case mmCaller s of
        MmStarting \<Rightarrow> \<not> stopping (caller (gsh s))
      | MmRunning \<Rightarrow> caller (gsh s) = RunningServer
      | MmStartFailed \<Rightarrow> caller (gsh s) = StartFailed
      | MmWait \<Rightarrow> caller (gsh s) \<in> {RunningServer, StartFailed}
      | MmBaseStop \<Rightarrow> caller (gsh s) \<in> {RunningServer, StartFailed} \<or> stopping (caller (gsh s)))"

lemma keep_inv_step: "mm_step s t \<Longrightarrow> keep_inv s \<Longrightarrow> keep_inv t"
  by (elim mm_stepE) (auto simp: keep_inv_def chan_close_Return split: if_splits)

lemma caller_step:
  "life_step s t \<Longrightarrow> caller s \<in> {RunningServer, StartFailed} \<Longrightarrow> caller t = caller s \<or> stopping (caller t)"
  by (elim life_stepE) auto

lemma order_inv_step: "mm_step s t \<Longrightarrow> order_inv s \<Longrightarrow> order_inv t"
proof (elim mm_stepE)
  fix l
  assume t: "t = s\<lparr>gsh := l\<rparr>" and step: "life_step (gsh s) l" and gate: "stopping (caller l) \<longrightarrow> mmCaller s = MmBaseStop"
    and inv: "order_inv s"
  show "order_inv t"
    using caller_step [OF step] stopping_step [OF step] gate inv
    by (cases "mmCaller s") (auto simp: order_inv_def t)
qed (auto simp: order_inv_def split: mm_caller.splits)

definition mm_inv :: "mm_life \<Rightarrow> bool" where
  "mm_inv s \<longleftrightarrow> keep_inv s \<and> order_inv s \<and> life_inv (gsh s) \<and> stopped_inv (gsh s)"

lemma init_mm_inv: "keep_inv (init_mm b)" "order_inv (init_mm b)"
  by (simp_all add: keep_inv_def order_inv_def init_mm_def init_life_def make_chan_def)

lemma mm_inv_reachable: "mm_step\<^sup>*\<^sup>* (init_mm b) s \<Longrightarrow> mm_inv s"
proof -
  assume r: "mm_step\<^sup>*\<^sup>* (init_mm b) s"
  from r have "keep_inv s"
    by (induction rule: rtranclp_induct) (use init_mm_inv keep_inv_step in blast)+
  moreover from r have "order_inv s"
    by (induction rule: rtranclp_induct) (use init_mm_inv order_inv_step in blast)+
  moreover from mm_reachable_projects [OF r] have "life_inv (gsh s) \<and> stopped_inv (gsh s)"
    by (intro stopped_inv_reachable) (simp add: init_mm_def)
  ultimately show ?thesis by (simp add: mm_inv_def)
qed

section \<open>Stop waits for the goroutine\<close>

text \<open>The goroutine has added itself, or there is none; in the game server's \<open>Stop\<close> it has ended.\<close>

definition keeper_seen :: "mm_life \<Rightarrow> bool" where
  "keeper_seen s \<longleftrightarrow> keeper s \<noteq> KSpawned \<and> mmCaller s \<noteq> MmStarting \<and>
     (mmCaller s = MmBaseStop \<longrightarrow> keeper s \<in> {NoKeeper, KExited})"

lemma keeper_seen_step: "mm_step s t \<Longrightarrow> keep_inv s \<Longrightarrow> keeper_seen s \<Longrightarrow> keeper_seen t"
  by (elim mm_stepE; cases "keeper s") (auto simp: keeper_seen_def keep_inv_def split: if_splits)

lemma keeper_seen_later: "mm_step\<^sup>*\<^sup>* s t \<Longrightarrow> keep_inv s \<Longrightarrow> keeper_seen s \<Longrightarrow> keeper_seen t"
proof -
  assume "mm_step\<^sup>*\<^sup>* s t" "keep_inv s" "keeper_seen s"
  then have "keep_inv t \<and> keeper_seen t"
    by (induction rule: rtranclp_induct) (use keep_inv_step keeper_seen_step in blast)+
  then show ?thesis ..
qed

section \<open>Fair runs\<close>

text \<open>The control point of \<open>Start\<close> and \<open>Stop\<close>, and whether the game server's \<open>Stop\<close> has been entered.\<close>

definition mm_location :: "mm_life \<Rightarrow> mm_caller \<times> bool" where
  "mm_location s = (mmCaller s, stopping (caller (gsh s)))"

text \<open>The turns of the loop are one stage.\<close>

fun stage :: "keeper \<Rightarrow> keeper" where
  "stage KApproving = KWaiting"
| "stage k = k"

text \<open>
  As for the game server; besides, the two exchanges of a tick end (each has a deadline of
  ten seconds), and the \<open>select\<close> between the ticker and \<open>done\<close> does not always choose the ticker.
\<close>

definition fair_mm :: "(nat \<Rightarrow> mm_life) \<Rightarrow> bool" where
  "fair_mm r \<longleftrightarrow> is_run mm_step r \<and> fair_life (\<lambda>i. gsh (r i)) \<and>
     strongly_fair (\<lambda>s. can_change mm_step mm_location s \<and> mmCaller s \<notin> {MmRunning, MmStartFailed}) mm_location r \<and>
     strongly_fair (can_change mm_step (\<lambda>s. stage (keeper s))) (\<lambda>s. stage (keeper s)) r \<and>
     weakly_fair (\<lambda>s. alive (gsh s) \<and> keeper s = KApproving) keeper r"

fun mm_caller_work :: "mm_caller \<Rightarrow> nat" where
  "mm_caller_work MmStarting = 6" | "mm_caller_work MmRunning = 3" | "mm_caller_work MmStartFailed = 3"
| "mm_caller_work MmWait = 2" | "mm_caller_work MmBaseStop = 1"

fun keeper_work :: "keeper \<Rightarrow> nat" where
  "keeper_work KSpawned = 2" | "keeper_work KWaiting = 1" | "keeper_work KApproving = 1"
| "keeper_work KExited = 0" | "keeper_work NoKeeper = 0"

definition mm_work :: "mm_life \<Rightarrow> nat" where
  "mm_work s = mm_caller_work (mmCaller s) + keeper_work (keeper s) + (if stopping (caller (gsh s)) then 0 else 1)"

definition mm_counters :: "mm_life \<Rightarrow> (mm_caller \<times> bool) \<times> keeper" where
  "mm_counters s = (mm_location s, stage (keeper s))"

lemma keeper_work_stage: "keeper_work (stage k) = keeper_work k"
  by (cases k) simp_all

lemma mm_step_work: "mm_step s t \<Longrightarrow> mm_counters t = mm_counters s \<or> mm_work t < mm_work s"
proof (elim mm_stepE)
  fix l assume "t = s\<lparr>gsh := l\<rparr>" "life_step (gsh s) l"
  then show ?thesis
    using stopping_step [of "gsh s" l] by (auto simp: mm_counters_def mm_location_def mm_work_def)
qed (auto simp: mm_counters_def mm_location_def mm_work_def)

interpretation mm_run: measured_system mm_step mm_counters mm_work
proof
  show "mm_counters t = mm_counters s \<or> mm_work t < mm_work s" if "mm_step s t" for s t
    using that by (rule mm_step_work)
  show "mm_work t = mm_work s" if "mm_counters t = mm_counters s" for s t
  proof -
    from that have "mmCaller t = mmCaller s" "stopping (caller (gsh t)) = stopping (caller (gsh s))"
      "keeper_work (stage (keeper t)) = keeper_work (stage (keeper s))"
      by (simp_all add: mm_counters_def mm_location_def)
    then show ?thesis by (simp add: mm_work_def keeper_work_stage)
  qed
qed

section \<open>Every fair Stop comes to its end\<close>

lemma run_mm_inv:
  assumes "is_run mm_step r" "mm_step\<^sup>*\<^sup>* (init_mm b) (r 0)"
  shows "mm_inv (r i)"
proof (rule mm_inv_reachable)
  have "mm_step\<^sup>*\<^sup>* (r 0) (r i)" by (rule run_reaches [OF assms(1)]) simp
  with assms(2) show "mm_step\<^sup>*\<^sup>* (init_mm b) (r i)" by simp
qed

lemma mm_stopping_step:
  "mm_step s t \<Longrightarrow> mmCaller s \<in> {MmWait, MmBaseStop} \<Longrightarrow> mmCaller t \<in> {MmWait, MmBaseStop}"
  by (elim mm_stepE) auto

lemma mm_stopping_later:
  "mm_step\<^sup>*\<^sup>* s t \<Longrightarrow> mmCaller s \<in> {MmWait, MmBaseStop} \<Longrightarrow> mmCaller t \<in> {MmWait, MmBaseStop}"
  by (induction rule: rtranclp_induct) (use mm_stopping_step in blast)+

lemma stage_changes:
  "mm_step s t \<Longrightarrow> stage (keeper t) \<noteq> stage (keeper s) \<Longrightarrow> can_change mm_step (\<lambda>s. stage (keeper s)) s"
  unfolding can_change_def by blast

lemma location_changes: "mm_step s t \<Longrightarrow> mm_location t \<noteq> mm_location s \<Longrightarrow> can_change mm_step mm_location s"
  unfolding can_change_def by blast

text \<open>Once \<open>done\<close> is closed, a goroutine that rests in a stage has ended.\<close>

lemma keeper_rests:
  assumes fair: "fair_mm r" and inv: "\<And>j. keep_inv (r j)"
    and rest: "\<And>j. n \<le> j \<Longrightarrow> stage (keeper (r j)) = k"
    and stop: "\<And>j. n \<le> j \<Longrightarrow> mmCaller (r j) \<in> {MmWait, MmBaseStop}" and alive: "\<And>j. alive (gsh (r j))"
  shows "k \<in> {NoKeeper, KExited}"
proof (rule ccontr)
  assume k: "k \<notin> {NoKeeper, KExited}"
  have "strongly_fair (can_change mm_step (\<lambda>s. stage (keeper s))) (\<lambda>s. stage (keeper s)) r"
    using fair by (simp add: fair_mm_def)
  from strongly_fair_rest [OF this, of n k] rest
  obtain m where m: "n \<le> m" "\<And>j. m \<le> j \<Longrightarrow> \<not> can_change mm_step (\<lambda>s. stage (keeper s)) (r j)" by metis
  have busy: "keeper (r j) = KApproving" if "m \<le> j" for j
  proof (rule ccontr)
    assume "keeper (r j) \<noteq> KApproving"
    then have "stage (keeper (r j)) = keeper (r j)" by (cases "keeper (r j)") simp_all
    with rest [of j] m(1) that k consider "keeper (r j) = KSpawned" | "keeper (r j) = KWaiting"
      by (cases "keeper (r j)") auto
    then have "can_change mm_step (\<lambda>s. stage (keeper s)) (r j)"
    proof cases
      case 1
      from stage_changes [OF keep_add [OF alive 1]] 1 show ?thesis by simp
    next
      case 2
      have "isClosed (keepDone (r j))" using inv [of j] stop [of j] m(1) that by (auto simp: keep_inv_def)
      from stage_changes [OF keep_exit [OF alive 2 this]] 2 show ?thesis by simp
    qed
    with m(2) [OF that] show False by simp
  qed
  have "weakly_fair (\<lambda>s. alive (gsh s) \<and> keeper s = KApproving) keeper r" using fair by (simp add: fair_mm_def)
  from weakly_fair_rest [OF this, of m KApproving] busy alive show False by metis
qed

text \<open>With the goroutine ended, \<open>Stop\<close> rests only in the game server's \<open>Stop\<close>.\<close>

lemma mm_caller_rests:
  assumes fair: "fair_mm r" and inv: "\<And>j. mm_inv (r j)"
    and rest: "\<And>j. n \<le> j \<Longrightarrow> mm_location (r j) = mm_location (r n)"
    and stop: "mmCaller (r n) \<in> {MmWait, MmBaseStop}" and ended: "\<And>j. n \<le> j \<Longrightarrow> mmWg (r j) = 0"
    and alive: "\<And>j. alive (gsh (r j))"
  shows "mmCaller (r n) = MmBaseStop \<and> stopping (caller (gsh (r n)))"
proof (rule ccontr)
  assume not: "\<not> (mmCaller (r n) = MmBaseStop \<and> stopping (caller (gsh (r n))))"
  let ?able = "\<lambda>s. can_change mm_step mm_location s \<and> mmCaller s \<notin> {MmRunning, MmStartFailed}"
  have "strongly_fair ?able mm_location r" using fair by (simp add: fair_mm_def)
  from strongly_fair_rest [OF this, of n "mm_location (r n)"] rest
  obtain m where m: "n \<le> m" "\<And>j. m \<le> j \<Longrightarrow> \<not> ?able (r j)" by metis
  have at: "mmCaller (r m) = mmCaller (r n)" "stopping (caller (gsh (r m))) = stopping (caller (gsh (r n)))"
    using rest [OF m(1)] by (simp_all add: mm_location_def)
  from stop at(1) consider (wait) "mmCaller (r m) = MmWait" | (base) "mmCaller (r m) = MmBaseStop" by auto
  then have "can_change mm_step mm_location (r m)"
  proof cases
    case wait
    from location_changes [OF mm_wait [OF alive wait ended [OF m(1)]]] wait show ?thesis
      by (simp add: mm_location_def)
  next
    case base
    with not at have quiet: "\<not> stopping (caller (gsh (r m)))" by simp
    with inv [of m] base have "caller (gsh (r m)) = RunningServer \<or> caller (gsh (r m)) = StartFailed"
      by (simp add: mm_inv_def order_inv_def)
    from location_changes [OF game_server [OF stop_bind [OF alive this]]] base quiet show ?thesis
      by (simp add: mm_location_def)
  qed
  with m(2) [of m] stop at(1) show False by auto
qed

lemma fair_mm_stop:
  assumes fair: "fair_mm r" and start: "mm_step\<^sup>*\<^sup>* (init_mm b) (r 0)"
    and "mmCaller (r h) = MmRunning" "h \<le> i" and stop: "mmCaller (r i) \<in> {MmWait, MmBaseStop}"
    and alive: "\<And>j. alive (gsh (r j))"
  shows "\<exists>n\<ge>i. \<forall>j\<ge>n. all_ended (gsh (r j)) \<and> keeper (r j) \<in> {NoKeeper, KExited} \<and> mmWg (r j) = 0"
proof -
  have run: "is_run mm_step r" "fair_life (\<lambda>i. gsh (r i))" using fair by (simp_all add: fair_mm_def)
  note inv = run_mm_inv [OF run(1) start]
  then have keep: "keep_inv (r j)" for j by (simp add: mm_inv_def)
  obtain n where n: "i \<le> n" "\<And>j. n \<le> j \<Longrightarrow> mm_counters (r j) = mm_counters (r n)"
    using mm_run.run_settles [OF run(1), of i] by blast
  have stops: "mmCaller (r j) \<in> {MmWait, MmBaseStop}" if "n \<le> j" for j
    using mm_stopping_later [OF run_reaches [OF run(1)] stop] n(1) that by simp
  have rest: "stage (keeper (r j)) = stage (keeper (r n))" "mm_location (r j) = mm_location (r n)" if "n \<le> j" for j
    using n(2) [OF that] by (simp_all add: mm_counters_def)
  have "stage (keeper (r n)) \<in> {NoKeeper, KExited}" by (rule keeper_rests [OF fair keep rest(1) stops alive])
  then have ended: "keeper (r j) \<in> {NoKeeper, KExited}" if "n \<le> j" for j
    using rest(1) [OF that] by (cases "keeper (r j)") auto
  then have wg: "mmWg (r j) = 0" if "n \<le> j" for j
    using keep [of j] ended [OF that] unfolding keep_inv_def by auto
  have "stopping (caller (gsh (r n)))" using mm_caller_rests [OF fair inv rest(2) stops wg alive] by simp
  moreover have "life_step\<^sup>*\<^sup>* init_life (gsh (r 0))"
    using mm_reachable_projects [OF start] by (simp add: init_mm_def)
  moreover have "caller (gsh (r h)) = RunningServer"
    using inv [of h] assms(3) by (simp add: mm_inv_def order_inv_def)
  moreover have "h \<le> n" using assms(4) n(1) by simp
  ultimately obtain n' where "n \<le> n'" "\<And>j. n' \<le> j \<Longrightarrow> all_ended (gsh (r j))"
    using fair_stop [OF run(2), of h n] alive by blast
  with n(1) ended wg show ?thesis by (intro exI [of _ n']) auto
qed

section \<open>Runs with a given outcome\<close>

text \<open>A server that runs under a live game server, with the goroutine in its loop.\<close>

definition running_mm :: mm_life where
  "running_mm = \<lparr>gsh = running_life, mmCaller = MmRunning, keeper = KWaiting, mmWg = 1,
     keepDone = make_chan 1, backfill = True\<rparr>"

text \<open>\<open>Stop\<close> has returned before the goroutine added itself to the wait group; it asks for an approval.\<close>

definition overtaken_mm :: mm_life where
  "overtaken_mm = \<lparr>gsh = ended_life, mmCaller = MmBaseStop, keeper = KApproving, mmWg = 1,
     keepDone = (make_chan 1)\<lparr>isClosed := True\<rparr>, backfill = True\<rparr>"

lemma running_mm_alive [simp]: "panicked (gsh running_mm) = None"
  by (simp add: running_mm_def)

lemma mm_first: "mm_step s t \<Longrightarrow> mm_step\<^sup>*\<^sup>* t u \<Longrightarrow> mm_step\<^sup>*\<^sup>* s u"
  by (rule converse_rtranclp_into_rtranclp)

text \<open>The game server alone, while its \<open>Stop\<close> is not entered, or already called by the matchmaker's.\<close>

lemma mm_game_server:
  "life_step\<^sup>*\<^sup>* l l' \<Longrightarrow> \<not> stopping (caller l') \<or> mmCaller s = MmBaseStop \<Longrightarrow> gsh s = l \<Longrightarrow>
   mm_step\<^sup>*\<^sup>* s (s\<lparr>gsh := l'\<rparr>)"
proof (induction rule: rtranclp_induct)
  case (step l1 l2)
  then have "\<not> stopping (caller l1) \<or> mmCaller s = MmBaseStop" using stopping_step by blast
  with step have "mm_step\<^sup>*\<^sup>* s (s\<lparr>gsh := l1\<rparr>)" by blast
  moreover have "mm_step (s\<lparr>gsh := l1\<rparr>) (s\<lparr>gsh := l2\<rparr>)"
    using game_server [of "s\<lparr>gsh := l1\<rparr>" l2] step by auto
  ultimately show ?case by (rule rtranclp.rtrancl_into_rtrancl)
next
  case base
  then show ?case by (cases s) simp
qed

lemma spawned_reachable: "mm_step\<^sup>*\<^sup>* (init_mm True) (running_mm\<lparr>keeper := KSpawned, mmWg := 0\<rparr>)"
proof -
  have "mm_step\<^sup>*\<^sup>* (init_mm True) ((init_mm True)\<lparr>gsh := running_life\<rparr>)"
    by (rule mm_game_server [OF running_reachable]) (simp_all add: running_life_def init_mm_def)
  moreover have "mm_step ((init_mm True)\<lparr>gsh := running_life\<rparr>) (running_mm\<lparr>keeper := KSpawned, mmWg := 0\<rparr>)"
    using mm_started [of "(init_mm True)\<lparr>gsh := running_life\<rparr>"]
    by (simp add: init_mm_def running_mm_def running_life_def)
  ultimately show ?thesis by (rule rtranclp.rtrancl_into_rtrancl)
qed

lemma running_mm_reachable: "mm_step\<^sup>*\<^sup>* (init_mm True) running_mm"
  using rtranclp.rtrancl_into_rtrancl [OF spawned_reachable keep_add]
  by (simp add: running_mm_def running_life_def)

lemma overtaken_mm_reachable: "mm_step\<^sup>*\<^sup>* (init_mm True) overtaken_mm"
proof -
  let ?closed = "(make_chan 1)\<lparr>isClosed := True\<rparr> :: unit chan"
  let ?s = "running_mm\<lparr>keeper := KSpawned, mmWg := 0, mmCaller := MmWait, keepDone := ?closed\<rparr>"
  let ?t = "?s\<lparr>mmCaller := MmBaseStop\<rparr>"
  have close: "mm_step (running_mm\<lparr>keeper := KSpawned, mmWg := 0\<rparr>) ?s"
    using mm_close [of "running_mm\<lparr>keeper := KSpawned, mmWg := 0\<rparr>" ?closed]
    by (simp add: running_mm_def make_chan_def chan_close_def)
  have wait: "mm_step ?s ?t" using mm_wait [of ?s] by simp
  have "mm_step\<^sup>*\<^sup>* ?t (?t\<lparr>gsh := ended_life\<rparr>)"
    by (rule mm_game_server [OF stop_trace_ends]) (simp_all add: running_mm_def)
  then have "mm_step\<^sup>*\<^sup>* (init_mm True) (?t\<lparr>gsh := ended_life\<rparr>)"
    using spawned_reachable close wait by (meson converse_rtranclp_into_rtranclp rtranclp_trans)
  moreover have "mm_step (?t\<lparr>gsh := ended_life\<rparr>) (?t\<lparr>gsh := ended_life, keeper := KWaiting, mmWg := 1\<rparr>)"
    using keep_add [of "?t\<lparr>gsh := ended_life\<rparr>"] by (simp add: running_mm_def)
  moreover have "mm_step (?t\<lparr>gsh := ended_life, keeper := KWaiting, mmWg := 1\<rparr>) overtaken_mm"
    using keep_tick [of "?t\<lparr>gsh := ended_life, keeper := KWaiting, mmWg := 1\<rparr>"]
    by (simp add: running_mm_def overtaken_mm_def)
  ultimately show ?thesis by (meson rtranclp.rtrancl_into_rtrancl)
qed

text \<open>\<open>Stop\<close> in order, as a run.\<close>

definition mm_stop_trace :: "mm_life list" where
  "mm_stop_trace =
     (let s1 = running_mm\<lparr>mmCaller := MmWait, keepDone := (make_chan 1)\<lparr>isClosed := True\<rparr>\<rparr>;
          s2 = s1\<lparr>keeper := KExited, mmWg := 0\<rparr>;
          s3 = s2\<lparr>mmCaller := MmBaseStop\<rparr>
      in [running_mm, s1, s2] @ map (\<lambda>l. s3\<lparr>gsh := l\<rparr>) stop_trace)"

lemma stop_trace_eq: "stop_trace = running_life # tl stop_trace" "last stop_trace = ended_life" "stop_trace \<noteq> []"
  by (simp_all add: stop_trace_def Let_def)

lemma mm_stop_trace_steps: "successively mm_step mm_stop_trace"
proof -
  let ?s1 = "running_mm\<lparr>mmCaller := MmWait, keepDone := (make_chan 1)\<lparr>isClosed := True\<rparr>\<rparr>"
  let ?s2 = "?s1\<lparr>keeper := KExited, mmWg := 0\<rparr>"
  let ?s3 = "?s2\<lparr>mmCaller := MmBaseStop\<rparr>"
  have "mm_step running_mm ?s1"
    using mm_close [of running_mm "(make_chan 1)\<lparr>isClosed := True\<rparr>"]
    by (simp add: running_mm_def make_chan_def chan_close_def)
  moreover have "mm_step ?s1 ?s2" using keep_exit [of ?s1] by (simp add: running_mm_def)
  moreover have "mm_step ?s2 ?s3" using mm_wait [of ?s2] by simp
  moreover have "mm_step (?s3\<lparr>gsh := l\<rparr>) (?s3\<lparr>gsh := l'\<rparr>)" if "life_step l l'" for l l'
    using game_server [of "?s3\<lparr>gsh := l\<rparr>" l'] that by simp
  then have "successively mm_step (map (\<lambda>l. ?s3\<lparr>gsh := l\<rparr>) stop_trace)"
    using stop_trace_steps by (simp add: successively_map successively_mono)
  moreover have "hd (map (\<lambda>l. ?s3\<lparr>gsh := l\<rparr>) stop_trace) = ?s3"
    by (subst stop_trace_eq(1)) (simp add: running_mm_def)
  ultimately show ?thesis
    unfolding mm_stop_trace_def Let_def successively_append_iff by (simp add: stop_trace_eq(3))
qed

lemma mm_stop_trace_game: "map gsh mm_stop_trace = [running_life, running_life, running_life] @ stop_trace"
  by (simp add: mm_stop_trace_def Let_def comp_def running_mm_def)

lemma mm_stop_trace_last:
  "gsh (last mm_stop_trace) = ended_life" "mmCaller (last mm_stop_trace) = MmBaseStop"
  "keeper (last mm_stop_trace) = KExited"
  by (simp_all add: mm_stop_trace_def Let_def last_map stop_trace_eq(2,3))

lemma mm_stop_trace_ends: "mm_step\<^sup>*\<^sup>* running_mm (last mm_stop_trace)"
proof -
  have "mm_stop_trace \<noteq> []" "run_of mm_stop_trace 0 = running_mm"
    by (simp_all add: run_of_def mm_stop_trace_def Let_def)
  with run_reaches [OF is_run_of [OF mm_stop_trace_steps], of 0 "length mm_stop_trace"] show ?thesis
    by (simp add: run_of_late)
qed

lemma mm_stop_run_fair: "fair_mm (run_of mm_stop_trace)"
proof -
  have ne: "mm_stop_trace \<noteq> []" by (simp add: mm_stop_trace_def Let_def)
  have idle: "life_step running_life running_life" by (rule watch_event) (simp_all add: running_life_def)
  then have "successively life_step (map gsh mm_stop_trace)"
    unfolding mm_stop_trace_game successively_append_iff
    using stop_trace_steps by (subst (2) stop_trace_eq(1)) simp
  then have "fair_life (run_of (map gsh mm_stop_trace))"
    by (rule fair_run_of) (simp_all only: mm_stop_trace_game, simp_all add: stop_trace_eq(2,3) ended_quiet)
  moreover have "run_of (map gsh mm_stop_trace) = (\<lambda>i. gsh (run_of mm_stop_trace i))"
    by (rule ext) (rule run_of_map [OF ne])
  ultimately have game: "fair_life (\<lambda>i. gsh (run_of mm_stop_trace i))" by simp
  note l = mm_stop_trace_last
  have "\<not> can_change mm_step mm_location (last mm_stop_trace)"
    using stopping_step [of ended_life] l unfolding can_change_def
    by (auto simp: mm_location_def ended_life_def overtaken_life_def elim!: mm_stepE)
  moreover have "\<not> can_change mm_step (\<lambda>s. stage (keeper s)) (last mm_stop_trace)"
    using l unfolding can_change_def by (auto elim!: mm_stepE)
  ultimately show ?thesis
    unfolding fair_mm_def using ne l
    by (intro conjI game is_run_of mm_stop_trace_steps strongly_fair_run_of strongly_fair_weakly) simp_all
qed

section \<open>Properties\<close>

text \<open>The matchmaker server around the game server: whatever the schedule, the game server it embeds is in a state that
  it also reaches alone; its \<open>Stop\<close> is entered only after \<open>done\<close> was closed and the wait for the keep-alive
  goroutine was over; \<open>done\<close> is not closed twice and the wait group not left at zero.\<close>

theorem mm_life_refines:
  assumes "mm_step\<^sup>*\<^sup>* (init_mm b) s"
  shows "life_step\<^sup>*\<^sup>* init_life (gsh s) \<and>
    (stopping (caller (gsh s)) \<longrightarrow> mmCaller s = MmBaseStop \<and> isClosed (keepDone s)) \<and>
    (mmCaller s = MmRunning \<or> mmCaller s = MmStartFailed \<longrightarrow> chan_close (keepDone s) \<noteq> Panic CloseOfClosedChannel) \<and>
    (keeper s = KWaiting \<or> keeper s = KApproving \<longrightarrow> mmWg s = 1)"
proof -
  have "mm_inv s" using assms by (rule mm_inv_reachable)
  moreover have "life_step\<^sup>*\<^sup>* init_life (gsh s)"
    using mm_reachable_projects [OF assms] by (simp add: init_mm_def)
  ultimately show ?thesis
    by (cases "mmCaller s") (auto simp: mm_inv_def keep_inv_def order_inv_def chan_close_def)
qed

theorem mm_life_refines_witness:
  "life_step\<^sup>*\<^sup>* init_life ended_life \<and> isClosed (keepDone overtaken_mm)"
  using mm_life_refines [OF overtaken_mm_reachable]
  by (simp add: overtaken_mm_def ended_life_def overtaken_life_def)

text \<open>C17. No approval during the shutdown of the game server: if the keep-alive goroutine had begun when \<open>Stop\<close> was called,
  then from the moment the game server's \<open>Stop\<close> is entered it has ended, so that no backfill ticket is approved for a
  server that is being deallocated.\<close>

theorem mm_stop_ends_keeper:
  assumes "mm_step\<^sup>*\<^sup>* (init_mm b) s" and "mmCaller s = MmRunning" and "keeper s \<noteq> KSpawned"
    and "mm_step\<^sup>*\<^sup>* s t" and "mmCaller t = MmBaseStop"
  shows "keeper t = KExited \<or> keeper t = NoKeeper"
proof -
  have "keep_inv s" using mm_inv_reachable [OF assms(1)] by (simp add: mm_inv_def)
  moreover have "keeper_seen s" by (simp add: keeper_seen_def assms(2,3))
  ultimately have "keeper_seen t" by (rule keeper_seen_later [OF assms(4)])
  with assms(5) show ?thesis by (auto simp: keeper_seen_def)
qed

theorem mm_stop_ends_keeper_witness:
  "keeper (last mm_stop_trace) = KExited \<or> keeper (last mm_stop_trace) = NoKeeper"
  by (rule mm_stop_ends_keeper [OF running_mm_reachable _ _ mm_stop_trace_ends])
    (simp_all add: running_mm_def mm_stop_trace_last)

text \<open>Without that proviso the goroutine can be asking for an approval when \<open>Stop\<close> has returned.\<close>

theorem stop_overtakes_keeper:
  "\<exists>s. mm_step\<^sup>*\<^sup>* (init_mm True) s \<and> caller (gsh s) = Stopped \<and> keeper s = KApproving"
  by (intro exI conjI) (rule overtaken_mm_reachable, simp_all add: overtaken_mm_def ended_life_def overtaken_life_def)

text \<open>C16. \<open>Stop\<close> of the matchmaker server returns, unless the process dies: under every fair schedule, when \<open>Start\<close> had
  returned nil and \<open>Stop\<close> has been called, either a goroutine of the game server panics, or there comes a moment from
  which on the game server's \<open>Stop\<close> has returned and the keep-alive goroutine, the query loop, the watcher and
  the listener have all ended.\<close>

theorem mm_stop_returns:
  assumes "fair_mm r" and "mm_step\<^sup>*\<^sup>* (init_mm b) (r 0)"
    and "mmCaller (r h) = MmRunning" and "h \<le> i" and "mmCaller (r i) = MmWait \<or> mmCaller (r i) = MmBaseStop"
  shows "(\<exists>n\<ge>i. \<forall>j\<ge>n. all_ended (gsh (r j)) \<and> (keeper (r j) = KExited \<or> keeper (r j) = NoKeeper) \<and> mmWg (r j) = 0) \<or>
    (\<exists>n site. \<forall>j\<ge>n. panicked (gsh (r j)) = Some site \<and>
       (site = NilConn \<longrightarrow> using_conn (queryAt (gsh (r j))) \<and> connNil (gsh (r j))))"
proof (cases "\<forall>j. alive (gsh (r j))")
  case True
  have "mmCaller (r i) \<in> {MmWait, MmBaseStop}" using assms(5) by auto
  then obtain n where "i \<le> n" "\<And>j. n \<le> j \<Longrightarrow> all_ended (gsh (r j)) \<and> keeper (r j) \<in> {NoKeeper, KExited} \<and> mmWg (r j) = 0"
    using fair_mm_stop [OF assms(1-4)] True by blast
  then show ?thesis by blast
next
  case False
  have "life_step\<^sup>*\<^sup>* init_life (gsh (r 0))"
    using mm_reachable_projects [OF assms(2)] by (simp add: init_mm_def)
  moreover have "is_run life_step (\<lambda>i. gsh (r i))"
    using assms(1) by (intro mm_run_projects) (simp add: fair_mm_def)
  ultimately show ?thesis using run_dies [of "\<lambda>i. gsh (r i)"] False by blast
qed

theorem mm_stop_returns_witness:
  "\<exists>n\<ge>1. \<forall>j\<ge>n. all_ended (gsh (run_of mm_stop_trace j))"
proof -
  have "\<forall>l\<in>set (map gsh mm_stop_trace). alive l"
    unfolding mm_stop_trace_game using trace_alive(2) by auto
  moreover have ne: "mm_stop_trace \<noteq> []" by (simp add: mm_stop_trace_def Let_def)
  ultimately have alive: "alive (gsh (run_of mm_stop_trace j))" for j using run_of_in [OF ne] by simp
  have "run_of mm_stop_trace 0 = running_mm" "mmCaller (run_of mm_stop_trace 1) = MmWait"
    by (simp_all add: run_of_def mm_stop_trace_def Let_def stop_trace_def)
  with mm_stop_returns [OF mm_stop_run_fair, of True 0 1] running_mm_reachable alive show ?thesis
    by (auto simp: running_mm_def)
qed

end
