(* ===== verification/Query_Race.thy ===== *)
theory Query_Race
  imports Gsh_Server
begin

text \<open>
  The query state under concurrent access. The setters of \<open>server.go\<close> hold \<open>stateLock\<close>; the responders,
  which have a pointer to the same state, do not take it: they read one field after the other
  while setters may run in between. Here a response is computed from a history: the state at the
  moment of each read. The lemmas say what is left of the results on undisturbed
  responses: a racing response is the undisturbed response for a state put together from the values
  read, each of which was the current one when it was read; such a state need never have
  existed. A read of one field is taken as indivisible, which for strings and slice headers is more than
  Go promises.
\<close>

section \<open>The writes of the setters\<close>

text \<open>
  The indivisible writes. \<open>SetMetric\<close> makes two: it first extends the slice within its backing
  array and then stores the value. \<open>Start\<close> sets the port when the query loop already runs.
\<close>

inductive state_write :: "query_state \<Rightarrow> query_state \<Rightarrow> bool" where
  "state_write q (q\<lparr>CurrentPlayers := p\<rparr>)"
| "state_write q (q\<lparr>MaxPlayers := p\<rparr>)"
| "state_write q (q\<lparr>ServerName := n\<rparr>)"
| "state_write q (q\<lparr>GameType := n\<rparr>)"
| "state_write q (q\<lparr>MapName := n\<rparr>)"
| "slice_len (Metrics q) \<le> n \<Longrightarrow> slice_range (Metrics q) 0 n = Return m \<Longrightarrow> state_write q (q\<lparr>Metrics := m\<rparr>)"
| "slice_set (Metrics q) i v = Return m \<Longrightarrow> state_write q (q\<lparr>Metrics := m\<rparr>)"
| "state_write q (q\<lparr>Port := port\<rparr>)"

text \<open>A call of a setter, as the game makes it from any goroutine.\<close>

datatype setter =
    CallPlayerJoined | CallPlayerLeft | CallSetCurrentPlayers int32 | CallSetMaxPlayers int32
  | CallSetServerName go_string | CallSetGameType go_string | CallSetGameMap go_string
  | CallSetMetric byte float32

fun call_setter :: "setter \<Rightarrow> server \<Rightarrow> server outcome" where
  "call_setter CallPlayerJoined s = Return (snd (PlayerJoined s))"
| "call_setter CallPlayerLeft s = Return (snd (PlayerLeft s))"
| "call_setter (CallSetCurrentPlayers p) s = Return (SetCurrentPlayers p s)"
| "call_setter (CallSetMaxPlayers p) s = Return (SetMaxPlayers p s)"
| "call_setter (CallSetServerName n) s = Return (SetServerName n s)"
| "call_setter (CallSetGameType n) s = Return (SetGameType n s)"
| "call_setter (CallSetGameMap n) s = Return (SetGameMap n s)"
| "call_setter (CallSetMetric i v) s = obind (SetMetric i v s) (\<lambda>(e, s'). Return s')"

lemmas write_once = state_write.intros(1-5) [THEN r_into_rtranclp [of state_write]]

lemma call_setter_writes:
  assumes "call_setter c s = Return s'"
  shows "state_write\<^sup>*\<^sup>* (state s) (state s')"
proof (cases c)
  case (CallSetMetric i v)
  show ?thesis
  proof (cases "QueryType (Config s) \<noteq> QueryProtocolSQP \<or> MaxMetrics \<le> unat i")
    case True
    then have "SetMetric i v s = Return (if QueryType (Config s) \<noteq> QueryProtocolSQP then Some ErrMetricsUnsupported
        else Some ErrMetricOutOfBounds, s)"
      by (auto simp: SetMetric_def)
    with assms CallSetMetric show ?thesis by simp
  next
    case False
    then have i: "unat (i + 1) = Suc (unat i)" by (simp add: unat_Suc_byte)
    from False assms CallSetMetric obtain m m' where
      m: "(if slice_len (Metrics (state s)) \<le> unat i then slice_range (Metrics (state s)) 0 (unat (i + 1))
          else Return (Metrics (state s))) = Return m"
      "slice_set m (unat i) v = Return m'" "state s' = (state s)\<lparr>Metrics := m'\<rparr>"
      by (auto simp: SetMetric_def obind_eq_Return)
    have "state_write\<^sup>*\<^sup>* (state s) ((state s)\<lparr>Metrics := m\<rparr>)"
      using m(1) i state_write.intros(6) [of "state s" "unat (i + 1)" m]
      by (cases "slice_len (Metrics (state s)) \<le> unat i") auto
    moreover have "state_write ((state s)\<lparr>Metrics := m\<rparr>) ((state s)\<lparr>Metrics := m'\<rparr>)"
      using state_write.intros(7) [of "(state s)\<lparr>Metrics := m\<rparr>" "unat i" v m'] m(2) by simp
    ultimately show ?thesis unfolding m(3) by (rule rtranclp.rtrancl_into_rtrancl)
  qed
qed (use assms in \<open>auto simp: PlayerJoined_def PlayerLeft_def SetCurrentPlayers_def SetMaxPlayers_def SetServerName_def
    SetGameType_def SetGameMap_def Let_def intro: write_once\<close>)

text \<open>The metrics only grow, and their backing array stays.\<close>

lemma state_write_metrics:
  "state_write q q' \<Longrightarrow> slice_len (Metrics q) \<le> slice_len (Metrics q') \<and> slice_cap (Metrics q') = slice_cap (Metrics q)"
  by (induction rule: state_write.induct) (auto simp: slice_defs split: if_splits)

lemma writes_metrics:
  "state_write\<^sup>*\<^sup>* q q' \<Longrightarrow> slice_len (Metrics q) \<le> slice_len (Metrics q') \<and> slice_cap (Metrics q') = slice_cap (Metrics q)"
  by (induction rule: rtranclp_induct) (use state_write_metrics order_trans in \<open>fastforce+\<close>)

section \<open>Reading field by field\<close>

text \<open>\<open>h k\<close> is the state at the \<open>k\<close>-th read of the call, in the order of the source.\<close>

type_synonym history = "nat \<Rightarrow> query_state"

definition is_history :: "history \<Rightarrow> bool" where
  "is_history h \<longleftrightarrow> (\<forall>k. state_write\<^sup>*\<^sup>* (h k) (h (Suc k)))"

definition racing_ServerInfo :: "history \<Rightarrow> sqpServerInfo" where
  "racing_ServerInfo h = \<lparr>s_CurrentPlayers = ucast (CurrentPlayers (h 0)), s_MaxPlayers = ucast (MaxPlayers (h 1)),
     s_ServerName = ServerName (h 2), s_GameType = GameType (h 3), s_BuildID = [],
     s_GameMap = MapName (h 4), s_Port = Port (h 5)\<rparr>"

text \<open>The length of the metrics is read for the buffer, the slice for the copy, then its elements.\<close>

definition racing_Metrics :: "history \<Rightarrow> sqpMetricsInfo" where
  "racing_Metrics h =
     (let l = of_nat (min (slice_len (Metrics (h 6))) MaxMetrics) :: byte;
          n = min (unat l) (slice_len (Metrics (h 7)))
      in \<lparr>Count = l, Values = map (\<lambda>i. (elems (Metrics (h (8 + i))) @ spare (Metrics (h (8 + i)))) ! i) [0..<n] @
           replicate (unat l - n) 0\<rparr>)"

definition racing_handleQuery ::
  "history \<Rightarrow> query_base \<Rightarrow> go_string \<Rightarrow> byte slice \<Rightarrow> sqp_result" where
  "racing_handleQuery h q clientAddress buf =
     (if slice_len buf < 8 then Return (q, None, Inl ErrInvalidPacketLength)
      else obind (slice_range buf 1 5) (\<lambda>b.
        let challenge = be_uint32 (elems b)
        in case ChallengeMatchesForClient clientAddress challenge q of
             (q', Some err) \<Rightarrow> Return (q', None, Inl err)
           | (q', None) \<Rightarrow>
               obind (slice_range buf 5 7) (\<lambda>b.
                 let protocolVersion = be_uint16 (elems b)
                 in if protocolVersion > 2
                    then Return (q', None, Inl (NewUnsupportedSQPVersionError protocolVersion))
                    else obind (slice_get buf 7) (\<lambda>requestedChunks.
                      let f = empty_query challenge;
                          f = (if requestedChunks AND 1 = 1 then
                                 (let size = ServerInfo_Size (racing_ServerInfo h)
                                  in f\<lparr>q_ServerInfo := Some (racing_ServerInfo h), q_ServerInfoLength := Some size,
                                       q_PayloadLength := q_PayloadLength f + (ucast size + 4)\<rparr>)
                               else f);
                          f = (if protocolVersion \<ge> 2 \<and> requestedChunks AND 16 = 16 then
                                 (let size = MetricsInfo_Size (racing_Metrics h)
                                  in f\<lparr>q_MetricsInfo := Some (racing_Metrics h), q_MetricsInfoLength := Some size,
                                       q_PayloadLength := q_PayloadLength f + (ucast size + 4)\<rparr>)
                               else f)
                      in Return (q', None, WireWrite [] sqp_encoder (query_fields f))))))"

text \<open>The same for the info packet of A2S, which reads five fields.\<close>

definition racing_a2s_info :: "go_string \<Rightarrow> history \<Rightarrow> infoWireFormat" where
  "racing_a2s_info goos h =
     (a2s_info goos None)\<lparr>i_ServerName := ServerName (h 0), i_GameMap := MapName (h 1),
        i_PlayerCount := ucast (CurrentPlayers (h 2)), i_MaxPlayers := ucast (MaxPlayers (h 3)),
        i_GameName := GameType (h 4)\<rparr>"

section \<open>The state a racing call sees\<close>

definition seen :: "history \<Rightarrow> query_state" where
  "seen h = \<lparr>CurrentPlayers = CurrentPlayers (h 0), MaxPlayers = MaxPlayers (h 1), ServerName = ServerName (h 2),
     GameType = GameType (h 3), MapName = MapName (h 4), Port = Port (h 5),
     Metrics = of_list (Values (racing_Metrics h))\<rparr>"

definition a2s_seen :: "history \<Rightarrow> query_state" where
  "a2s_seen h = zero_query_state\<lparr>ServerName := ServerName (h 0), MapName := MapName (h 1),
     CurrentPlayers := CurrentPlayers (h 2), MaxPlayers := MaxPlayers (h 3), GameType := GameType (h 4)\<rparr>"

lemma seen_ServerInfo: "queryStateToServerInfo (Some (seen h)) = racing_ServerInfo h"
  by (simp add: queryStateToServerInfo_def seen_def racing_ServerInfo_def)

lemma metrics_length: "unat (of_nat (min n MaxMetrics) :: byte) = min n MaxMetrics"
  using min_MaxMetrics_small [of n] by (simp add: unat_of_nat)

lemma racing_Values_length: "length (Values (racing_Metrics h)) = min (slice_len (Metrics (h 6))) MaxMetrics"
  by (simp add: racing_Metrics_def Let_def metrics_length)

lemma seen_Metrics: "queryStateToMetrics (Some (seen h)) = Return (racing_Metrics h)"
proof -
  have "slice_len (Metrics (seen h)) = min (slice_len (Metrics (h 6))) MaxMetrics"
    "elems (Metrics (seen h)) = Values (racing_Metrics h)"
    by (simp_all add: seen_def of_list_def slice_len_def racing_Values_length [unfolded slice_len_def])
  moreover have "Count (racing_Metrics h) = of_nat (min (slice_len (Metrics (h 6))) MaxMetrics)"
    by (simp add: racing_Metrics_def Let_def)
  ultimately show ?thesis
    by (simp add: queryStateToMetrics_eq racing_Values_length)
qed

lemma racing_handleQuery_seen: "racing_handleQuery h q a buf = handleQuery (Some (seen h)) q a buf"
  unfolding racing_handleQuery_def handleQuery_def add_server_info_def add_metrics_def
    seen_ServerInfo seen_Metrics obind.simps Let_def empty_query_def
  by (auto intro!: arg_cong2 [where f = obind] ext split: prod.split option.split)

lemma racing_a2s_seen: "racing_a2s_info goos h = a2s_info goos (Some (a2s_seen h))"
  by (simp add: racing_a2s_info_def a2s_info_def a2s_seen_def)

text \<open>Without writes in between a racing call is the call of the responder.\<close>

lemma racing_quiet_ServerInfo: "racing_ServerInfo (\<lambda>k. qs) = queryStateToServerInfo (Some qs)"
  by (simp add: racing_ServerInfo_def queryStateToServerInfo_def)

lemma racing_quiet_Metrics: "queryStateToMetrics (Some qs) = Return (racing_Metrics (\<lambda>k. qs))"
proof -
  let ?l = "min (slice_len (Metrics qs)) MaxMetrics"
  have "map (\<lambda>i. (elems (Metrics qs) @ spare (Metrics qs)) ! i) [0..<?l] = take MaxMetrics (elems (Metrics qs))"
    by (rule nth_equalityI) (auto simp: slice_len_def nth_append)
  moreover have "min ?l (slice_len (Metrics qs)) = ?l" by simp
  ultimately show ?thesis
    by (simp add: queryStateToMetrics_eq racing_Metrics_def Let_def metrics_length)
qed

section \<open>Histories\<close>

lemma history_writes:
  assumes "is_history h" "i \<le> j"
  shows "state_write\<^sup>*\<^sup>* (h i) (h j)"
  using assms(2)
proof (induction rule: dec_induct)
  case (step j)
  with assms(1) show ?case by (meson is_history_def rtranclp_trans)
qed simp

text \<open>The copy finds all the metrics it has counted, so nothing is padded with zeros.\<close>

lemma seen_metric_values:
  assumes "is_history h"
  shows "elems (Metrics (seen h)) =
    map (\<lambda>i. elems (Metrics (h (8 + i))) ! i) [0..<min (slice_len (Metrics (h 6))) MaxMetrics]"
proof -
  let ?l = "min (slice_len (Metrics (h 6))) MaxMetrics"
  have len: "slice_len (Metrics (h 6)) \<le> slice_len (Metrics (h j))" if "6 \<le> j" for j
    using writes_metrics [OF history_writes [OF assms that]] by simp
  have n: "min ?l (slice_len (Metrics (h 7))) = ?l" using len [of 7] by (simp add: min.coboundedI1)
  have "(elems (Metrics (h (8 + i))) @ spare (Metrics (h (8 + i)))) ! i = elems (Metrics (h (8 + i))) ! i"
    if "i < ?l" for i
    using len [of "8 + i"] that by (simp add: slice_len_def nth_append)
  then show ?thesis
    by (simp add: seen_def of_list_def racing_Metrics_def Let_def metrics_length n)
qed

section \<open>A history that tears\<close>

definition torn_history :: history where
  "torn_history k = (if k \<le> 2 then zero_query_state else zero_query_state\<lparr>ServerName := ''b'', MapName := ''b''\<rparr>)"

lemma torn_is_history: "is_history torn_history"
  unfolding is_history_def
proof
  fix k
  have "state_write\<^sup>*\<^sup>* zero_query_state (zero_query_state\<lparr>ServerName := ''b'', MapName := ''b''\<rparr>)"
    using state_write.intros(3) [of zero_query_state "''b''"] state_write.intros(5) [of "zero_query_state\<lparr>ServerName := ''b''\<rparr>" "''b''"]
    by (simp add: converse_rtranclp_into_rtranclp)
  then show "state_write\<^sup>*\<^sup>* (torn_history k) (torn_history (Suc k))" by (simp add: torn_history_def)
qed

section \<open>Properties\<close>

text \<open>C8. A query that races with the setters. Whatever setters run between the reads of the responder, a query packet of
  eight bytes or more does not make it panic, and the packet it sends decodes to the values it read, each one the
  current value at its read: the fields of \<open>seen h\<close>, and for each metric counted the value it had when it was copied.\<close>

theorem racing_query_answered:
  assumes "is_history h" and "8 \<le> slice_len buf"
    and "sqp_string_ok (ServerName (h 2))" and "sqp_string_ok (GameType (h 3))" and "sqp_string_ok (MapName (h 4))"
    and "i = wants_info (elems buf)" and "m = (wants_metrics (elems buf) \<and> query_version (elems buf) \<ge> 2)"
  shows "\<exists>q' g r. racing_handleQuery h q a buf = Return (q', g, r) \<and>
    (\<forall>p. r = Inr p \<longrightarrow> sqp_decode i m (p @ rest) = Some
      (expected_header (query_challenge (elems buf)) (length p - 11) @
       (if i then expected_info (seen h) else []) @ (if m then expected_metrics (seen h) else []), rest)) \<and>
    elems (Metrics (seen h)) =
      map (\<lambda>k. elems (Metrics (h (8 + k))) ! k) [0..<min (slice_len (Metrics (h 6))) MaxMetrics]"
proof -
  obtain q' g r where r: "query_answer (Some (seen h)) q a (elems buf) = (q', g, r)" by (cases rule: prod_cases3)
  have run: "racing_handleQuery h q a buf = Return (q', g, r)"
    using r by (simp add: racing_handleQuery_seen handleQuery_eq [OF assms(2)] metrics_panic_def)
  have ok: "sqp_string_ok (ServerName (seen h))" "sqp_string_ok (GameType (seen h))" "sqp_string_ok (MapName (seen h))"
    using assms(3-5) by (simp_all add: seen_def)
  have "sqp_decode i m (p @ rest) = Some (expected_header (query_challenge (elems buf)) (length p - 11) @
      (if i then expected_info (seen h) else []) @ (if m then expected_metrics (seen h) else []), rest)"
    if "r = Inr p" for p
  proof -
    from r that have p: "p = sqp_response (query_challenge (elems buf)) (sqp_payload i m (Some (seen h)))"
      by (auto simp: query_answer_def assms(6,7) split: prod.splits option.splits if_splits)
    then have "length p - 11 = length (sqp_payload i m (Some (seen h)))" by (simp add: sqp_response_def)
    with sqp_response_decode [OF ok, of i m "query_challenge (elems buf)" rest] p show ?thesis by simp
  qed
  with run seen_metric_values [OF assms(1)] show ?thesis by blast
qed

theorem racing_query_answered_witness:
  "\<exists>q1 q' g p. racing_handleQuery torn_history q1 ''c'' (sqp_query_request 7 1 1 0) = Return (q', g, Inr p) \<and>
    LString [] \<in> set (fst (the (sqp_decode True False p))) \<and> LString ''b'' \<in> set (fst (the (sqp_decode True False p)))"
proof -
  obtain q1 g where g: "GenerateChallenge (sample_env 5 7) ''c'' new_query_base = (q1, g, Inr 7)"
    using sample_generate_ok by blast
  have "(1 :: uint16) \<le> 2" by simp
  from sqp_exchange [OF g this, of "Some (seen torn_history)" 1 None 0 "sample_env 6 8" None "sample_env 6 8"]
  obtain q2 p where r: "sqp_Respond (Some (seen torn_history)) (sample_env 6 8) q1 ''c'' (sqp_query_request 7 1 1 0)
      = Return (q2, None, Inr p)" by auto
  note parts = query_request_parts [OF refl, of 7 1 1 0]
  note len = sqp_query_request_Respond(2) [of 7 1 1 0]
  have run: "racing_handleQuery torn_history q1 ''c'' (sqp_query_request 7 1 1 0) = Return (q2, None, Inr p)"
    using r by (simp add: racing_handleQuery_seen sqp_query_request_Respond)
  have ok: "sqp_string_ok (ServerName (torn_history 2))" "sqp_string_ok (GameType (torn_history 3))"
    "sqp_string_ok (MapName (torn_history 4))"
    by (simp_all add: torn_history_def sqp_string_ok_def zero_query_state_def)
  from racing_query_answered [OF torn_is_history len ok refl refl, of q1 "''c''" "[]"] run parts
  have dec: "sqp_decode True False p = Some (expected_header 7 (length p - 11) @ expected_info (seen torn_history), [])"
    by auto
  show ?thesis
    by (intro exI conjI, rule run)
      (simp_all add: dec expected_info_def seen_def torn_history_def zero_query_state_def)
qed

text \<open>A packet can tell of a state that never was: the old name with the new map.\<close>

theorem torn_response:
  "\<exists>h. is_history h \<and> (\<forall>k. racing_ServerInfo h \<noteq> queryStateToServerInfo (Some (h k)))"
  by (rule exI [of _ torn_history])
    (simp add: torn_is_history racing_ServerInfo_def queryStateToServerInfo_def torn_history_def zero_query_state_def)

end
