(* ===== verification/Lock_Contract.thy ===== *)
theory Lock_Contract
  imports Main
begin

text \<open>
  Goroutines that share a value behind a lock (\<open>sync.Mutex\<close>, \<open>sync.RWMutex\<close>). A call takes the lock, runs the
  instructions of its section one at a time, each a single read or write, and releases the lock;
  between two instructions any other goroutine may run. The locale \<open>critical_section\<close> is the contract between a
  section and the operation it is meant to be; its lemmas say that whatever the interleaving, the
  calls have the results of the operations done one after the other, in the order in which the lock was
  released. Elsewhere an operation that holds a lock for its whole body is therefore one step.
\<close>

section \<open>Goroutines at a lock\<close>

text \<open>An instruction acts on the shared value and on a register of the goroutine, which in the end holds the result.\<close>

type_synonym ('s, 'r) instr = "'s \<times> 'r \<Rightarrow> 's \<times> 'r"

datatype ('c, 's, 'r) thread =
    Calling 'c                                 \<comment> \<open>before or in \<open>Lock()\<close>\<close>
  | Inside 'c "('s, 'r) instr list" 'r         \<comment> \<open>has the lock, with the instructions left and its register\<close>
  | Returned 'c 'r

record ('c, 's, 'r) lock_sys =
  shared :: 's
  threads :: "('c, 's, 'r) thread list"
  finished :: "(nat \<times> 'c \<times> 'r) list"           \<comment> \<open>the calls that have returned, in the order of their \<open>Unlock()\<close>\<close>

definition lock_start :: "'s \<Rightarrow> 'c list \<Rightarrow> ('c, 's, 'r) lock_sys" where
  "lock_start a cs = \<lparr>shared = a, threads = map Calling cs, finished = []\<rparr>"

text \<open>The goroutine is inside with a call, or inside with a call that holds the lock for writing.\<close>

fun inside :: "('c, 's, 'r) thread \<Rightarrow> 'c option" where
  "inside (Inside c fs r) = Some c"
| "inside _ = None"

definition writing :: "('c \<Rightarrow> bool) \<Rightarrow> ('c, 's, 'r) thread \<Rightarrow> bool" where
  "writing exclusive t \<longleftrightarrow> pred_option exclusive (inside t) \<and> inside t \<noteq> None"

lemma writing_simps [simp]:
  "writing exclusive (Inside c fs r) = exclusive c" "\<not> writing exclusive (Calling c)"
  "\<not> writing exclusive (Returned c r)"
  by (simp_all add: writing_def)

text \<open>A writer gets the lock when nobody has it, a reader when no writer has it.\<close>

definition may_enter :: "('c \<Rightarrow> bool) \<Rightarrow> 'c \<Rightarrow> ('c, 's, 'r) thread list \<Rightarrow> bool" where
  "may_enter exclusive c ts \<longleftrightarrow>
     (\<forall>t \<in> set ts. \<not> writing exclusive t \<and> (exclusive c \<longrightarrow> inside t = None))"

inductive lock_step ::
  "('c \<Rightarrow> ('s, 'r) instr list) \<Rightarrow> ('c \<Rightarrow> bool) \<Rightarrow> 'r \<Rightarrow> ('c, 's, 'r) lock_sys \<Rightarrow> ('c, 's, 'r) lock_sys \<Rightarrow> bool"
  for code exclusive r0 where
  lock:
    "i < length (threads x) \<Longrightarrow> threads x ! i = Calling c \<Longrightarrow> may_enter exclusive c (threads x) \<Longrightarrow>
     lock_step code exclusive r0 x (x\<lparr>threads := (threads x)[i := Inside c (code c) r0]\<rparr>)"
| instruction:
    "i < length (threads x) \<Longrightarrow> threads x ! i = Inside c (f # fs) r \<Longrightarrow> f (shared x, r) = (a, r') \<Longrightarrow>
     lock_step code exclusive r0 x (x\<lparr>shared := a, threads := (threads x)[i := Inside c fs r']\<rparr>)"
| unlock:
    "i < length (threads x) \<Longrightarrow> threads x ! i = Inside c [] r \<Longrightarrow>
     lock_step code exclusive r0 x
       (x\<lparr>threads := (threads x)[i := Returned c r], finished := finished x @ [(i, c, r)]\<rparr>)"

text \<open>The calls one after the other.\<close>

fun serial :: "('c \<Rightarrow> 's \<Rightarrow> 's \<times> 'r) \<Rightarrow> (nat \<times> 'c \<times> 'r) list \<Rightarrow> 's \<Rightarrow> 's \<Rightarrow> bool" where
  "serial atomic [] a b \<longleftrightarrow> a = b"
| "serial atomic ((i, c, r) # hist) a b \<longleftrightarrow> snd (atomic c a) = r \<and> serial atomic hist (fst (atomic c a)) b"

lemma serial_append [simp]:
  "serial atomic (hist @ hist') a b \<longleftrightarrow> (\<exists>d. serial atomic hist a d \<and> serial atomic hist' d b)"
  by (induction hist arbitrary: a) auto

definition run_section :: "('s, 'r) instr list \<Rightarrow> 's \<times> 'r \<Rightarrow> 's \<times> 'r" where
  "run_section fs = fold (\<lambda>f. f) fs"

lemma run_section_simps [simp]:
  "run_section [] x = x" "run_section (f # fs) x = run_section fs (f x)"
  "run_section (fs @ gs) x = run_section gs (run_section fs x)"
  by (simp_all add: run_section_def)

section \<open>Sections that implement operations\<close>

locale critical_section =
  fixes code :: "'c \<Rightarrow> ('s, 'r) instr list"
    and exclusive :: "'c \<Rightarrow> bool"
    and r0 :: 'r
    and atomic :: "'c \<Rightarrow> 's \<Rightarrow> 's \<times> 'r"
  assumes code_atomic: "run_section (code c) (a, r0) = atomic c a"
    and readers_keep: "\<not> exclusive c \<Longrightarrow> f \<in> set (code c) \<Longrightarrow> fst (f (a, r)) = a"
begin

text \<open>
  The invariant, relative to the value \<open>b\<close> of the calls that have returned: a goroutine that is inside will end with the
  result of its operation on \<open>b\<close>; without a writer inside the shared value is \<open>b\<close>; and a writer is alone.
\<close>

definition lock_inv :: "'s \<Rightarrow> ('c, 's, 'r) lock_sys \<Rightarrow> bool" where
  "lock_inv b x \<longleftrightarrow>
     (\<forall>i < length (threads x). \<forall>c fs r. threads x ! i = Inside c fs r \<longrightarrow>
        run_section fs (shared x, r) = atomic c b \<and> (\<not> exclusive c \<longrightarrow> set fs \<subseteq> set (code c)) \<and>
        (exclusive c \<longrightarrow> (\<forall>j < length (threads x). j \<noteq> i \<longrightarrow> inside (threads x ! j) = None))) \<and>
     ((\<forall>t \<in> set (threads x). \<not> writing exclusive t) \<longrightarrow> shared x = b)"

lemma readers_section: "\<not> exclusive c \<Longrightarrow> set fs \<subseteq> set (code c) \<Longrightarrow> fst (run_section fs (a, r)) = a"
proof (induction fs arbitrary: r)
  case (Cons f fs)
  moreover obtain r' where "f (a, r) = (a, r')" using readers_keep [of c f a r] Cons.prems by (cases "f (a, r)") auto
  ultimately show ?case by simp
qed simp

lemma reader_atomic: "\<not> exclusive c \<Longrightarrow> fst (atomic c a) = a"
  using readers_section [of c "code c" a r0] by (simp add: code_atomic)

lemma lock_inv_start: "lock_inv a (lock_start a cs)"
  by (simp add: lock_inv_def lock_start_def)

lemma lock_inv_inside:
  assumes "lock_inv b x" "i < length (threads x)" "threads x ! i = Inside c fs r"
  shows "run_section fs (shared x, r) = atomic c b" "\<not> exclusive c \<Longrightarrow> set fs \<subseteq> set (code c)"
    "exclusive c \<Longrightarrow> j < length (threads x) \<Longrightarrow> j \<noteq> i \<Longrightarrow> inside (threads x ! j) = None"
  using assms unfolding lock_inv_def by blast+

text \<open>While a reader is inside, no writer is, so the shared value is \<open>b\<close>.\<close>

lemma lock_inv_reader:
  assumes "lock_inv b x" "i < length (threads x)" "threads x ! i = Inside c fs r" "\<not> exclusive c"
  shows "shared x = b"
proof -
  have "\<not> writing exclusive (threads x ! j)" if "j < length (threads x)" for j
  proof
    assume w: "writing exclusive (threads x ! j)"
    then obtain d gs q where j: "threads x ! j = Inside d gs q" "exclusive d"
      by (cases "threads x ! j") auto
    with assms(3,4) have "j \<noteq> i" by auto
    from lock_inv_inside(3) [OF assms(1) that j(1,2) assms(2)] this assms(3) show False by simp
  qed
  with assms(1) show ?thesis by (auto simp: lock_inv_def in_set_conv_nth)
qed

lemma lock_inv_lock:
  assumes "lock_inv b x" "i < length (threads x)" "may_enter exclusive c (threads x)"
  shows "lock_inv b (x\<lparr>threads := (threads x)[i := Inside c (code c) r0]\<rparr>)"
proof -
  have free: "\<not> writing exclusive (threads x ! j)" "exclusive c \<Longrightarrow> inside (threads x ! j) = None"
    if "j < length (threads x)" for j
    using assms(3) that unfolding may_enter_def by simp_all
  then have b: "shared x = b" using assms(1) by (auto simp: lock_inv_def in_set_conv_nth)
  show ?thesis
    unfolding lock_inv_def
  proof (intro conjI allI impI, goal_cases)
    case (1 j d fs r)
    then show ?case
      by (cases "j = i") (use assms(2) lock_inv_inside(1) [OF assms(1)] code_atomic [of c b] in \<open>auto simp: b\<close>)
  next
    case (2 j d fs r)
    then show ?case
      by (cases "j = i") (use assms(2) lock_inv_inside(2) [OF assms(1), of j d fs r] in auto)
  next
    case (3 j d fs r k)
    show ?case
    proof (cases "j = i")
      case True
      with 3 assms(2) free(2) [of k] show ?thesis by auto
    next
      case False
      with 3 assms(2) have "threads x ! j = Inside d fs r" by simp
      with free(1) [of j] 3 show ?thesis by auto
    qed
  next
    case 4
    then show ?case using b by simp
  qed
qed

lemma lock_inv_instruction:
  assumes "lock_inv b x" "i < length (threads x)" "threads x ! i = Inside c (f # fs) r" "f (shared x, r) = (a, r')"
  shows "lock_inv b (x\<lparr>shared := a, threads := (threads x)[i := Inside c fs r']\<rparr>)"
proof -
  note i = lock_inv_inside [OF assms(1-3)]
  have a: "a = b" "shared x = b" if "\<not> exclusive c"
    using readers_keep [OF that, of f "shared x" r] i(2) [OF that] assms(4) lock_inv_reader [OF assms(1-3) that] by auto
  show ?thesis
    unfolding lock_inv_def
  proof (intro conjI allI impI, goal_cases)
    case (1 j d gs q)
    show ?case
    proof (cases "j = i")
      case True
      with 1 assms(2,4) i(1) show ?thesis by simp
    next
      case False
      with 1 assms(2) have j: "threads x ! j = Inside d gs q" "j < length (threads x)" by auto
      with i(3) [of j] False have "\<not> exclusive c" by auto
      from lock_inv_inside(1) [OF assms(1) j(2,1)] a [OF this] show ?thesis by simp
    qed
  next
    case (2 j d gs q)
    then show ?case
      by (cases "j = i") (use assms(2) i(2) lock_inv_inside(2) [OF assms(1), of j d gs q] in auto)
  next
    case (3 j d gs q k)
    then show ?case
      by (cases "j = i"; cases "k = i")
        (use assms(2,3) i(3) [of k] lock_inv_inside(3) [OF assms(1), of j d gs q] in force)+
  next
    case 4
    moreover have "Inside c fs r' \<in> set ((threads x)[i := Inside c fs r'])" by (rule set_update_memI [OF assms(2)])
    ultimately have "\<not> exclusive c" by fastforce
    then show ?case using a by simp
  qed
qed

lemma lock_inv_unlock:
  assumes "lock_inv b x" "i < length (threads x)" "threads x ! i = Inside c [] r"
  shows "snd (atomic c b) = r \<and> lock_inv (fst (atomic c b))
    (x\<lparr>threads := (threads x)[i := Returned c r], finished := finished x @ [(i, c, r)]\<rparr>)"
proof -
  note i = lock_inv_inside [OF assms]
  have at: "atomic c b = (shared x, r)" using i(1) by simp
  have b: "shared x = b" if "\<not> exclusive c" using lock_inv_reader [OF assms that] .
  have out: "\<not> exclusive c" if "j < length (threads x)" "j \<noteq> i" "threads x ! j = Inside d gs q" for j d gs q
    using i(3) [OF _ that(1,2)] that(3) by auto
  have "lock_inv (shared x) (x\<lparr>threads := (threads x)[i := Returned c r], finished := finished x @ [(i, c, r)]\<rparr>)"
    unfolding lock_inv_def
  proof (intro conjI allI impI, goal_cases)
    case (1 j d gs q)
    then have j: "j \<noteq> i" "j < length (threads x)" "threads x ! j = Inside d gs q"
      using assms(2) by (auto simp: nth_list_update split: if_splits)
    from lock_inv_inside(1) [OF assms(1) j(2,3)] b [OF out [OF j(2,1,3)]] show ?case by simp
  next
    case (2 j d gs q)
    then have j: "j < length (threads x)" "threads x ! j = Inside d gs q"
      using assms(2) by (auto simp: nth_list_update split: if_splits)
    from lock_inv_inside(2) [OF assms(1) this 2(3)] show ?case .
  next
    case (3 j d gs q k)
    then have j: "j < length (threads x)" "threads x ! j = Inside d gs q" "k < length (threads x)"
      using assms(2) by (auto simp: nth_list_update split: if_splits)
    from lock_inv_inside(3) [OF assms(1) j(1,2) 3(3) j(3) 3(5)] assms(2) show ?case
      by (cases "k = i") auto
  qed simp
  with at show ?thesis by simp
qed

lemma lock_inv_step:
  assumes "lock_step code exclusive r0 x y" "lock_inv b x"
  obtains "finished y = finished x" "lock_inv b y"
  | i c r where "finished y = finished x @ [(i, c, r)]" "snd (atomic c b) = r" "lock_inv (fst (atomic c b)) y"
  using assms(1)
proof cases
  case (lock i c)
  with lock_inv_lock [OF assms(2)] that(1) show ?thesis by simp
next
  case (instruction i c f fs r a r')
  with lock_inv_instruction [OF assms(2)] that(1) show ?thesis by simp
next
  case (unlock i c r)
  with lock_inv_unlock [OF assms(2)] that(2) show ?thesis by simp
qed

text \<open>Linearisation: the calls that have returned have the results they have one after the other.\<close>

lemma linearised:
  assumes "(lock_step code exclusive r0)\<^sup>*\<^sup>* (lock_start a cs) x"
  shows "\<exists>b. serial atomic (finished x) a b \<and> lock_inv b x"
  using assms
proof (induction rule: rtranclp_induct)
  case base
  show ?case by (rule exI [of _ a]) (simp add: lock_inv_start, simp add: lock_start_def)
next
  case (step x y)
  then obtain b where b: "serial atomic (finished x) a b" "lock_inv b x" by blast
  from step(2) b(2) show ?case
    by (cases rule: lock_inv_step) (use b(1) in auto)
qed

lemma linearised_quiet:
  assumes "(lock_step code exclusive r0)\<^sup>*\<^sup>* (lock_start a cs) x" "\<forall>t \<in> set (threads x). \<not> writing exclusive t"
  shows "serial atomic (finished x) a (shared x)"
  using linearised [OF assms(1)] assms(2) by (auto simp: lock_inv_def)

end

section \<open>A value that is read and written as a whole\<close>

definition writes_of :: "('c \<Rightarrow> 's option) \<Rightarrow> (nat \<times> 'c \<times> 'r) list \<Rightarrow> 's list" where
  "writes_of written h = List.map_filter (\<lambda>(i, c, r). written c) h"

lemma writes_of_simps [simp]:
  "writes_of written [] = []"
  "writes_of written ((i, c, r) # h) = (case written c of None \<Rightarrow> [] | Some v \<Rightarrow> [v]) @ writes_of written h"
  by (simp_all add: writes_of_def map_filter_simps split: option.split)

text \<open>The calls either replace the value or return it: a read returns what was written last.\<close>

locale locked_register = critical_section code exclusive r0 atomic
  for code :: "'c \<Rightarrow> ('s, 's) instr list" and exclusive r0 atomic +
  fixes written :: "'c \<Rightarrow> 's option"
  assumes writes: "written c = Some v \<Longrightarrow> fst (atomic c a) = v"
    and reads: "written c = None \<Longrightarrow> atomic c a = (a, a)"
begin

lemma serial_last: "serial atomic h a b \<Longrightarrow> b = last (a # writes_of written h)"
proof (induction h arbitrary: a)
  case (Cons x h)
  obtain i c r where x: "x = (i, c, r)" by (cases x)
  with Cons.prems have h: "serial atomic h (fst (atomic c a)) b" by simp
  show ?case
  proof (cases "written c")
    case None
    with Cons.IH [OF h] reads [OF None, of a] show ?thesis by (simp add: x)
  next
    case (Some v)
    with Cons.IH [OF h] writes [OF Some, of a] show ?thesis by (simp add: x)
  qed
qed simp

lemma read_last:
  assumes "(lock_step code exclusive r0)\<^sup>*\<^sup>* (lock_start a cs) x" "finished x = pre @ (i, c, r) # post" "written c = None"
  shows "r = last (a # writes_of written pre)"
proof -
  obtain b where "serial atomic (finished x) a b" using linearised [OF assms(1)] by blast
  then obtain d where d: "serial atomic pre a d" "r = snd (atomic c d)" by (auto simp: assms(2))
  with serial_last [OF d(1)] reads [OF assms(3), of d] show ?thesis by simp
qed

end

section \<open>Accounting of the calls\<close>

primrec call_of :: "('c, 's, 'r) thread \<Rightarrow> 'c" where
  "call_of (Calling c) = c"
| "call_of (Inside c fs r) = c"
| "call_of (Returned c r) = c"

definition account :: "'c list \<Rightarrow> ('c, 's, 'r) lock_sys \<Rightarrow> bool" where
  "account cs x \<longleftrightarrow> map call_of (threads x) = cs \<and> distinct (map fst (finished x)) \<and>
     (\<forall>i c r. (i, c, r) \<in> set (finished x) \<longleftrightarrow> i < length (threads x) \<and> threads x ! i = Returned c r)"

lemma map_update_same: "i < length xs \<Longrightarrow> f y = f (xs ! i) \<Longrightarrow> map f (xs[i := y]) = map f xs"
  by (metis list_update_id map_update)

lemma account_step:
  assumes "lock_step code exclusive r0 x y" "account cs x"
  shows "account cs y"
  using assms(1)
proof cases
  case (lock i c)
  with assms(2) map_update_same [of i "threads x" call_of] show ?thesis
    by (auto simp: account_def nth_list_update)
next
  case (instruction i c f fs r a r')
  with assms(2) map_update_same [of i "threads x" call_of] show ?thesis
    by (auto simp: account_def nth_list_update)
next
  case (unlock i c r)
  then have "i \<notin> fst ` set (finished x)" using assms(2) by (auto simp: account_def)
  with unlock assms(2) map_update_same [of i "threads x" call_of] show ?thesis
    by (auto simp: account_def nth_list_update)
qed

lemma account_run:
  "(lock_step code exclusive r0)\<^sup>*\<^sup>* (lock_start a cs) x \<Longrightarrow> account cs x"
proof (induction rule: rtranclp_induct)
  case base
  show ?case by (auto simp: account_def lock_start_def comp_def)
qed (rule account_step)

lemma account_finished:
  assumes "account cs x" "(i, c, r) \<in> set (finished x)"
  shows "i < length cs" "cs ! i = c"
proof -
  have "length cs = length (threads x)" "cs ! i = call_of (threads x ! i)" "i < length (threads x)" "threads x ! i = Returned c r"
    using assms by (auto simp: account_def)
  then show "i < length cs" "cs ! i = c" by simp_all
qed

section \<open>Nobody waits for ever\<close>

text \<open>A goroutine that is inside can go on to the end of its section and return.\<close>

lemma finish_section:
  assumes "i < length (threads x)" "threads x ! i = Inside c fs r" "run_section fs (shared x, r) = (a, r')"
  shows "(lock_step code exclusive r0)\<^sup>*\<^sup>* x (x\<lparr>shared := a, threads := (threads x)[i := Returned c r'],
    finished := finished x @ [(i, c, r')]\<rparr>)"
  using assms
proof (induction fs arbitrary: x r)
  case Nil
  then have "lock_step code exclusive r0 x (x\<lparr>threads := (threads x)[i := Returned c r], finished := finished x @ [(i, c, r)]\<rparr>)"
    by (intro unlock) simp_all
  moreover have "x\<lparr>shared := a\<rparr> = x" using Nil.prems(3) by simp
  ultimately show ?case using Nil.prems(3) by (auto dest!: arg_cong [of _ _ threads])
next
  case (Cons f fs)
  obtain b q where f: "f (shared x, r) = (b, q)" by (cases "f (shared x, r)")
  let ?y = "x\<lparr>shared := b, threads := (threads x)[i := Inside c fs q]\<rparr>"
  have "lock_step code exclusive r0 x ?y" by (rule instruction [OF Cons.prems(1,2) f])
  moreover from Cons.IH [of ?y q] Cons.prems f
  have "(lock_step code exclusive r0)\<^sup>*\<^sup>* ?y (x\<lparr>shared := a, threads := (threads x)[i := Returned c r'],
    finished := finished x @ [(i, c, r')]\<rparr>)" by simp
  ultimately show ?case by (rule converse_rtranclp_into_rtranclp)
qed

text \<open>When nobody has the lock, a call can be made from its beginning to its end.\<close>

lemma call_alone:
  assumes "i < length (threads x)" "threads x ! i = Calling c" "\<forall>t \<in> set (threads x). inside t = None"
    and "run_section (code c) (shared x, r0) = (a, r)"
  shows "(lock_step code exclusive r0)\<^sup>*\<^sup>* x (x\<lparr>shared := a, threads := (threads x)[i := Returned c r],
    finished := finished x @ [(i, c, r)]\<rparr>)"
proof -
  have "may_enter exclusive c (threads x)" using assms(3) by (simp add: may_enter_def writing_def)
  from lock [OF assms(1,2) this]
  have "lock_step code exclusive r0 x (x\<lparr>threads := (threads x)[i := Inside c (code c) r0]\<rparr>)" .
  moreover from finish_section [of i "x\<lparr>threads := (threads x)[i := Inside c (code c) r0]\<rparr>" c "code c" r0 a r] assms(1,4)
  have "(lock_step code exclusive r0)\<^sup>*\<^sup>* (x\<lparr>threads := (threads x)[i := Inside c (code c) r0]\<rparr>)
    (x\<lparr>shared := a, threads := (threads x)[i := Returned c r], finished := finished x @ [(i, c, r)]\<rparr>)" by simp
  ultimately show ?thesis by (rule converse_rtranclp_into_rtranclp)
qed

definition unfinished :: "('c, 's, 'r) lock_sys \<Rightarrow> nat set" where
  "unfinished x = {i. i < length (threads x) \<and> (\<forall>c r. threads x ! i \<noteq> Returned c r)}"

lemma unfinished_return:
  "i \<in> unfinished x \<Longrightarrow> unfinished (x\<lparr>shared := a, threads := (threads x)[i := Returned c r], finished := h\<rparr>) = unfinished x - {i}"
  by (auto simp: unfinished_def nth_list_update)

lemma one_returns:
  assumes "unfinished x \<noteq> {}"
  obtains y i where "(lock_step code exclusive r0)\<^sup>*\<^sup>* x y" "i \<in> unfinished x" "unfinished y = unfinished x - {i}"
proof (cases "\<exists>i < length (threads x). inside (threads x ! i) \<noteq> None")
  case True
  then obtain i c fs r where i: "i < length (threads x)" "threads x ! i = Inside c fs r"
    by (metis inside.elims)
  obtain a r' where "run_section fs (shared x, r) = (a, r')" by (cases "run_section fs (shared x, r)")
  from finish_section [OF i this, of code exclusive r0] show thesis
    by (rule that [OF _ _ unfinished_return]) (use i in \<open>auto simp: unfinished_def\<close>)
next
  case False
  from assms obtain i where i: "i \<in> unfinished x" by auto
  with False obtain c where c: "i < length (threads x)" "threads x ! i = Calling c"
    by (cases "threads x ! i") (auto simp: unfinished_def)
  have free: "\<forall>t \<in> set (threads x). inside t = None" using False by (auto simp: in_set_conv_nth)
  obtain a r where "run_section (code c) (shared x, r0) = (a, r)" by (cases "run_section (code c) (shared x, r0)")
  from call_alone [of i x c code r0 a r exclusive, OF c free this] show thesis
    by (rule that [OF _ i unfinished_return [OF i]])
qed

lemma all_return:
  "\<exists>y. (lock_step code exclusive r0)\<^sup>*\<^sup>* x y \<and> unfinished y = {}"
proof (induction "card (unfinished x)" arbitrary: x)
  case 0
  have "finite (unfinished x)" by (simp add: unfinished_def)
  with 0 show ?case by auto
next
  case (Suc n)
  then have "unfinished x \<noteq> {}" by auto
  then obtain y i where y: "(lock_step code exclusive r0)\<^sup>*\<^sup>* x y" "i \<in> unfinished x" "unfinished y = unfinished x - {i}"
    by (rule one_returns)
  then have "n = card (unfinished y)" using Suc(2) by (simp add: card_Diff_singleton)
  from Suc(1) [OF this] y(1) show ?case by (meson rtranclp_trans)
qed

end
