(* ===== verification/Gsh_Locks.thy ===== *)
theory Gsh_Locks
  imports Query_Race Lock_Contract
begin

text \<open>
  The locks of \<open>server.go\<close>, at the level of single reads and writes: \<open>stateLock\<close> around the setters,
  \<open>currentConfigMtx\<close> around the configuration, \<open>allocatedUUIDMtx\<close> around the current allocation. Each is an
  interpretation of \<open>critical_section\<close>, so that goroutines calling these operations at the same time get what
  they would get one after the other; this is why the other theories treat each of them as one step.
\<close>

section \<open>stateLock\<close>

datatype setter_result =
    NoResult
  | Players int32
  | MetricError "gsh_error option"
  | MetricPanic go_panic

type_synonym setter_instr = "(query_state, setter_result) instr"

definition load_players :: setter_instr where
  "load_players = (\<lambda>(q, r). (q, Players (CurrentPlayers q)))"

text \<open>What is stored, if anything, depends on the count that was read.\<close>

definition store_players :: "(int32 \<Rightarrow> int32 option) \<Rightarrow> setter_instr" where
  "store_players f = (\<lambda>(q, r).
     (case r of
        Players n \<Rightarrow> (case f n of None \<Rightarrow> q | Some m \<Rightarrow> q\<lparr>CurrentPlayers := m\<rparr>)
      | _ \<Rightarrow> q, r))"

definition write_state :: "(query_state \<Rightarrow> query_state) \<Rightarrow> setter_instr" where
  "write_state f = (\<lambda>(q, r). (f q, r))"

text \<open>The three parts of \<open>SetMetric\<close> under the lock; the first that fails ends it.\<close>

definition check_metric :: "byte \<Rightarrow> setter_instr" where
  "check_metric i = (\<lambda>(q, r). (q, if MaxMetrics \<le> unat i then MetricError (Some ErrMetricOutOfBounds) else NoResult))"

definition expand_metrics :: "byte \<Rightarrow> setter_instr" where
  "expand_metrics i = (\<lambda>(q, r).
     if r = NoResult \<and> slice_len (Metrics q) \<le> unat i
     then (case slice_range (Metrics q) 0 (unat (i + 1)) of
             Return m \<Rightarrow> (q\<lparr>Metrics := m\<rparr>, r)
           | Panic p \<Rightarrow> (q, MetricPanic p))
     else (q, r))"

definition store_metric :: "byte \<Rightarrow> float32 \<Rightarrow> setter_instr" where
  "store_metric i v = (\<lambda>(q, r).
     if r = NoResult
     then (case slice_set (Metrics q) (unat i) v of
             Return m \<Rightarrow> (q\<lparr>Metrics := m\<rparr>, MetricError None)
           | Panic p \<Rightarrow> (q, MetricPanic p))
     else (q, r))"

text \<open>What each setter does between \<open>stateLock.Lock()\<close> and \<open>stateLock.Unlock()\<close>.\<close>

primrec setter_code :: "setter \<Rightarrow> setter_instr list" where
  "setter_code CallPlayerJoined = [load_players, store_players (\<lambda>n. Some (n + 1)), load_players]"
| "setter_code CallPlayerLeft =
     [load_players, store_players (\<lambda>n. if sint n > 0 then Some (n - 1) else None), load_players]"
| "setter_code (CallSetCurrentPlayers p) =
     [write_state (\<lambda>q. q\<lparr>CurrentPlayers := if sint p < 0 then 0 else p\<rparr>)]"
| "setter_code (CallSetMaxPlayers p) = [write_state (\<lambda>q. q\<lparr>MaxPlayers := p\<rparr>)]"
| "setter_code (CallSetServerName n) = [write_state (\<lambda>q. q\<lparr>ServerName := n\<rparr>)]"
| "setter_code (CallSetGameType n) = [write_state (\<lambda>q. q\<lparr>GameType := n\<rparr>)]"
| "setter_code (CallSetGameMap n) = [write_state (\<lambda>q. q\<lparr>MapName := n\<rparr>)]"
| "setter_code (CallSetMetric i v) = [check_metric i, expand_metrics i, store_metric i v]"

text \<open>The same as one operation on the query state, and as the call of the server's method.\<close>

definition setter_section :: "setter \<Rightarrow> query_state \<Rightarrow> query_state \<times> setter_result" where
  "setter_section c q = run_section (setter_code c) (q, NoResult)"

fun setter_call :: "setter \<Rightarrow> server \<Rightarrow> server \<times> setter_result" where
  "setter_call CallPlayerJoined s = (case PlayerJoined s of (n, s') \<Rightarrow> (s', Players n))"
| "setter_call CallPlayerLeft s = (case PlayerLeft s of (n, s') \<Rightarrow> (s', Players n))"
| "setter_call (CallSetCurrentPlayers p) s = (SetCurrentPlayers p s, NoResult)"
| "setter_call (CallSetMaxPlayers p) s = (SetMaxPlayers p s, NoResult)"
| "setter_call (CallSetServerName n) s = (SetServerName n s, NoResult)"
| "setter_call (CallSetGameType n) s = (SetGameType n s, NoResult)"
| "setter_call (CallSetGameMap n) s = (SetGameMap n s, NoResult)"
| "setter_call (CallSetMetric i v) s =
     (case SetMetric i v s of Return (e, s') \<Rightarrow> (s', MetricError e) | Panic p \<Rightarrow> (s, MetricPanic p))"

lemmas instr_defs = load_players_def store_players_def write_state_def check_metric_def expand_metrics_def
  store_metric_def

text \<open>\<open>SetMetric\<close> looks at the configuration before it takes the lock; the other setters take it at once.\<close>

lemma metric_section:
  assumes "QueryType (Config s) = QueryProtocolSQP"
  shows "setter_call (CallSetMetric i v) s =
    (case setter_section (CallSetMetric i v) (state s) of (q, r) \<Rightarrow> (s\<lparr>state := q\<rparr>, r))"
proof (cases "MaxMetrics \<le> unat i")
  case False
  then have "unat (i + 1) = Suc (unat i)" by (simp add: unat_Suc_byte)
  with False assms show ?thesis
    by (auto simp: SetMetric_def setter_section_def instr_defs slice_defs Let_def)
qed (use assms in \<open>simp add: SetMetric_def setter_section_def instr_defs\<close>)

lemma setter_call_section:
  assumes "\<And>i v. c = CallSetMetric i v \<Longrightarrow> QueryType (Config s) = QueryProtocolSQP"
  shows "setter_call c s = (case setter_section c (state s) of (q, r) \<Rightarrow> (s\<lparr>state := q\<rparr>, r))"
proof (cases c)
  case (CallSetMetric i v)
  with metric_section assms show ?thesis by simp
qed (simp_all add: setter_section_def instr_defs PlayerJoined_def PlayerLeft_def SetCurrentPlayers_def
    SetMaxPlayers_def SetServerName_def SetGameType_def SetGameMap_def Let_def)

interpretation state_lock: critical_section setter_code "\<lambda>c. True" NoResult setter_section
  by unfold_locales (simp_all add: setter_section_def)

abbreviation "setter_step \<equiv> lock_step setter_code (\<lambda>c. True) NoResult"

lemma serial_setter_calls:
  assumes "serial setter_section hist (state s) q"
    and "\<And>i k v r. (k, CallSetMetric i v, r) \<in> set hist \<Longrightarrow> QueryType (Config s) = QueryProtocolSQP"
  shows "serial setter_call hist s (s\<lparr>state := q\<rparr>)"
  using assms
proof (induction hist arbitrary: s)
  case (Cons x hist)
  obtain k c r where x: "x = (k, c, r)" by (cases x)
  obtain q1 r1 where sec: "setter_section c (state s) = (q1, r1)" by (cases "setter_section c (state s)")
  have "setter_call c s = (case setter_section c (state s) of (q, r) \<Rightarrow> (s\<lparr>state := q\<rparr>, r))"
    by (rule setter_call_section) (use Cons.prems(2) x in auto)
  moreover have "serial setter_call hist (s\<lparr>state := q1\<rparr>) (s\<lparr>state := q1\<rparr>\<lparr>state := q\<rparr>)"
  proof (rule Cons.IH)
    show "serial setter_section hist (state (s\<lparr>state := q1\<rparr>)) q" using Cons.prems(1) by (simp add: x sec)
    show "QueryType (Config (s\<lparr>state := q1\<rparr>)) = QueryProtocolSQP" if "(k, CallSetMetric i v, r) \<in> set hist" for i k v r
      using Cons.prems(2) [of k i v r] that by (simp add: Config_def)
  qed
  ultimately show ?case using Cons.prems(1) by (simp add: x sec)
qed simp

lemma setters_in_order:
  assumes run: "setter_step\<^sup>*\<^sup>* (lock_start (state s) cs) x"
    and sqp: "\<And>i v. CallSetMetric i v \<in> set cs \<Longrightarrow> QueryType (Config s) = QueryProtocolSQP"
  shows "\<exists>q. serial setter_call (finished x) s (s\<lparr>state := q\<rparr>) \<and>
    ((\<forall>t \<in> set (threads x). inside t = None) \<longrightarrow> shared x = q)"
proof -
  obtain q where q: "serial setter_section (finished x) (state s) q" "state_lock.lock_inv q x"
    using state_lock.linearised [OF run] by blast
  have "QueryType (Config s) = QueryProtocolSQP" if "(k, CallSetMetric i v, r) \<in> set (finished x)" for i k v r
    using sqp [of i v] account_finished [OF account_run [OF run] that] by (auto simp: in_set_conv_nth)
  from serial_setter_calls [OF q(1) this] have "serial setter_call (finished x) s (s\<lparr>state := q\<rparr>)" .
  moreover have "shared x = q" if "\<forall>t \<in> set (threads x). inside t = None"
    using q(2) that by (auto simp: state_lock.lock_inv_def writing_def)
  ultimately show ?thesis by blast
qed

section \<open>Players who join at the same time\<close>

definition join_result :: "(setter, query_state, setter_result) thread \<Rightarrow> int" where
  "join_result t = (case t of Returned c (Players n) \<Rightarrow> sint n | _ \<Rightarrow> 0)"

lemma sint_add_one: "0 \<le> sint n \<Longrightarrow> sint n + 1 < 2 ^ 31 \<Longrightarrow> sint (n + 1 :: int32) = sint n + 1"
  by (simp add: sint_word_ariths signed_take_bit_int_eq_self)

text \<open>The joins in order count on from the number of players there were.\<close>

lemma joins_count:
  assumes "serial setter_section hist q q'" "\<And>k c r. (k, c, r) \<in> set hist \<Longrightarrow> c = CallPlayerJoined"
    and "0 \<le> sint (CurrentPlayers q)" "sint (CurrentPlayers q) + int (length hist) < 2 ^ 31"
  shows "sint (CurrentPlayers q') = sint (CurrentPlayers q) + int (length hist) \<and>
    (\<forall>j < length hist. \<exists>n. snd (snd (hist ! j)) = Players n \<and> sint n = sint (CurrentPlayers q) + int (Suc j))"
  using assms
proof (induction hist arbitrary: q)
  case (Cons x hist)
  let ?n = "CurrentPlayers q" and ?q = "q\<lparr>CurrentPlayers := CurrentPlayers q + 1\<rparr>"
  obtain k r where x: "x = (k, CallPlayerJoined, r)" using Cons.prems(2) [of "fst x" "fst (snd x)" "snd (snd x)"] by (cases x) auto
  have n: "sint (?n + 1) = sint ?n + 1" using Cons.prems(3,4) by (intro sint_add_one) auto
  have sec: "setter_section CallPlayerJoined q = (?q, Players (?n + 1))"
    by (simp add: setter_section_def instr_defs)
  from Cons.prems(1) have r: "r = Players (?n + 1)" and rest: "serial setter_section hist ?q q'"
    by (simp_all add: x sec)
  have "sint (CurrentPlayers q') = sint (CurrentPlayers ?q) + int (length hist) \<and>
    (\<forall>j < length hist. \<exists>n. snd (snd (hist ! j)) = Players n \<and> sint n = sint (CurrentPlayers ?q) + int (Suc j))"
    by (rule Cons.IH [OF rest]) (use Cons.prems n in auto)
  then show ?case by (auto simp: n r x nth_Cons split: nat.splits)
qed simp

lemma joins_bijective:
  assumes run: "setter_step\<^sup>*\<^sup>* (lock_start q (replicate n CallPlayerJoined)) x"
    and all: "unfinished x = {}"
    and small: "0 \<le> sint (CurrentPlayers q)" "sint (CurrentPlayers q) + int n < 2 ^ 31"
  shows "sint (CurrentPlayers (shared x)) = sint (CurrentPlayers q) + int n \<and>
    bij_betw (\<lambda>i. join_result (threads x ! i)) {..<n}
      {sint (CurrentPlayers q) + 1..sint (CurrentPlayers q) + int n}"
proof -
  let ?p = "sint (CurrentPlayers q)" and ?h = "finished x"
  have acc: "account (replicate n CallPlayerJoined) x" by (rule account_run [OF run])
  then have len: "length (threads x) = n" and dist: "distinct (map fst ?h)"
    and ret: "\<And>i c r. (i, c, r) \<in> set ?h \<longleftrightarrow> i < n \<and> threads x ! i = Returned c r"
    by (auto simp: account_def dest: arg_cong [of _ _ length])
  have ids: "set (map fst ?h) = {..<n}"
  proof (intro equalityI subsetI)
    fix i assume "i \<in> set (map fst ?h)"
    with ret show "i \<in> {..<n}" by auto
  next
    fix i assume "i \<in> {..<n}"
    with all len obtain c r where "i < n" "threads x ! i = Returned c r" by (auto simp: unfinished_def)
    with ret have "(i, c, r) \<in> set ?h" by simp
    then show "i \<in> set (map fst ?h)" by force
  qed
  then have n: "length ?h = n" using distinct_card [OF dist] by simp
  have calls: "c = CallPlayerJoined" if "(k, c, r) \<in> set ?h" for k c r
    using account_finished [OF acc that] by simp
  have "\<not> writing (\<lambda>c. True) t" if t: "t \<in> set (threads x)" for t
    using t all by (cases t) (auto simp: unfinished_def in_set_conv_nth)
  then have "serial setter_section ?h q (shared x)" using state_lock.linearised_quiet [OF run] by blast
  from joins_count [OF this calls small(1)] small(2) n
  have count: "sint (CurrentPlayers (shared x)) = ?p + int n"
    and res: "\<And>j. j < n \<Longrightarrow> \<exists>m. snd (snd (?h ! j)) = Players m \<and> sint m = ?p + int (Suc j)"
    by simp_all
  have join: "join_result (threads x ! fst (?h ! j)) = ?p + int (Suc j)" if "j < n" for j
  proof -
    have "(fst (?h ! j), fst (snd (?h ! j)), snd (snd (?h ! j))) \<in> set ?h" using that n by simp
    with ret have "threads x ! fst (?h ! j) = Returned (fst (snd (?h ! j))) (snd (snd (?h ! j)))" by blast
    with res [OF that] show ?thesis by (auto simp: join_result_def)
  qed
  have "(\<lambda>i. join_result (threads x ! i)) ` {..<n} = (\<lambda>j. ?p + int (Suc j)) ` {..<n}"
  proof -
    have "set (map fst ?h) = (\<lambda>j. map fst ?h ! j) ` {..<n}"
      using nth_image [of n "map fst ?h"] n by (simp add: lessThan_atLeast0)
    also have "\<dots> = (\<lambda>j. fst (?h ! j)) ` {..<n}" by (rule image_cong) (use n in simp_all)
    finally have "{..<n} = (\<lambda>j. fst (?h ! j)) ` {..<n}" using ids by simp
    from arg_cong [OF this, of "image (\<lambda>i. join_result (threads x ! i))"]
    have "(\<lambda>i. join_result (threads x ! i)) ` {..<n} = (\<lambda>j. join_result (threads x ! fst (?h ! j))) ` {..<n}"
      by (simp only: image_image)
    with join show ?thesis by simp
  qed
  also have "\<dots> = {?p + 1..?p + int n}"
  proof (intro equalityI subsetI)
    fix z assume z: "z \<in> {?p + 1..?p + int n}"
    then have "z = ?p + int (Suc (nat (z - ?p - 1)))" "nat (z - ?p - 1) < n" by auto
    then show "z \<in> (\<lambda>j. ?p + int (Suc j)) ` {..<n}" by (metis imageI lessThan_iff)
  qed auto
  finally have img: "(\<lambda>i. join_result (threads x ! i)) ` {..<n} = {?p + 1..?p + int n}" .
  then have "inj_on (\<lambda>i. join_result (threads x ! i)) {..<n}" by (intro eq_card_imp_inj_on) simp_all
  with img count show ?thesis by (simp add: bij_betw_def)
qed

section \<open>currentConfigMtx\<close>

text \<open>The configuration is a struct of many words: it is copied field by field, in and out.\<close>

datatype config_call = CallSetConfig config | CallConfig

type_synonym config_instr = "(config, config) instr"

definition copy_in :: "config \<Rightarrow> config_field \<Rightarrow> config_instr" where
  "copy_in c f = (\<lambda>(cur, r). (set_field f (get_field f c) cur, r))"

definition copy_out :: "config_field \<Rightarrow> config_instr" where
  "copy_out f = (\<lambda>(cur, r). (cur, set_field f (get_field f cur) r))"

primrec config_code :: "config_call \<Rightarrow> config_instr list" where
  "config_code (CallSetConfig c) = map (copy_in c) config_fields @ [\<lambda>(cur, r). (cur\<lparr>Extra := Extra c\<rparr>, r)]"
| "config_code CallConfig = map copy_out config_fields @ [\<lambda>(cur, r). (cur, r\<lparr>Extra := Extra cur\<rparr>)]"

primrec config_section :: "config_call \<Rightarrow> config \<Rightarrow> config \<times> config" where
  "config_section (CallSetConfig c) cur = (c, zero_config)"
| "config_section CallConfig cur = (cur, cur)"

lemma copy_all:
  "run_section (config_code (CallSetConfig c)) (cur, r) = (c, r)"
  "run_section (config_code CallConfig) (cur, r) = (cur, cur)"
  by (cases c; cases cur; cases r; simp add: config_fields_def copy_in_def copy_out_def)+

primrec config_written :: "config_call \<Rightarrow> config option" where
  "config_written (CallSetConfig c) = Some c"
| "config_written CallConfig = None"

interpretation config_lock: locked_register config_code "\<lambda>c. True" zero_config config_section config_written
proof unfold_locales
  show "run_section (config_code c) (a, zero_config) = config_section c a" for c a
    by (cases c) (simp_all only: copy_all config_section.simps)
  show "fst (config_section c a) = v" if "config_written c = Some v" for c v a using that by (cases c) simp_all
  show "config_section c a = (a, a)" if "config_written c = None" for c a using that by (cases c) simp_all
qed simp

abbreviation "config_step \<equiv> lock_step config_code (\<lambda>c. True) zero_config"

text \<open>The two calls are those of the server, one after the other.\<close>

lemma config_fold: "last (Config s # cs) = Config (fold setConfig cs s)"
proof (induction cs arbitrary: s)
  case (Cons c cs)
  from Cons.IH [of "setConfig c s"] show ?case by (simp add: Config_def setConfig_def)
qed simp

section \<open>allocatedUUIDMtx\<close>

text \<open>The callbacks of the event watcher take the lock for writing, \<open>ReadyForPlayers\<close> takes it for reading.\<close>

datatype alloc_call = CallSetAllocation go_string | CallReadAllocation

primrec alloc_code :: "alloc_call \<Rightarrow> (go_string, go_string) instr list" where
  "alloc_code (CallSetAllocation i) = [\<lambda>(u, r). (i, r)]"
| "alloc_code CallReadAllocation = [\<lambda>(u, r). (u, u)]"

primrec alloc_section :: "alloc_call \<Rightarrow> go_string \<Rightarrow> go_string \<times> go_string" where
  "alloc_section (CallSetAllocation i) u = (i, [])"
| "alloc_section CallReadAllocation u = (u, u)"

definition alloc_writes :: "alloc_call \<Rightarrow> bool" where
  "alloc_writes c \<longleftrightarrow> c \<noteq> CallReadAllocation"

primrec alloc_written :: "alloc_call \<Rightarrow> go_string option" where
  "alloc_written (CallSetAllocation i) = Some i"
| "alloc_written CallReadAllocation = None"

interpretation alloc_lock: locked_register alloc_code alloc_writes "[]" alloc_section alloc_written
proof unfold_locales
  show "run_section (alloc_code c) (a, []) = alloc_section c a" for c a by (cases c) simp_all
  show "fst (f (a, r)) = a" if "\<not> alloc_writes c" "f \<in> set (alloc_code c)" for c f a r
    using that by (cases c) (auto simp: alloc_writes_def)
  show "fst (alloc_section c a) = v" if "alloc_written c = Some v" for c v a using that by (cases c) simp_all
  show "alloc_section c a = (a, a)" if "alloc_written c = None" for c a using that by (cases c) simp_all
qed

text \<open>\<open>ReadyForPlayers\<close> reads the identifier that a callback wrote last.\<close>

lemma allocation_read:
  assumes "(lock_step alloc_code alloc_writes [])\<^sup>*\<^sup>* (lock_start u cs) x"
    and "finished x = pre @ (i, CallReadAllocation, r) # post"
  shows "r = last (u # writes_of alloc_written pre)"
  by (rule alloc_lock.read_last [OF assms]) simp

section \<open>Properties\<close>

text \<open>C9. The setters are linearisable. Whatever the goroutines that call them do between the reads and writes of each other, the
  calls that have returned have the results, and leave the query state, of the same calls made one after the other, in the
  order in which they released \<open>stateLock\<close>; each call that has returned is in that order once; and from every
  point the calls can all return.\<close>

theorem setters_linearizable:
  assumes "setter_step\<^sup>*\<^sup>* (lock_start (state s) cs) x"
    and "\<forall>i v. CallSetMetric i v \<in> set cs \<longrightarrow> QueryType (Config s) = QueryProtocolSQP"
  shows "(\<exists>q. serial setter_call (finished x) s (s\<lparr>state := q\<rparr>) \<and>
      ((\<forall>t \<in> set (threads x). inside t = None) \<longrightarrow> shared x = q)) \<and>
    distinct (map fst (finished x)) \<and>
    (\<forall>i c r. (i, c, r) \<in> set (finished x) \<longleftrightarrow> i < length cs \<and> threads x ! i = Returned c r) \<and>
    (\<exists>y. setter_step\<^sup>*\<^sup>* x y \<and> unfinished y = {})"
proof -
  have "account cs x" by (rule account_run [OF assms(1)])
  moreover from this have "length (threads x) = length cs" by (auto simp: account_def)
  moreover have "\<exists>y. setter_step\<^sup>*\<^sup>* x y \<and> unfinished y = {}" by (rule all_return)
  moreover have "\<exists>q. serial setter_call (finished x) s (s\<lparr>state := q\<rparr>) \<and>
      ((\<forall>t \<in> set (threads x). inside t = None) \<longrightarrow> shared x = q)"
    by (rule setters_in_order [OF assms(1)]) (use assms(2) in blast)
  ultimately show ?thesis by (simp add: account_def)
qed

text \<open>Two players who join, the second call first.\<close>

definition two_joins :: "(setter, query_state, setter_result) lock_sys" where
  "two_joins = \<lparr>shared = zero_query_state\<lparr>CurrentPlayers := 2\<rparr>,
     threads = [Returned CallPlayerJoined (Players 2), Returned CallPlayerJoined (Players 1)],
     finished = [(1, CallPlayerJoined, Players 1), (0, CallPlayerJoined, Players 2)]\<rparr>"

lemma two_joins_run:
  "setter_step\<^sup>*\<^sup>* (lock_start zero_query_state [CallPlayerJoined, CallPlayerJoined]) two_joins"
proof -
  let ?x = "lock_start zero_query_state [CallPlayerJoined, CallPlayerJoined]"
  let ?q = "zero_query_state\<lparr>CurrentPlayers := 1\<rparr>"
  let ?y = "?x\<lparr>shared := ?q, threads := (threads ?x)[1 := Returned CallPlayerJoined (Players 1)],
      finished := finished ?x @ [(1, CallPlayerJoined, Players 1)]\<rparr>"
  have "setter_step\<^sup>*\<^sup>* ?x ?y"
    by (rule call_alone) (simp_all add: lock_start_def instr_defs zero_query_state_def)
  moreover have "setter_step\<^sup>*\<^sup>* ?y
      (?y\<lparr>shared := zero_query_state\<lparr>CurrentPlayers := 2\<rparr>,
        threads := (threads ?y)[0 := Returned CallPlayerJoined (Players 2)],
        finished := finished ?y @ [(0, CallPlayerJoined, Players 2)]\<rparr>)"
    by (rule call_alone) (simp_all add: lock_start_def instr_defs zero_query_state_def)
  ultimately have "setter_step\<^sup>*\<^sup>* ?x
      (?y\<lparr>shared := zero_query_state\<lparr>CurrentPlayers := 2\<rparr>,
        threads := (threads ?y)[0 := Returned CallPlayerJoined (Players 2)],
        finished := finished ?y @ [(0, CallPlayerJoined, Players 2)]\<rparr>)"
    by (rule rtranclp_trans)
  then show ?thesis by (simp add: two_joins_def lock_start_def)
qed

theorem setters_linearizable_witness:
  "serial setter_call (finished two_joins) (fresh_server TypeAllocation ''f'')
      ((fresh_server TypeAllocation ''f'')\<lparr>state := shared two_joins\<rparr>) \<and>
   map fst (finished two_joins) = [1, 0]"
proof -
  have "state (fresh_server TypeAllocation ''f'') = zero_query_state" by (simp add: fresh_server_def)
  with two_joins_run setters_linearizable [of "fresh_server TypeAllocation ''f''" "[CallPlayerJoined, CallPlayerJoined]" two_joins]
  show ?thesis by (simp add: two_joins_def)
qed

text \<open>C30. Players who join at the same time are all counted: when any number of goroutines call \<open>PlayerJoined\<close>, however their
  reads and writes interleave, the calls return the next numbers after the count there was, each of them to one
  caller, and the last of them is the new count.\<close>

theorem concurrent_joins:
  assumes "setter_step\<^sup>*\<^sup>* (lock_start q (replicate n CallPlayerJoined)) x"
    and "unfinished x = {}"
    and "0 \<le> sint (CurrentPlayers q)" and "sint (CurrentPlayers q) + int n < 2 ^ 31"
  shows "sint (CurrentPlayers (shared x)) = sint (CurrentPlayers q) + int n \<and>
    bij_betw (\<lambda>i. join_result (threads x ! i)) {..<n}
      {sint (CurrentPlayers q) + 1..sint (CurrentPlayers q) + int n}"
  using assms by (rule joins_bijective)

theorem concurrent_joins_witness:
  "bij_betw (\<lambda>i. join_result (threads two_joins ! i)) {..<2} {1..2} \<and> unfinished two_joins = {}"
proof -
  have "unfinished two_joins = {}" by (auto simp: unfinished_def two_joins_def less_Suc_eq)
  moreover have "setter_step\<^sup>*\<^sup>* (lock_start zero_query_state (replicate 2 CallPlayerJoined)) two_joins"
    using two_joins_run by (simp add: numeral_2_eq_2)
  ultimately show ?thesis
    using concurrent_joins [of zero_query_state 2 two_joins] by (simp add: zero_query_state_def)
qed

text \<open>C10. A configuration is never torn. \<open>Config()\<close> copies a struct of many fields while \<open>setConfig\<close> may be called from another
  goroutine; whatever the interleaving of the copied fields, each call returns the configuration that was set last
  before it, whole, in the order in which the calls released the lock.\<close>

theorem config_never_torn:
  assumes "config_step\<^sup>*\<^sup>* (lock_start (Config s) cs) x"
    and "finished x = pre @ (i, CallConfig, r) # post"
  shows "r = Config (fold setConfig (writes_of config_written pre) s)"
proof -
  have "r = last (Config s # writes_of config_written pre)" by (rule config_lock.read_last [OF assms]) simp
  then show ?thesis by (simp only: config_fold)
qed

theorem config_never_torn_witness:
  "\<exists>x. config_step\<^sup>*\<^sup>*
      (lock_start (Config (fresh_server TypeAllocation ''f'')) [CallConfig, CallSetConfig (zero_config\<lparr>IP := ''1''\<rparr>)]) x \<and>
    finished x = [(1, CallSetConfig (zero_config\<lparr>IP := ''1''\<rparr>), zero_config), (0, CallConfig, zero_config\<lparr>IP := ''1''\<rparr>)] \<and>
    zero_config\<lparr>IP := ''1''\<rparr> = Config (fold setConfig [zero_config\<lparr>IP := ''1''\<rparr>] (fresh_server TypeAllocation ''f''))"
proof -
  let ?s = "fresh_server TypeAllocation ''f''" and ?c = "zero_config\<lparr>IP := ''1''\<rparr>"
  let ?x = "lock_start (Config ?s) [CallConfig, CallSetConfig ?c]"
  let ?y = "?x\<lparr>shared := ?c, threads := (threads ?x)[1 := Returned (CallSetConfig ?c) zero_config],
      finished := finished ?x @ [(1, CallSetConfig ?c, zero_config)]\<rparr>"
  let ?z = "?y\<lparr>shared := ?c, threads := (threads ?y)[0 := Returned CallConfig ?c],
      finished := finished ?y @ [(0, CallConfig, ?c)]\<rparr>"
  have "config_step\<^sup>*\<^sup>* ?x ?y"
    by (rule call_alone) (simp_all add: lock_start_def copy_all del: config_code.simps)
  moreover have "config_step\<^sup>*\<^sup>* ?y ?z"
    by (rule call_alone) (simp_all add: lock_start_def copy_all del: config_code.simps)
  ultimately have run: "config_step\<^sup>*\<^sup>* ?x ?z" by (rule rtranclp_trans)
  have fin: "finished ?z = [(1, CallSetConfig ?c, zero_config)] @ (0, CallConfig, ?c) # []" by (simp add: lock_start_def)
  from config_never_torn [OF run fin] run fin show ?thesis by auto
qed

end
