(* ===== verification/Proto_Errors.thy ===== *)
theory Proto_Errors
  imports Proto_Base Go_Strconv
begin

text \<open>
  The texts of the errors of the query packages (\<open>proto/base.go\<close>, \<open>proto/sqp/errors.go\<close>,
  \<open>proto/a2s/errors.go\<close>), and that an error of the SDK can be told from its text, the version and the
  header it reports included.
\<close>

section \<open>The verb x of fmt on a byte slice\<close>

definition hex_digit :: "nat \<Rightarrow> char" where
  "hex_digit d = char_of (if d < 10 then 48 + d else 87 + d)"

definition hex_byte :: "byte \<Rightarrow> go_string" where
  "hex_byte b = [hex_digit (unat b div 16), hex_digit (unat b mod 16)]"

definition hex_bytes :: "byte list \<Rightarrow> go_string" where
  "hex_bytes bs = concat (map hex_byte bs)"

lemma hex_digit_code: "d < 16 \<Longrightarrow> of_char (hex_digit d) = (if d < 10 then 48 + d else 87 + d)"
  by (simp add: hex_digit_def)

lemma hex_digit_eq_iff:
  assumes "d < 16" "d' < 16"
  shows "hex_digit d = hex_digit d' \<longleftrightarrow> d = d'"
proof
  assume "hex_digit d = hex_digit d'"
  then have "(of_char (hex_digit d) :: nat) = of_char (hex_digit d')" by simp
  then have "(if d < 10 then 48 + d else 87 + d) = (if d' < 10 then 48 + d' else 87 + d')"
    unfolding hex_digit_code [OF assms(1)] hex_digit_code [OF assms(2)] .
  then show "d = d'" using assms by (simp split: if_splits)
qed simp

lemma hex_byte_eq_iff: "hex_byte b = hex_byte c \<longleftrightarrow> b = c"
proof -
  have "unat b < 256" "unat c < 256" using unsigned_less [of b, where 'a = nat] unsigned_less [of c, where 'a = nat] by simp_all
  then have "unat b div 16 < 16" "unat c div 16 < 16" by (simp_all add: less_mult_imp_div_less)
  then have "hex_byte b = hex_byte c \<longleftrightarrow> unat b div 16 = unat c div 16 \<and> unat b mod 16 = unat c mod 16"
    by (simp add: hex_byte_def hex_digit_eq_iff)
  also have "\<dots> \<longleftrightarrow> unat b = unat c" by (metis mult_div_mod_eq)
  finally show ?thesis by (simp add: word_unat_eq_iff)
qed

lemma hex_bytes_eq_iff: "hex_bytes bs = hex_bytes cs \<longleftrightarrow> bs = cs"
proof (induction bs arbitrary: cs)
  case Nil
  then show ?case by (cases cs) (simp_all add: hex_bytes_def hex_byte_def)
next
  case (Cons b bs)
  show ?case
  proof (cases cs)
    case (Cons c cs')
    have "length (hex_byte b) = length (hex_byte c)" by (simp add: hex_byte_def)
    with Cons.IH [of cs'] hex_byte_eq_iff [of b c] show ?thesis by (simp add: Cons hex_bytes_def)
  qed (simp add: hex_bytes_def hex_byte_def)
qed

section \<open>The texts\<close>

definition read_error_text :: "read_error \<Rightarrow> go_string" where
  "read_error_text e = (case e of EOF \<Rightarrow> ''EOF'' | UnexpectedEOF \<Rightarrow> ''unexpected EOF'')"

definition UnsupportedSQPVersionError_Error :: "uint16 \<Rightarrow> go_string" where
  "UnsupportedSQPVersionError_Error version = ''unsupported sqp version: '' @ nat_dec (unat version)"

definition UnsupportedQueryError_Error :: "byte list \<Rightarrow> go_string" where
  "UnsupportedQueryError_Error header = ''unsupported query: '' @ hex_bytes header"

fun query_Error :: "query_error \<Rightarrow> go_string" where
  "query_Error ErrChallengeMalformed = ''challenge malformed''"
| "query_Error ErrChallengeMismatch = ''challenge mismatch''"
| "query_Error ErrNoChallenge = ''no challenge''"
| "query_Error (ErrRandom e) = e"
| "query_Error (ErrRead e) = read_error_text e"
| "query_Error ErrNotAnInfoRequest = ''not an info request''"
| "query_Error (UnsupportedQueryError header) = UnsupportedQueryError_Error header"
| "query_Error ErrInvalidPacketLength = ''invalid packet length''"
| "query_Error ErrUnsupportedQuery = ''unsupported query''"
| "query_Error (UnsupportedSQPVersionError version) = UnsupportedSQPVersionError_Error version"

fun is_random_error :: "query_error \<Rightarrow> bool" where
  "is_random_error (ErrRandom e) = True"
| "is_random_error _ = False"

lemma nat_dec_eq_iff: "m < 2 ^ 64 \<Longrightarrow> n < 2 ^ 64 \<Longrightarrow> nat_dec m = nat_dec n \<longleftrightarrow> m = n"
  by (metis parse_digits_dec sum.inject(2))

lemma version_text_eq_iff:
  "UnsupportedSQPVersionError_Error v = UnsupportedSQPVersionError_Error w \<longleftrightarrow> v = w"
proof -
  have "unat v < 2 ^ 64" "unat w < 2 ^ 64" using unsigned_less [of v, where 'a = nat] unsigned_less [of w, where 'a = nat] by simp_all
  then show ?thesis by (simp add: UnsupportedSQPVersionError_Error_def nat_dec_eq_iff word_unat_eq_iff)
qed

text \<open>Only an error of the random source, which is not the SDK's, can have the text of another one.\<close>

theorem query_error_texts_distinct:
  assumes "\<not> is_random_error e" and "\<not> is_random_error e'"
  shows "query_Error e = query_Error e' \<longleftrightarrow> e = e'"
proof (cases e)
  case (UnsupportedSQPVersionError v)
  then show ?thesis
    using assms(2) version_text_eq_iff
    by (cases e') (auto simp: UnsupportedSQPVersionError_Error_def UnsupportedQueryError_Error_def
        read_error_text_def split: read_error.split)
next
  case (UnsupportedQueryError h)
  then show ?thesis
    using assms(2) hex_bytes_eq_iff
    by (cases e') (auto simp: UnsupportedSQPVersionError_Error_def UnsupportedQueryError_Error_def
        read_error_text_def split: read_error.split)
qed (use assms in \<open>cases e'; auto simp: UnsupportedSQPVersionError_Error_def UnsupportedQueryError_Error_def
        read_error_text_def split: read_error.splits\<close>)+

end
