(* ===== verification/Spec2Isabelle.thy ===== *)
theory Spec2Isabelle
  imports Allocation_Flow Matchmaker_Shutdown Gsh_Locks Proto_Errors
begin

text \<open>
  A verification development for the Unity Gaming Services SDK for Go. The SDK lets a game
  server run on Game Server Hosting: it reads the server's configuration file and follows its
  changes, answers query packets (SQP or A2S) on a UDP port, listens to the local proxy for
  allocations, calls the proxy's HTTP operations, and keeps a matchmaker backfill ticket alive.

  \<^bold>\<open>The parts and how they interact.\<close> \<open>Start\<close> (\<open>server/server.go\<close>) loads \<open>server.json\<close>
  (\<open>config.go\<close>), binds the query port (\<open>bind.go\<close>, \<open>query.go\<close>) with the responder of the configured
  protocol (\<open>proto/sqp\<close>, \<open>proto/a2s\<close>, both on the challenge store of \<open>proto/base.go\<close> and the
  writer of \<open>proto/query.go\<close>), and starts three goroutines: the query loop, the configuration
  watcher (\<open>config_watcher.go\<close>) and the event listener (\<open>event_watcher.go\<close> on
  \<open>internal/localproxy\<close>). They tell the game what happens through channels of capacity one. \<open>Stop\<close>
  closes the port, sends a deallocation, closes \<open>done\<close> and waits for the goroutines. The package
  \<open>matchmaker/server\<close> wraps such a server and adds the backfill loop.

  \<^bold>\<open>The theories\<close>, each imported by those after it that use it:
  \<^item> \<open>Go_Prelude\<close>, \<open>Go_Binary\<close>, \<open>Go_Chan\<close>, \<open>Go_Strconv\<close>, \<open>Go_Json\<close>: what the SDK uses of the language and its
    standard library. Panics are the second constructor of \<open>outcome\<close>, errors the left side of a sum;
    slices have elements and spare capacity; channels a capacity, their values and a closed flag (the
    contract of the lossy send is the locale \<open>mailbox\<close>); integers are words of their width.
  \<^item> \<open>Proto_Wire\<close>: \<open>proto/query.go\<close>, the query state and \<open>WireWrite\<close>; the locales \<open>wire_encoder_laws\<close> and
    \<open>wire_codec\<close> give the length and the round trip for both encoders.
  \<^item> \<open>Challenge_Contract\<close>, \<open>Proto_Base\<close>: the abstract ledger of challenges (locale \<open>challenge_issuer\<close>) and
    \<open>proto/base.go\<close>, whose store refines it under every interleaving with purge goroutines.
  \<^item> \<open>Responder_Contract\<close>, \<open>Proto_SQP\<close>, \<open>Proto_A2S\<close>: the contract of a responder (locale
    \<open>query_responder\<close>) and the two protocols: handshake, decoding of every response, payload length,
    panics, equivalence of the A2S parser with a structural reading.
  \<^item> \<open>Gsh_Errors\<close>, \<open>Gsh_Config\<close>: the errors, and \<open>config.go\<close> with the decoding rules it depends on: which files
    load, what they mean, which make it panic.
  \<^item> \<open>Udp_Binding\<close>: \<open>bind.go\<close>, its life cycle and the race between \<open>Read\<close> and \<open>Close\<close>.
  \<^item> \<open>Proxy_Event\<close>, \<open>Proxy_Client\<close>, \<open>Proxy_Http\<close>: \<open>internal/localproxy\<close> and \<open>model\<close>. Events and their round
    trip, the client with its subscription, and the six HTTP operations, each an interpretation of the
    locale \<open>http_endpoint\<close>.
  \<^item> \<open>Gsh_Server\<close>: the state of \<open>server.go\<close>, \<open>option.go\<close>, \<open>error.go\<close>; the setters refine an unbounded player
    count and a list of metrics.
  \<^item> \<open>Gsh_Query\<close>: \<open>query.go\<close>. The loop is another interpretation of \<open>query_responder\<close>, so what holds of the
    responders is carried over to the packets that leave the socket.
  \<^item> \<open>Gsh_Events\<close>: \<open>event_watcher.go\<close>, with the game that consumes the channels.
  \<^item> \<open>Gsh_Lifecycle\<close>: \<open>Start\<close>, \<open>Stop\<close> and \<open>config_watcher.go\<close> as operations on the state.
  \<^item> \<open>Query_Race\<close>: the responders read the query state without the lock its setters hold. Each read of a
    field is a point of its own in a history of writes; what a racing query can report.
  \<^item> \<open>Lock_Contract\<close>, \<open>Gsh_Locks\<close>: goroutines at a lock, interleaved at single reads and writes. The locales
    \<open>critical_section\<close> and \<open>locked_register\<close> say when calls are linearisable; the three locks of
    \<open>server.go\<close> interpret them.
  \<^item> \<open>Proto_Errors\<close>: the texts of the errors of the query packages.
  \<^item> \<open>Run_Contract\<close>: infinite runs, weak and strong fairness, and the locale \<open>measured_system\<close> of systems
    whose moves use up a measure.
  \<^item> \<open>Gsh_Shutdown\<close>: \<open>Start\<close>, \<open>Stop\<close> and the goroutines as a transition system of program counters,
    channels and the wait group. \<open>Read\<close>, \<open>Write\<close> and \<open>Close\<close> of the binding are interleaved at their single steps,
    the subscription is confirmed or refused by the broker, and a panic ends the process: invariant, when \<open>Stop\<close>
    never returns, when \<open>Close\<close> makes the query loop panic.
  \<^item> \<open>Gsh_Liveness\<close>: the same system under every fair schedule: when \<open>Start\<close> returns, and that \<open>Stop\<close> returns
    unless the process panics.
  \<^item> \<open>Gsh_Simulation\<close>: the functions of \<open>Gsh_Lifecycle\<close> are simulated by the steps of the caller, so that
    the two models of \<open>Start\<close> and \<open>Stop\<close> are about one server.
  \<^item> \<open>Matchmaker\<close>: \<open>matchmaker/server\<close>.
  \<^item> \<open>Matchmaker_Shutdown\<close>: its \<open>Start\<close>, \<open>Stop\<close> and keep-alive goroutine around the transition system of the
    game server, which it refines; \<open>Stop\<close> returns under every fair schedule unless the process panics.
  \<^item> \<open>Mock_Proxy\<close>: \<open>internal/localproxytest\<close>, the mock proxy of the tests, as the other end of the HTTP
    operations: it answers the requests that the client sends, and the two ends agree.
  \<^item> \<open>Allocation_Flow\<close>: an allocation from the published event to the patch at the proxy.
  \<^item> This theory: the properties that need several of them.

  \<^bold>\<open>Conventions.\<close> A Go function is a definition of the same name, or of that name with the prefix of its
  package where two packages share it. A method takes the state last and returns it updated. What the
  code calls outside the repository (the system calls of sockets and files, the clock and the random
  source, \<open>fsnotify\<close>, the \<open>centrifuge\<close> client, the HTTP transport, the scanning of JSON text, the parsing
  of times) is a parameter: an environment record that holds what the calls return, so a theorem holds
  for all their results. An operation that holds a lock for its whole body is one step, which
  \<open>Gsh_Locks\<close> justifies. Where a reader does not take the lock, \<open>Query_Race\<close> has its reads one by one.

  \<^bold>\<open>Bounds and fuel.\<close> No definition runs on fuel. The loops that do not end, the query loop, the watcher and
  the backfill loop, are functions of the list of what happens to them, so a theorem about all lists
  is one about every finite prefix of their runs. The concurrent parts are step relations, with theorems for
  all interleavings, and infinite runs for what happens eventually. The scheduler is assumed to be fair: a
  goroutine that can always go on does so at some time, and one that can go on again and again, because its
  \<open>select\<close> has a branch for \<open>done\<close>, takes that branch at some time. Of
  the world around the process the theorems on infinite runs assume only that the calls which make, connect and close
  the client of the local proxy return, that a system call of the query loop does once the binding is closed, and that
  the game reads the channel of deallocations; the broker may never confirm the subscription. Their transition system covers one \<open>Start\<close> and one
  \<open>Stop\<close> after it; a second \<open>Stop\<close> is in \<open>Gsh_Lifecycle\<close>. A panic that is not recovered ends the
  process at once, without the deferred calls of its goroutine.

  \<^bold>\<open>Not modelled.\<close> The signals of the process beyond the channel that the two \<open>WaitUntilTerminated\<close> wait for;
  changes of the configuration file between the two decodes of one load; data races below the level of a field,
  where a string or a slice is read while its words are written; the text of error messages outside the query packages, beyond the error they wrap; the deadlines of HTTP requests,
  which are among the errors of the transport; the broker node of the mock proxy and the token it is
  made with; the tests. The handlers of the \<open>centrifuge\<close> client are taken to run one at a time.
\<close>

section \<open>Properties that span components\<close>

text \<open>C27. Metrics after configuration changes. When a new server has started and the watcher has seen any
  sequence of file events, setting a metric panics exactly when the server started under A2S, so without a metrics
  buffer, and a later configuration file names SQP; the responder is still the one of the start.\<close>

theorem metrics_after_configuration_change:
  assumes "Start env s fds = Return (None, s1, fds1, started)" and "queryBind s = None"
    and "0 \<le> queryReadBufferSizeBytes s" and "Metrics (state s) = nil_slice"
    and "config_events evs s1 = Return s2"
  shows "((\<exists>p. SetMetric i v s2 = Panic p) \<longleftrightarrow>
      QueryType (Config s1) = ''a2s'' \<and> QueryType (Config s2) = ''sqp'' \<and> unat i < MaxMetrics) \<and>
    queryProto s2 = queryProto s1"
proof -
  from start_state [OF assms(1-3)] have q: "QueryType (Config s1) \<in> {''a2s'', ''sqp''}"
    and m: "Metrics (state s1) =
      (if QueryType (Config s1) = ''sqp'' then make_slice 0 0 MaxMetrics else nil_slice)"
    by (simp_all add: assms(4))
  from config_events_effect [OF assms(5)] obtain c n e where
    s2: "s2 = s1\<lparr>currentConfig := c, chanConfigurationChanged := n, chanError := e\<rparr>" by blast
  have "state s2 = state s1" "queryProto s2 = queryProto s1" by (simp_all add: s2)
  moreover have "slice_cap (make_slice 0 0 MaxMetrics :: float32 slice) = MaxMetrics" "slice_cap (nil_slice :: float32 slice) = 0"
    by (simp_all add: slice_defs make_slice_def nil_slice_def)
  ultimately show ?thesis
    using q m set_metric_panics_iff [of i v s2] by (auto simp: Config_def QueryProtocolSQP_def)
qed

theorem metrics_after_configuration_change_witness:
  "\<exists>s1 fds1 s2 p. Start (sample_start ''7'' ''a2s'') (fresh_server TypeAllocation ''f'') {} = Return (None, s1, fds1, True) \<and>
    config_events [FsEvent (cfgFile s1) True (FileValue (JObject (sample_members ''7'' ''sqp'')))] s1 = Return s2 \<and>
    SetMetric 0 1 s2 = Panic p"
proof -
  obtain s1 fds1 where r: "Start (sample_start ''7'' ''a2s'') (fresh_server TypeAllocation ''f'') {} = Return (None, s1, fds1, True)"
    and q: "QueryType (Config s1) = ''a2s''"
    by (rule sample_started [of "''a2s''"]) simp
  obtain c where c: "newConfigFromFile (FileValue (JObject (sample_members ''7'' ''sqp''))) = Return (Inr c)" "QueryType c = ''sqp''"
    by (rule sample_config [of "''7''" "''sqp''"]) simp_all
  have ev: "config_events [FsEvent (cfgFile s1) True (FileValue (JObject (sample_members ''7'' ''sqp'')))] s1
      = Return (setConfig c s1)"
    by (simp add: config_watch_def c(1))
  have "queryBind (fresh_server TypeAllocation ''f'') = None" "0 \<le> queryReadBufferSizeBytes (fresh_server TypeAllocation ''f'')"
    "Metrics (state (fresh_server TypeAllocation ''f'')) = nil_slice"
    by (simp_all add: fresh_server_def DefaultReadBufferSizeBytes_def zero_query_state_def)
  from metrics_after_configuration_change [OF r this ev, of 0 1]
  have "\<exists>p. SetMetric 0 1 (setConfig c s1) = Panic p" using q by (simp add: c(2) Config_def setConfig_def MaxMetrics_def)
  with r ev show ?thesis by blast
qed

text \<open>C26. A started server survives every datagram: with a read buffer of at least five bytes, no sequence of
  datagrams, purges, state changes and system call results makes the query loop panic.\<close>

theorem started_server_never_panics:
  assumes "Start env s fds = Return (None, s1, fds1, started)" and "queryBind s = None"
    and "5 \<le> queryReadBufferSizeBytes s"
  shows "\<exists>r s2 sent. query_loop goos es s1 = Return (r, s2, sent)"
proof -
  have "endpoint_ok fds1 s1" "queryReadBufferSizeBytes s1 = queryReadBufferSizeBytes s"
    using start_endpoint [OF assms(1,2)] assms(3) by simp_all
  with query_loop_returns [of fds1 s1 goos es] assms(3) show ?thesis by (metis prod_cases3)
qed

theorem started_server_never_panics_witness:
  "\<exists>s1 fds1. Start (sample_start ''7'' ''sqp'') (fresh_server TypeAllocation ''f'') {} = Return (None, s1, fds1, True) \<and>
    (\<exists>r s2 sent. query_loop ''linux'' [Turn (sample_turn [255, 255] 7), Turn (sample_turn [] 8)] s1 = Return (r, s2, sent))"
proof -
  obtain s1 fds1 where r: "Start (sample_start ''7'' ''sqp'') (fresh_server TypeAllocation ''f'') {} = Return (None, s1, fds1, True)"
    by (rule sample_started [of "''sqp''"]) simp
  have "queryBind (fresh_server TypeAllocation ''f'') = None" "5 \<le> queryReadBufferSizeBytes (fresh_server TypeAllocation ''f'')"
    by (simp_all add: fresh_server_def DefaultReadBufferSizeBytes_def)
  from started_server_never_panics [OF r this] r show ?thesis by blast
qed

text \<open>C3. From the configuration file to the client: under SQP, a client that asks a newly started server for a
  challenge by an empty datagram and queries the server info with it receives the challenge and then a
  packet that decodes to the server's name with its identifier, the default map, the port, and the game type and
  player counts the server had.\<close>

theorem started_server_answers_clients:
  assumes "Start env s fds = Return (None, s1, fds1, started)" and "queryBind s = None"
    and "8 \<le> queryReadBufferSizeBytes s" and "QueryType (Config s1) = ''sqp''"
    and "length (ServerID (Config s1)) \<le> 239" and "length (GameType (state s)) \<le> 255"
    and "GenerateChallenge g1 a new_query_base = (q1, purge, Inr c)"
  shows "\<exists>s2 p. query_loop goos [Turn (quiet_turn [] a g1), Turn (quiet_turn (query_datagram c 1 1) a g2)] s1 =
      Return (GoOn, s2, [(a, sqp_challenge_packet c, True), (a, p, True)]) \<and>
    sqp_decode True False p = Some (expected_header c (length p - 11) @ expected_info ((state s)
      \<lparr>ServerName := ''go-sdk-server - '' @ ServerID (Config s1), MapName := ''go-sdk-map'',
       Port := word_of_int (fst (parse_int64 (GamePort (Config s1))))\<rparr>), [])"
proof -
  have size: "0 \<le> queryReadBufferSizeBytes s" using assms(3) by simp
  from start_served [OF assms(1,2) size] obtain b where b: "endpoint_ok fds1 s1" "queryBind s1 = Some b" "\<not> IsDone b"
    "queryProto s1 = Some (SQPProto new_query_base)" "queryReadBufferSizeBytes s1 = queryReadBufferSizeBytes s"
    "state s1 = (state s)\<lparr>ServerName := ''go-sdk-server - '' @ ServerID (Config s1), MapName := ''go-sdk-map'',
       Metrics := make_slice 0 0 MaxMetrics, Port := word_of_int (fst (parse_int64 (GamePort (Config s1))))\<rparr>"
    by (auto simp: assms(4))
  have v: "(1 :: uint16) \<le> 2" and n: "8 \<le> queryReadBufferSizeBytes s1" using assms(3) b(5) by simp_all
  from sqp_conversation [OF b(1-3) n b(4) assms(7) v, of goos 1 g2] obtain q2 where
    q: "query_loop goos [Turn (quiet_turn [] a g1), Turn (quiet_turn (query_datagram c 1 1) a g2)] s1 =
      Return (GoOn, s1\<lparr>queryProto := Some (SQPProto q2)\<rparr>, [(a, sqp_challenge_packet c, True),
        (a, sqp_response c (sqp_payload True False (Some (state s1))), True)])"
    by auto
  have ok: "sqp_string_ok (ServerName (state s1))" "sqp_string_ok (GameType (state s1))" "sqp_string_ok (MapName (state s1))"
    using assms(5,6) by (simp_all add: b(6) sqp_string_ok_def)
  let ?p = "sqp_response c (sqp_payload True False (Some (state s1)))"
  have "length ?p - 11 = length (sqp_payload True False (Some (state s1)))" by (simp add: sqp_response_def)
  with sqp_response_decode [OF ok, of True False c "[]"]
  have "sqp_decode True False ?p = Some (expected_header c (length ?p - 11) @ expected_info (state s1), [])" by simp
  moreover have "expected_info (state s1) = expected_info ((state s)
      \<lparr>ServerName := ''go-sdk-server - '' @ ServerID (Config s1), MapName := ''go-sdk-map'',
       Port := word_of_int (fst (parse_int64 (GamePort (Config s1))))\<rparr>)"
    by (simp add: b(6) expected_info_def)
  ultimately show ?thesis using q by metis
qed

theorem started_server_answers_clients_witness:
  "\<exists>s1 fds1 s2 p. Start (sample_start ''7'' ''sqp'') (fresh_server TypeAllocation ''f'') {} = Return (None, s1, fds1, True) \<and>
    query_loop ''linux'' [Turn (quiet_turn [] ''c'' (sample_env 5 7)),
        Turn (quiet_turn (query_datagram 7 1 1) ''c'' (sample_env 6 8))] s1 =
      Return (GoOn, s2, [(''c'', sqp_challenge_packet 7, True), (''c'', p, True)]) \<and>
    LString ''go-sdk-server - 7'' \<in> set (fst (the (sqp_decode True False p)))"
proof -
  obtain s1 fds1 where r: "Start (sample_start ''7'' ''sqp'') (fresh_server TypeAllocation ''f'') {} = Return (None, s1, fds1, True)"
    and q: "QueryType (Config s1) = ''sqp''" and i: "ServerID (Config s1) = ''7''"
    by (rule sample_started [of "''sqp''"]) simp
  have f: "queryBind (fresh_server TypeAllocation ''f'') = None" "8 \<le> queryReadBufferSizeBytes (fresh_server TypeAllocation ''f'')"
      "length (GameType (state (fresh_server TypeAllocation ''f''))) \<le> 255" "length (ServerID (Config s1)) \<le> 239"
    by (simp_all add: fresh_server_def DefaultReadBufferSizeBytes_def zero_query_state_def i)
  obtain q1 g where gen: "GenerateChallenge (sample_env 5 7) ''c'' new_query_base = (q1, g, Inr 7)"
    using sample_generate_ok by blast
  from started_server_answers_clients [OF r f(1,2) q f(4,3) gen, of "''linux''" "sample_env 6 8"] obtain s2 p where
    p: "query_loop ''linux'' [Turn (quiet_turn [] ''c'' (sample_env 5 7)),
        Turn (quiet_turn (query_datagram 7 1 1) ''c'' (sample_env 6 8))] s1 =
      Return (GoOn, s2, [(''c'', sqp_challenge_packet 7, True), (''c'', p, True)])"
    "sqp_decode True False p = Some (expected_header 7 (length p - 11) @ expected_info ((state (fresh_server TypeAllocation ''f''))
      \<lparr>ServerName := ''go-sdk-server - '' @ ServerID (Config s1), MapName := ''go-sdk-map'',
       Port := word_of_int (fst (parse_int64 (GamePort (Config s1))))\<rparr>), [])" by blast
  then have "LString ''go-sdk-server - 7'' \<in> set (fst (the (sqp_decode True False p)))"
    by (simp add: expected_info_def i)
  with r p(1) show ?thesis by blast
qed

end
